(* ===== verification/Tina_Prelude.thy ===== *)
theory Tina_Prelude
  imports Main "HOL-Library.Word" "HOL-Library.Multiset"
begin

text \<open>
  Shared vocabulary of the development: the machine integers of the Rust sources, the
  saturating and checked operations of the standard library that the sources call, and the
  generic list lemmas on slabs (vectors of optional entries), free lists and
  \<open>swap_remove\<close> that several components use.

  \<open>u8\<close>, \<open>u32\<close> and \<open>u64\<close> are words, so that wrap-around and saturation are those of the
  machine. A \<open>usize\<close> that counts elements of an allocated collection is a \<open>nat\<close>; where the
  source saturates it, the bound \<open>usize_max\<close> of the supported 64-bit targets is written out.
\<close>

type_synonym u8 = "8 word"
type_synonym u32 = "32 word"
type_synonym u64 = "64 word"
type_synonym bytes = "8 word list"

named_theorems slab_simps \<open>rewrite rules on slabs, free lists and counted occupancy\<close>
named_theorems sat_simps \<open>rewrite rules on saturating word arithmetic\<close>

text \<open>The state of a call handle, \<open>CallHandleState\<close> of \<open>tina/src/context.rs\<close>.\<close>

datatype call_handle_state = HandlePending | HandleSettled | HandleCancelled

text \<open>The outcome of a call, \<open>CallOutcome\<close> of \<open>tina-runtime/src/call/io.rs\<close>; \<open>'x\<close> is the reason of a rejection.\<close>

datatype ('v, 'x) call_outcome =
    OutReplied 'v | OutTimeout | OutFull | OutClosed | OutRejected 'x

section \<open>Saturating arithmetic\<close>

definition usize_max :: nat where
  "usize_max = 2 ^ 64 - 1"

definition sat_add_usize :: "nat \<Rightarrow> nat \<Rightarrow> nat" where
  "sat_add_usize a b = min (a + b) usize_max"

definition sat_add :: "'a::len word \<Rightarrow> 'a word \<Rightarrow> 'a word" where
  "sat_add a b = (if unat a + unat b < 2 ^ LENGTH('a) then a + b else - 1)"

definition sat_sub :: "'a::len word \<Rightarrow> 'a word \<Rightarrow> 'a word" where
  "sat_sub a b = (if b \<le> a then a - b else 0)"

lemma unat_neg_one: "unat (- 1 :: 'a::len word) = 2 ^ LENGTH('a) - 1"
  by (simp add: unsigned_minus_1_eq_mask mask_eq_exp_minus_1)

lemma sat_add_usize_ge_iff [sat_simps]:
  "c \<le> usize_max \<Longrightarrow> c \<le> sat_add_usize a b \<longleftrightarrow> c \<le> a + b"
  by (auto simp: sat_add_usize_def)

lemma unat_sat_add [sat_simps]:
  "unat (sat_add a b :: 'a::len word) = min (unat a + unat b) (2 ^ LENGTH('a) - 1)"
proof (cases "unat a + unat b < 2 ^ LENGTH('a)")
  case True
  then show ?thesis by (simp add: sat_add_def unat_word_ariths)
next
  case False
  then show ?thesis by (simp add: sat_add_def unat_neg_one)
qed

lemma unat_sat_sub [sat_simps]: "unat (sat_sub a b) = unat a - unat b"
  by (auto simp: sat_sub_def unat_sub word_le_nat_alt)

lemma sat_add_one_gt:
  assumes "a \<noteq> (- 1 :: 'a::len word)"
  shows "a < sat_add a 1"
proof -
  have "unat a \<noteq> unat (- 1 :: 'a word)"
    using assms by (simp add: word_unat_eq_iff)
  moreover have "unat a < 2 ^ LENGTH('a)"
    by (rule unsigned_less)
  ultimately have "unat a < 2 ^ LENGTH('a) - 1"
    unfolding unat_neg_one by linarith
  then show ?thesis
    by (cases "LENGTH('a) = 1") (auto simp: word_less_nat_alt unat_sat_add)
qed

lemma sat_add_one_ge: "a \<le> sat_add a (1 :: 'a::len word)"
proof (cases "a = - 1")
  case True
  then show ?thesis by (simp add: word_le_nat_alt unat_sat_add unat_neg_one)
next
  case False
  then have "a < sat_add a 1" by (rule sat_add_one_gt)
  then show ?thesis by simp
qed

section \<open>Slabs: vectors of optional entries\<close>

definition occupied :: "'a option list \<Rightarrow> nat set" where
  "occupied xs = {i. i < length xs \<and> xs ! i \<noteq> None}"

definition vacant :: "'a option list \<Rightarrow> nat set" where
  "vacant xs = {i. i < length xs \<and> xs ! i = None}"

lemma finite_occupied [simp]: "finite (occupied xs)"
  by (simp add: occupied_def)

lemma finite_vacant [simp]: "finite (vacant xs)"
  by (simp add: vacant_def)

lemma occupied_replicate_None [slab_simps]: "occupied (replicate n None) = {}"
  by (auto simp: occupied_def)

lemma vacant_replicate_None [slab_simps]: "vacant (replicate n None) = {..<n}"
  by (auto simp: vacant_def)

lemma occupied_update_Some [slab_simps]:
  "i < length xs \<Longrightarrow> occupied (xs[i := Some x]) = insert i (occupied xs)"
  by (auto simp: occupied_def nth_list_update)

lemma occupied_update_None [slab_simps]: "occupied (xs[i := None]) = occupied xs - {i}"
  by (cases "i < length xs") (auto simp: occupied_def nth_list_update list_update_beyond)

lemma vacant_update_Some [slab_simps]: "vacant (xs[i := Some x]) = vacant xs - {i}"
  by (cases "i < length xs") (auto simp: vacant_def nth_list_update list_update_beyond)

lemma vacant_update_None [slab_simps]:
  "i < length xs \<Longrightarrow> vacant (xs[i := None]) = insert i (vacant xs)"
  by (auto simp: vacant_def nth_list_update)

lemma occupied_iff: "i \<in> occupied xs \<longleftrightarrow> i < length xs \<and> (\<exists>x. xs ! i = Some x)"
  by (auto simp: occupied_def)

lemma occupied_Un_vacant: "occupied xs \<union> vacant xs = {..<length xs}"
  by (auto simp: occupied_def vacant_def)

lemma occupied_Int_vacant: "occupied xs \<inter> vacant xs = {}"
  by (auto simp: occupied_def vacant_def)

lemma card_occupied_vacant: "card (occupied xs) + card (vacant xs) = length xs"
proof -
  have "card (occupied xs) + card (vacant xs) = card (occupied xs \<union> vacant xs)"
    by (simp add: card_Un_disjoint occupied_Int_vacant)
  then show ?thesis by (simp add: occupied_Un_vacant)
qed

section \<open>Vectors: \<open>swap_remove\<close> and \<open>position\<close>\<close>

text \<open>
  \<open>Vec::swap_remove(i)\<close> puts the last element in place of the removed one.
  The callers of this development only pass an index in range.
\<close>

definition swap_remove :: "nat \<Rightarrow> 'a list \<Rightarrow> 'a list" where
  "swap_remove i xs = butlast (xs[i := last xs])"

fun position :: "('a \<Rightarrow> bool) \<Rightarrow> 'a list \<Rightarrow> nat option" where
  "position P [] = None"
| "position P (x # xs) = (if P x then Some 0 else map_option Suc (position P xs))"

lemma position_Some_iff:
  "position P xs = Some i \<longleftrightarrow> i < length xs \<and> P (xs ! i) \<and> (\<forall>j < i. \<not> P (xs ! j))"
proof (induction xs arbitrary: i)
  case Nil
  then show ?case by simp
next
  case (Cons x xs)
  then show ?case
    by (cases i) (auto simp: less_Suc_eq_0_disj)
qed

lemma position_None_iff: "position P xs = None \<longleftrightarrow> (\<forall>x \<in> set xs. \<not> P x)"
  by (induction xs) auto

lemma length_swap_remove: "i < length xs \<Longrightarrow> length (swap_remove i xs) = length xs - 1"
  by (simp add: swap_remove_def)

lemma mset_swap_remove:
  assumes "i < length xs"
  shows "add_mset (xs ! i) (mset (swap_remove i xs)) = mset xs"
proof -
  obtain ys z where xs: "xs = ys @ [z]"
    using assms by (cases xs rule: rev_cases) auto
  show ?thesis
  proof (cases "i < length ys")
    case True
    then have "swap_remove i xs = ys[i := z]"
      by (simp add: swap_remove_def xs list_update_append butlast_append)
    moreover have "mset (ys[i := z]) = add_mset z (mset ys - {#ys ! i#})"
      using True by (rule mset_update)
    moreover have "ys ! i \<in># mset ys" using True by simp
    ultimately show ?thesis using True by (simp add: xs nth_append)
  next
    case False
    with assms have "i = length ys" by (simp add: xs)
    then show ?thesis by (simp add: swap_remove_def xs)
  qed
qed

end
