(* ===== verification/Mailbox.thy ===== *)
theory Mailbox
  imports Tina_Prelude
begin

text \<open>
  The mailbox contract of \<open>tina/src/isolate.rs\<close> (trait \<open>Mailbox\<close>) and the two default
  mailboxes of \<open>tina-runtime/src/mailbox.rs\<close>.

  The contract is the locale \<open>bounded_mailbox\<close>: every operation is described over the list of
  buffered messages and the number of capacity reservations. Its lemmas (FIFO delivery, the
  capacity bound, what a closed mailbox does, what a reservation guarantees) are proved once
  over an arbitrary sequence of operations. \<open>DefaultMailbox\<close> and \<open>DefaultThreadedMailbox\<close>
  interpret it here; the ring buffer of \<open>tina-mailbox-spsc\<close>, which keeps no reservations,
  interprets it in its own theory.
\<close>

section \<open>Data\<close>

datatype 'a try_send_error = SendFull 'a | SendClosed 'a

datatype reservation_error = ReserveFull | ReserveClosed | ReserveUnsupported

type_synonym 'a send_result = "'a try_send_error + unit"

text \<open>\<open>DefaultMailbox<T>\<close>: the shared cells of the \<open>Rc\<close> fields are the fields of one record.\<close>

record 'a default_mailbox =
  dm_capacity :: nat
  dm_queue :: "'a list"
  dm_reserved :: nat
  dm_closed :: bool

text \<open>\<open>DefaultThreadedMailboxState<T>\<close> is what the mutex protects.\<close>

record 'a threaded_state =
  ts_queue :: "'a list"
  ts_reserved :: nat
  ts_closed :: bool

record 'a threaded_mailbox =
  tm_capacity :: nat
  tm_state :: "'a threaded_state"

section \<open>The trait\<close>

text \<open>
  \<open>Mailbox<T>\<close> is used behind \<open>Box<dyn Mailbox<T>>\<close>, so the trait is a table of its
  methods over the implementing type. The last three methods have default bodies, for
  mailboxes that keep no reservations.
\<close>

record ('a, 'q) mailbox_methods =
  vt_capacity :: "'q \<Rightarrow> nat"
  vt_try_send :: "'a \<Rightarrow> 'q \<Rightarrow> 'a send_result \<times> 'q"
  vt_recv :: "'q \<Rightarrow> 'a option \<times> 'q"
  vt_is_empty :: "'q \<Rightarrow> bool"
  vt_close :: "'q \<Rightarrow> 'q"
  vt_is_closed :: "'q \<Rightarrow> bool"
  vt_try_reserve :: "'q \<Rightarrow> (reservation_error + unit) \<times> 'q"
  vt_release_reserved :: "'q \<Rightarrow> bool \<times> 'q"
  vt_try_send_reserved :: "'a \<Rightarrow> 'q \<Rightarrow> 'a send_result \<times> 'q"

definition trait_is_closed :: "'q \<Rightarrow> bool" where
  "trait_is_closed q = False"

definition trait_try_reserve :: "'q \<Rightarrow> (reservation_error + unit) \<times> 'q" where
  "trait_try_reserve q = (Inl ReserveUnsupported, q)"

definition trait_release_reserved :: "'q \<Rightarrow> bool \<times> 'q" where
  "trait_release_reserved q = (False, q)"

definition trait_try_send_reserved :: "'a \<Rightarrow> 'q \<Rightarrow> 'a send_result \<times> 'q" where
  "trait_try_send_reserved m q = (Inl (SendFull m), q)"

text \<open>
  A client drives a mailbox through any sequence of the state-changing methods.
  \<open>mailbox_step\<close> returns the messages the call enqueued, the messages it handed out, and the
  new state.
\<close>

datatype 'a mailbox_op =
  OpSend 'a | OpRecv | OpClose | OpReserve | OpRelease | OpSendReserved 'a

fun mailbox_step ::
    "('a, 'q) mailbox_methods \<Rightarrow> 'a mailbox_op \<Rightarrow> 'q \<Rightarrow> 'a list \<times> 'a list \<times> 'q" where
  "mailbox_step V (OpSend m) q =
     (case vt_try_send V m q of (Inl _, q') \<Rightarrow> ([], [], q') | (Inr _, q') \<Rightarrow> ([m], [], q'))"
| "mailbox_step V OpRecv q =
     (case vt_recv V q of (None, q') \<Rightarrow> ([], [], q') | (Some m, q') \<Rightarrow> ([], [m], q'))"
| "mailbox_step V OpClose q = ([], [], vt_close V q)"
| "mailbox_step V OpReserve q = ([], [], snd (vt_try_reserve V q))"
| "mailbox_step V OpRelease q = ([], [], snd (vt_release_reserved V q))"
| "mailbox_step V (OpSendReserved m) q =
     (case vt_try_send_reserved V m q of
        (Inl _, q') \<Rightarrow> ([], [], q') | (Inr _, q') \<Rightarrow> ([m], [], q'))"

fun mailbox_run ::
    "('a, 'q) mailbox_methods \<Rightarrow> 'a mailbox_op list \<Rightarrow> 'q \<Rightarrow> 'a list \<times> 'a list \<times> 'q" where
  "mailbox_run V [] q = ([], [], q)"
| "mailbox_run V (op # ops) q =
     (case mailbox_step V op q of (sent, got, q') \<Rightarrow>
      case mailbox_run V ops q' of (sents, gots, q'') \<Rightarrow> (sent @ sents, got @ gots, q''))"

fun keeps_reservations :: "'a mailbox_op \<Rightarrow> bool" where
  "keeps_reservations OpRelease = False"
| "keeps_reservations (OpSendReserved _) = False"
| "keeps_reservations OpClose = False"
| "keeps_reservations _ = True"

section \<open>\<open>DefaultMailbox\<close>\<close>

definition dm_new :: "nat \<Rightarrow> 'a default_mailbox" where
  "dm_new cap = \<lparr>dm_capacity = cap, dm_queue = [], dm_reserved = 0, dm_closed = False\<rparr>"

definition dm_try_send :: "'a \<Rightarrow> 'a default_mailbox \<Rightarrow> 'a send_result \<times> 'a default_mailbox" where
  "dm_try_send m q =
     (if dm_closed q then (Inl (SendClosed m), q)
      else if sat_add_usize (length (dm_queue q)) (dm_reserved q) \<ge> dm_capacity q
      then (Inl (SendFull m), q)
      else (Inr (), q\<lparr>dm_queue := dm_queue q @ [m]\<rparr>))"

definition dm_recv :: "'a default_mailbox \<Rightarrow> 'a option \<times> 'a default_mailbox" where
  "dm_recv q =
     (case dm_queue q of [] \<Rightarrow> (None, q) | m # ms \<Rightarrow> (Some m, q\<lparr>dm_queue := ms\<rparr>))"

definition dm_is_empty :: "'a default_mailbox \<Rightarrow> bool" where
  "dm_is_empty q \<longleftrightarrow> dm_queue q = []"

definition dm_close :: "'a default_mailbox \<Rightarrow> 'a default_mailbox" where
  "dm_close q = q\<lparr>dm_closed := True\<rparr>"

definition dm_is_closed :: "'a default_mailbox \<Rightarrow> bool" where
  "dm_is_closed q = dm_closed q"

definition dm_try_reserve ::
    "'a default_mailbox \<Rightarrow> (reservation_error + unit) \<times> 'a default_mailbox" where
  "dm_try_reserve q =
     (if dm_closed q then (Inl ReserveClosed, q)
      else if sat_add_usize (length (dm_queue q)) (dm_reserved q) \<ge> dm_capacity q
      then (Inl ReserveFull, q)
      else (Inr (), q\<lparr>dm_reserved := dm_reserved q + 1\<rparr>))"

definition dm_release_reserved :: "'a default_mailbox \<Rightarrow> bool \<times> 'a default_mailbox" where
  "dm_release_reserved q =
     (if dm_reserved q = 0 then (False, q)
      else (True, q\<lparr>dm_reserved := dm_reserved q - 1\<rparr>))"

definition dm_try_send_reserved ::
    "'a \<Rightarrow> 'a default_mailbox \<Rightarrow> 'a send_result \<times> 'a default_mailbox" where
  "dm_try_send_reserved m q =
     (case dm_release_reserved q of
        (False, q') \<Rightarrow> (Inl (SendFull m), q')
      | (True, q') \<Rightarrow>
          if dm_closed q' then (Inl (SendClosed m), q')
          else if length (dm_queue q') \<ge> dm_capacity q' then (Inl (SendFull m), q')
          else (Inr (), q'\<lparr>dm_queue := dm_queue q' @ [m]\<rparr>))"

section \<open>\<open>DefaultThreadedMailbox\<close>\<close>

text \<open>
  Every operation takes the mutex for its whole body, so it is one atomic step on the
  protected state. No body can panic while it holds the lock, so the lock is never poisoned.
\<close>

definition tm_new :: "nat \<Rightarrow> 'a threaded_mailbox" where
  "tm_new cap = \<lparr>tm_capacity = cap,
     tm_state = \<lparr>ts_queue = [], ts_reserved = 0, ts_closed = False\<rparr>\<rparr>"

definition tm_try_send :: "'a \<Rightarrow> 'a threaded_mailbox \<Rightarrow> 'a send_result \<times> 'a threaded_mailbox" where
  "tm_try_send m q =
     (let st = tm_state q in
      if ts_closed st then (Inl (SendClosed m), q)
      else if sat_add_usize (length (ts_queue st)) (ts_reserved st) \<ge> tm_capacity q
      then (Inl (SendFull m), q)
      else (Inr (), q\<lparr>tm_state := st\<lparr>ts_queue := ts_queue st @ [m]\<rparr>\<rparr>))"

definition tm_recv :: "'a threaded_mailbox \<Rightarrow> 'a option \<times> 'a threaded_mailbox" where
  "tm_recv q =
     (let st = tm_state q in
      case ts_queue st of [] \<Rightarrow> (None, q)
      | m # ms \<Rightarrow> (Some m, q\<lparr>tm_state := st\<lparr>ts_queue := ms\<rparr>\<rparr>))"

definition tm_is_empty :: "'a threaded_mailbox \<Rightarrow> bool" where
  "tm_is_empty q \<longleftrightarrow> ts_queue (tm_state q) = []"

definition tm_close :: "'a threaded_mailbox \<Rightarrow> 'a threaded_mailbox" where
  "tm_close q = q\<lparr>tm_state := (tm_state q)\<lparr>ts_closed := True\<rparr>\<rparr>"

definition tm_is_closed :: "'a threaded_mailbox \<Rightarrow> bool" where
  "tm_is_closed q = ts_closed (tm_state q)"

definition tm_try_reserve ::
    "'a threaded_mailbox \<Rightarrow> (reservation_error + unit) \<times> 'a threaded_mailbox" where
  "tm_try_reserve q =
     (let st = tm_state q in
      if ts_closed st then (Inl ReserveClosed, q)
      else if sat_add_usize (length (ts_queue st)) (ts_reserved st) \<ge> tm_capacity q
      then (Inl ReserveFull, q)
      else (Inr (), q\<lparr>tm_state := st\<lparr>ts_reserved := ts_reserved st + 1\<rparr>\<rparr>))"

definition tm_release_reserved :: "'a threaded_mailbox \<Rightarrow> bool \<times> 'a threaded_mailbox" where
  "tm_release_reserved q =
     (let st = tm_state q in
      if ts_reserved st = 0 then (False, q)
      else (True, q\<lparr>tm_state := st\<lparr>ts_reserved := ts_reserved st - 1\<rparr>\<rparr>))"

definition tm_try_send_reserved ::
    "'a \<Rightarrow> 'a threaded_mailbox \<Rightarrow> 'a send_result \<times> 'a threaded_mailbox" where
  "tm_try_send_reserved m q =
     (let st = tm_state q in
      if ts_reserved st = 0 then (Inl (SendFull m), q)
      else
        let st' = st\<lparr>ts_reserved := ts_reserved st - 1\<rparr> in
        if ts_closed st' then (Inl (SendClosed m), q\<lparr>tm_state := st'\<rparr>)
        else if length (ts_queue st') \<ge> tm_capacity q
        then (Inl (SendFull m), q\<lparr>tm_state := st'\<rparr>)
        else (Inr (), q\<lparr>tm_state := st'\<lparr>ts_queue := ts_queue st' @ [m]\<rparr>\<rparr>))"

definition dm_methods :: "('a, 'a default_mailbox) mailbox_methods" where
  "dm_methods = \<lparr>vt_capacity = dm_capacity, vt_try_send = dm_try_send, vt_recv = dm_recv,
     vt_is_empty = dm_is_empty, vt_close = dm_close, vt_is_closed = dm_is_closed,
     vt_try_reserve = dm_try_reserve, vt_release_reserved = dm_release_reserved,
     vt_try_send_reserved = dm_try_send_reserved\<rparr>"

definition tm_methods :: "('a, 'a threaded_mailbox) mailbox_methods" where
  "tm_methods = \<lparr>vt_capacity = tm_capacity, vt_try_send = tm_try_send, vt_recv = tm_recv,
     vt_is_empty = tm_is_empty, vt_close = tm_close, vt_is_closed = tm_is_closed,
     vt_try_reserve = tm_try_reserve, vt_release_reserved = tm_release_reserved,
     vt_try_send_reserved = tm_try_send_reserved\<rparr>"

section \<open>The contract\<close>

text \<open>
  \<open>msgs\<close> are the buffered messages, oldest first; \<open>held\<close> counts the outstanding capacity
  reservations; \<open>shut\<close> tells whether the mailbox has been closed.
\<close>

locale bounded_mailbox =
  fixes V :: "('a, 'q) mailbox_methods"
    and msgs :: "'q \<Rightarrow> 'a list"
    and held :: "'q \<Rightarrow> nat"
    and shut :: "'q \<Rightarrow> bool"
    and invar :: "'q \<Rightarrow> bool"
  assumes bound: "invar q \<Longrightarrow> length (msgs q) + held q \<le> vt_capacity V q"
    and empty_iff: "invar q \<Longrightarrow> vt_is_empty V q \<longleftrightarrow> msgs q = []"
    and send_shut: "invar q \<Longrightarrow> shut q \<Longrightarrow> vt_try_send V m q = (Inl (SendClosed m), q)"
    and send_full: "invar q \<Longrightarrow> \<not> shut q \<Longrightarrow> length (msgs q) + held q = vt_capacity V q
      \<Longrightarrow> vt_try_send V m q = (Inl (SendFull m), q)"
    and send_ok: "invar q \<Longrightarrow> \<not> shut q \<Longrightarrow> length (msgs q) + held q < vt_capacity V q
      \<Longrightarrow> \<exists>q'. vt_try_send V m q = (Inr (), q') \<and> invar q' \<and> msgs q' = msgs q @ [m]
            \<and> held q' = held q \<and> shut q' = shut q \<and> vt_capacity V q' = vt_capacity V q"
    and recv_nil: "invar q \<Longrightarrow> msgs q = [] \<Longrightarrow> vt_recv V q = (None, q)"
    and recv_cons: "invar q \<Longrightarrow> msgs q = m # ms
      \<Longrightarrow> \<exists>q'. vt_recv V q = (Some m, q') \<and> invar q' \<and> msgs q' = ms
            \<and> held q' = held q \<and> shut q' = shut q \<and> vt_capacity V q' = vt_capacity V q"
    and close: "invar q \<Longrightarrow> invar (vt_close V q) \<and> msgs (vt_close V q) = msgs q
      \<and> held (vt_close V q) = held q \<and> shut (vt_close V q)
      \<and> vt_capacity V (vt_close V q) = vt_capacity V q"
    and reserve: "invar q \<Longrightarrow> vt_try_reserve V q = (r, q') \<Longrightarrow>
      invar q' \<and> msgs q' = msgs q \<and> shut q' = shut q \<and> vt_capacity V q' = vt_capacity V q
      \<and> (case r of Inl _ \<Rightarrow> q' = q | Inr _ \<Rightarrow> \<not> shut q \<and> held q' = held q + 1)"
    and release: "invar q \<Longrightarrow> vt_release_reserved V q = (b, q') \<Longrightarrow>
      invar q' \<and> msgs q' = msgs q \<and> shut q' = shut q \<and> vt_capacity V q' = vt_capacity V q
      \<and> b = (0 < held q) \<and> held q' = held q - 1"
    and send_unreserved: "invar q \<Longrightarrow> held q = 0
      \<Longrightarrow> vt_try_send_reserved V m q = (Inl (SendFull m), q)"
    and send_reserved_shut: "invar q \<Longrightarrow> 0 < held q \<Longrightarrow> shut q
      \<Longrightarrow> \<exists>q'. vt_try_send_reserved V m q = (Inl (SendClosed m), q') \<and> invar q'
            \<and> msgs q' = msgs q \<and> held q' = held q - 1 \<and> shut q'
            \<and> vt_capacity V q' = vt_capacity V q"
    and send_reserved_ok: "invar q \<Longrightarrow> 0 < held q \<Longrightarrow> \<not> shut q
      \<Longrightarrow> \<exists>q'. vt_try_send_reserved V m q = (Inr (), q') \<and> invar q'
            \<and> msgs q' = msgs q @ [m] \<and> held q' = held q - 1 \<and> \<not> shut q'
            \<and> vt_capacity V q' = vt_capacity V q"
begin

text \<open>One call keeps the invariant and the capacity, and moves messages in FIFO order.\<close>

lemma send_cases:
  assumes "invar q"
  obtains (Closed) "shut q" "vt_try_send V m q = (Inl (SendClosed m), q)"
  | (Full) "\<not> shut q" "vt_try_send V m q = (Inl (SendFull m), q)"
  | (Ok) q' where "\<not> shut q" "vt_try_send V m q = (Inr (), q')" "invar q'"
      "msgs q' = msgs q @ [m]" "held q' = held q" "\<not> shut q'"
      "vt_capacity V q' = vt_capacity V q"
  using bound [OF assms] send_shut [OF assms] send_full [OF assms] send_ok [OF assms]
  by (metis le_neq_implies_less)

lemma step_spec:
  assumes "invar q" and "mailbox_step V op q = (sent, got, q')"
  shows "invar q' \<and> vt_capacity V q' = vt_capacity V q \<and> got @ msgs q' = msgs q @ sent
    \<and> (shut q \<longrightarrow> shut q' \<and> sent = [])"
proof (cases op)
  case (OpSend m)
  from assms(1) show ?thesis
    by (rule send_cases [where m = m]) (use OpSend assms in auto)
next
  case OpRecv
  show ?thesis
  proof (cases "msgs q")
    case Nil
    with OpRecv assms show ?thesis by (simp add: recv_nil)
  next
    case (Cons m ms)
    with recv_cons [OF assms(1) Cons] OpRecv assms show ?thesis by auto
  qed
next
  case OpClose
  with assms close show ?thesis by auto
next
  case OpReserve
  obtain r q1 where r: "vt_try_reserve V q = (r, q1)" by fastforce
  with reserve [OF assms(1) r] OpReserve assms show ?thesis by auto
next
  case OpRelease
  obtain b q1 where b: "vt_release_reserved V q = (b, q1)" by fastforce
  with release [OF assms(1) b] OpRelease assms show ?thesis by auto
next
  case (OpSendReserved m)
  consider "held q = 0" | "0 < held q" "shut q" | "0 < held q" "\<not> shut q" by auto
  then show ?thesis
  proof cases
    case 1
    with OpSendReserved assms show ?thesis by (simp add: send_unreserved)
  next
    case 2
    with send_reserved_shut [OF assms(1), of m] OpSendReserved assms show ?thesis by auto
  next
    case 3
    with send_reserved_ok [OF assms(1), of m] OpSendReserved assms show ?thesis by auto
  qed
qed

lemma run_spec:
  assumes "invar q" and "mailbox_run V ops q = (sent, got, q')"
  shows "invar q' \<and> vt_capacity V q' = vt_capacity V q \<and> got @ msgs q' = msgs q @ sent
    \<and> (shut q \<longrightarrow> shut q' \<and> sent = [])"
  using assms
proof (induction ops arbitrary: q sent got)
  case Nil
  then show ?case by simp
next
  case (Cons op ops)
  obtain s1 g1 q1 where step: "mailbox_step V op q = (s1, g1, q1)"
    by (cases "mailbox_step V op q") auto
  obtain s2 g2 where rest: "mailbox_run V ops q1 = (s2, g2, q')"
    and eqs: "sent = s1 @ s2" "got = g1 @ g2"
    using Cons.prems step by (auto split: prod.splits)
  have one: "invar q1 \<and> vt_capacity V q1 = vt_capacity V q \<and> g1 @ msgs q1 = msgs q @ s1
    \<and> (shut q \<longrightarrow> shut q1 \<and> s1 = [])"
    using Cons.prems(1) step by (rule step_spec)
  then have two: "invar q' \<and> vt_capacity V q' = vt_capacity V q1 \<and> g2 @ msgs q' = msgs q1 @ s2
    \<and> (shut q1 \<longrightarrow> shut q' \<and> s2 = [])"
    using Cons.IH rest by blast
  have "got @ msgs q' = (g1 @ msgs q1) @ s2" using two eqs by simp
  with one two eqs show ?case by auto
qed

text \<open>FIFO: what was buffered, then what was accepted, comes out in that order.\<close>

lemma run_fifo: "invar q \<Longrightarrow> mailbox_run V ops q = (sent, got, q') \<Longrightarrow> got @ msgs q' = msgs q @ sent"
  using run_spec by blast

text \<open>Bounded: buffered messages and reservations together never pass the capacity.\<close>

lemma run_bounded:
  "invar q \<Longrightarrow> mailbox_run V ops q = (sent, got, q')
   \<Longrightarrow> length (msgs q') + held q' \<le> vt_capacity V q"
  using run_spec bound by metis

lemma run_shut: "invar q \<Longrightarrow> shut q \<Longrightarrow> mailbox_run V ops q = (sent, got, q') \<Longrightarrow> sent = []"
  using run_spec by blast

text \<open>A reservation survives every call that does not give it up.\<close>

lemma step_keeps_reservation:
  assumes "invar q" and "keeps_reservations op" and "\<not> shut q"
    and "mailbox_step V op q = (sent, got, q')"
  shows "held q \<le> held q' \<and> \<not> shut q'"
proof (cases op)
  case (OpSend m)
  from assms(1) show ?thesis
    by (rule send_cases [where m = m]) (use OpSend assms in auto)
next
  case OpRecv
  show ?thesis
  proof (cases "msgs q")
    case Nil
    with OpRecv assms show ?thesis by (simp add: recv_nil)
  next
    case (Cons m ms)
    with recv_cons [OF assms(1) Cons] OpRecv assms show ?thesis by auto
  qed
next
  case OpReserve
  obtain r q1 where r: "vt_try_reserve V q = (r, q1)" by fastforce
  with reserve [OF assms(1) r] OpReserve assms show ?thesis by (auto split: sum.splits)
qed (use assms in auto)

lemma run_keeps_reservation:
  assumes "invar q" and "list_all keeps_reservations ops" and "\<not> shut q"
    and "mailbox_run V ops q = (sent, got, q')"
  shows "held q \<le> held q' \<and> \<not> shut q' \<and> invar q'"
  using assms
proof (induction ops arbitrary: q sent got)
  case Nil
  then show ?case by simp
next
  case (Cons op ops)
  obtain s1 g1 q1 where step: "mailbox_step V op q = (s1, g1, q1)"
    by (cases "mailbox_step V op q") auto
  obtain s2 g2 where rest: "mailbox_run V ops q1 = (s2, g2, q')"
    using Cons.prems step by (auto split: prod.splits)
  have "held q \<le> held q1 \<and> \<not> shut q1"
    by (rule step_keeps_reservation [OF Cons.prems(1) _ Cons.prems(3) step])
      (use Cons.prems in simp)
  moreover have "invar q1" using Cons.prems(1) step step_spec by blast
  ultimately show ?case using Cons.IH [of q1] Cons.prems rest by force
qed

text \<open>
  The point of a reservation: once granted, a later reserved send cannot be refused, whatever
  other sends and receives happened in between, unless the mailbox was closed.
\<close>

lemma reserved_send_succeeds:
  assumes "invar q" and "vt_try_reserve V q = (Inr (), q1)"
    and "list_all keeps_reservations ops" and "mailbox_run V ops q1 = (sent, got, q2)"
  shows "\<exists>q3. vt_try_send_reserved V m q2 = (Inr (), q3) \<and> msgs q3 = msgs q2 @ [m]"
proof -
  have r: "invar q1 \<and> 0 < held q1 \<and> \<not> shut q1"
    using reserve [OF assms(1,2)] by auto
  then have "held q1 \<le> held q2 \<and> \<not> shut q2 \<and> invar q2"
    using run_keeps_reservation assms(3,4) by blast
  with r show ?thesis using send_reserved_ok [of q2 m] by auto
qed

end

section \<open>The default mailboxes keep the contract\<close>

definition dm_invar :: "'a default_mailbox \<Rightarrow> bool" where
  "dm_invar q \<longleftrightarrow> dm_capacity q \<le> usize_max
     \<and> length (dm_queue q) + dm_reserved q \<le> dm_capacity q"

definition tm_invar :: "'a threaded_mailbox \<Rightarrow> bool" where
  "tm_invar q \<longleftrightarrow> tm_capacity q \<le> usize_max
     \<and> length (ts_queue (tm_state q)) + ts_reserved (tm_state q) \<le> tm_capacity q"

lemmas dm_defs = dm_methods_def dm_invar_def dm_try_send_def dm_recv_def dm_is_empty_def
  dm_close_def dm_is_closed_def dm_try_reserve_def dm_release_reserved_def
  dm_try_send_reserved_def

lemmas tm_defs = tm_methods_def tm_invar_def tm_try_send_def tm_recv_def tm_is_empty_def
  tm_close_def tm_is_closed_def tm_try_reserve_def tm_release_reserved_def
  tm_try_send_reserved_def Let_def

lemma dm_invar_new: "cap \<le> usize_max \<Longrightarrow> dm_invar (dm_new cap)"
  by (simp add: dm_invar_def dm_new_def)

lemma tm_invar_new: "cap \<le> usize_max \<Longrightarrow> tm_invar (tm_new cap)"
  by (simp add: tm_invar_def tm_new_def)

interpretation dm: bounded_mailbox dm_methods dm_queue dm_reserved dm_closed dm_invar
  by unfold_locales (auto simp: dm_defs sat_simps split: if_splits sum.splits)

interpretation tm: bounded_mailbox tm_methods "\<lambda>q. ts_queue (tm_state q)"
    "\<lambda>q. ts_reserved (tm_state q)" "\<lambda>q. ts_closed (tm_state q)" tm_invar
  by unfold_locales (auto simp: tm_defs sat_simps split: if_splits sum.splits)

section \<open>Properties\<close>

text \<open>
  (C6) A default mailbox is a bounded FIFO queue. Over any sequence of sends, receives, closes
  and reservation calls on a fresh mailbox, the messages handed out followed by those still
  queued are exactly the accepted ones in acceptance order, and queued messages and
  outstanding reservations together never exceed the capacity.
\<close>

theorem dm_fifo_bounded:
  assumes "cap \<le> usize_max" and "mailbox_run dm_methods ops (dm_new cap) = (sent, got, q)"
  shows "got @ dm_queue q = sent \<and> length (dm_queue q) + dm_reserved q \<le> cap"
  using dm.run_fifo [OF dm_invar_new assms(2)] dm.run_bounded [OF dm_invar_new assms(2)] assms(1)
  by (simp add: dm_new_def dm_methods_def)

theorem dm_fifo_bounded_witness:
  "\<exists>q. mailbox_run dm_methods
      [OpSend 1, OpReserve, OpSend 2, OpRecv, OpSend 3, OpSendReserved 4] (dm_new 2) = ([1, 3, 4], [1], q)
    \<and> [1] @ dm_queue q = [1, 3, 4::nat] \<and> length (dm_queue q) + dm_reserved q \<le> 2"
proof -
  obtain q where run: "mailbox_run dm_methods
      [OpSend 1, OpReserve, OpSend 2, OpRecv, OpSend 3, OpSendReserved 4] (dm_new 2) = ([1, 3, 4], [1::nat], q)"
    by (simp add: dm_defs dm_new_def sat_add_usize_def usize_max_def)
  have "[1] @ dm_queue q = [1, 3, 4] \<and> length (dm_queue q) + dm_reserved q \<le> 2"
    by (rule dm_fifo_bounded [OF _ run]) (simp add: usize_max_def)
  with run show ?thesis by blast
qed

text \<open>
  (C7) The threaded mailbox, whose operations are atomic under its mutex, is a bounded FIFO
  queue in the same sense.
\<close>

theorem tm_fifo_bounded:
  assumes "cap \<le> usize_max" and "mailbox_run tm_methods ops (tm_new cap) = (sent, got, q)"
  shows "got @ ts_queue (tm_state q) = sent
    \<and> length (ts_queue (tm_state q)) + ts_reserved (tm_state q) \<le> cap"
  using tm.run_fifo [OF tm_invar_new assms(2)] tm.run_bounded [OF tm_invar_new assms(2)] assms(1)
  by (simp add: tm_new_def tm_methods_def)

theorem tm_fifo_bounded_witness:
  "\<exists>q. mailbox_run tm_methods [OpSend 1, OpSend 2, OpRecv, OpClose, OpSend 3] (tm_new 1) = ([1], [1], q)
    \<and> [1] @ ts_queue (tm_state q) = [1::nat]"
proof -
  obtain q where run:
    "mailbox_run tm_methods [OpSend 1, OpSend 2, OpRecv, OpClose, OpSend 3] (tm_new 1) = ([1], [1::nat], q)"
    by (simp add: tm_defs tm_new_def sat_add_usize_def usize_max_def)
  have "[1] @ ts_queue (tm_state q) = [1]"
    using tm_fifo_bounded [OF _ run] by (simp add: usize_max_def)
  with run show ?thesis by blast
qed

text \<open>
  (C8) A capacity reservation is a promise. After \<open>try_reserve\<close> succeeds, whatever sends, receives
  and further reservations follow, \<open>try_send_reserved\<close> accepts its message; it can only be
  refused if the mailbox is closed or the reservation was used up in between.
\<close>

theorem dm_reserved_send_succeeds:
  assumes "cap \<le> usize_max" and "mailbox_run dm_methods ops (dm_new cap) = (s, g, q)"
    and "dm_try_reserve q = (Inr (), q1)" and "list_all keeps_reservations ops'"
    and "mailbox_run dm_methods ops' q1 = (s', g', q2)"
  shows "\<exists>q3. dm_try_send_reserved m q2 = (Inr (), q3) \<and> dm_queue q3 = dm_queue q2 @ [m]"
proof -
  have "dm_invar q" using dm.run_spec [OF dm_invar_new assms(2)] assms(1) by blast
  moreover have "vt_try_reserve dm_methods q = (Inr (), q1)" using assms(3) by (simp add: dm_methods_def)
  ultimately show ?thesis
    using dm.reserved_send_succeeds [of q q1 ops' s' g' q2 m] assms(4,5) by (simp add: dm_methods_def)
qed

theorem dm_reserved_send_succeeds_witness:
  "\<exists>q1 q2 q3. dm_try_reserve (dm_new 1) = (Inr (), q1)
    \<and> mailbox_run dm_methods [OpSend 5, OpRecv] q1 = ([], [], q2)
    \<and> dm_try_send_reserved (6::nat) q2 = (Inr (), q3) \<and> dm_queue q3 = dm_queue q2 @ [6]"
proof -
  obtain q1 :: "nat default_mailbox" where q1: "dm_try_reserve (dm_new 1) = (Inr (), q1)"
    by (simp add: dm_defs dm_new_def sat_add_usize_def usize_max_def)
  then obtain q2 where q2: "mailbox_run dm_methods [OpSend 5, OpRecv] q1 = ([], [], q2)"
    by (auto simp: dm_defs dm_new_def sat_add_usize_def usize_max_def split: if_splits)
  have "\<exists>q3. dm_try_send_reserved 6 q2 = (Inr (), q3) \<and> dm_queue q3 = dm_queue q2 @ [6]"
    by (rule dm_reserved_send_succeeds [OF _ _ q1 _ q2, where ops = "[]"]) (simp_all add: usize_max_def)
  with q1 q2 show ?thesis by blast
qed

end
