(* ===== verification/Spsc_Ring.thy ===== *)
theory Spsc_Ring
  imports Mailbox
begin

unbundle bit_operations_syntax

text \<open>
  The bounded single-producer/single-consumer mailbox of \<open>tina-mailbox-spsc/src/lib.rs\<close>: a
  ring of slots indexed by two wrapping cursors. This theory models each method run to its
  end with nothing else in between and shows that the ring refines the list of the mailbox
  contract, with the cursors at their machine width. The interleavings of concurrent
  callers are the subject of \<open>Spsc_Steps\<close>.

  A slot is \<open>None\<close> while it is uninitialised memory, so reading an uninitialised slot is a
  visible fault of the model.
\<close>

section \<open>Data\<close>

record 'a spsc =
  sp_capacity :: u64
  sp_slot_mask :: u64
  sp_slots :: "'a option list"
  sp_head :: u64
  sp_tail :: u64
  sp_state :: u64
  sp_consumer_active :: bool

definition STATE_CLOSED :: u64 where
  "STATE_CLOSED = 1"

definition STATE_PRODUCER_HELD :: u64 where
  "STATE_PRODUCER_HELD = 2"

datatype producer_claim = ClaimClosed | ClaimPanic | Claimed u64

section \<open>Operations\<close>

definition is_power_of_two :: "u64 \<Rightarrow> bool" where
  "is_power_of_two c \<longleftrightarrow> c \<in> set (map (\<lambda>n. 2 ^ n) [0..<64])"

text \<open>\<open>new\<close> panics, here \<open>None\<close>, on a capacity that is zero or not a power of two.\<close>

definition spsc_new :: "u64 \<Rightarrow> 'a spsc option" where
  "spsc_new cap =
     (if cap = 0 \<or> \<not> is_power_of_two cap then None
      else Some \<lparr>sp_capacity = cap, sp_slot_mask = cap - 1,
             sp_slots = replicate (unat cap) None,
             sp_head = 0, sp_tail = 0, sp_state = 0, sp_consumer_active = False\<rparr>)"

definition slot_index :: "u64 \<Rightarrow> u64 \<Rightarrow> nat" where
  "slot_index msk cursor = unat (cursor AND msk)"

text \<open>One pass of the \<open>claim_producer\<close> loop whose compare-exchange succeeds.\<close>

definition claim_producer :: "u64 \<Rightarrow> producer_claim" where
  "claim_producer st =
     (if st AND STATE_CLOSED \<noteq> 0 then ClaimClosed
      else if st AND STATE_PRODUCER_HELD \<noteq> 0 then ClaimPanic
      else Claimed (st OR STATE_PRODUCER_HELD))"

text \<open>Dropping a \<open>ProducerGuard\<close>.\<close>

definition release_producer :: "u64 \<Rightarrow> u64" where
  "release_producer st = st AND NOT STATE_PRODUCER_HELD"

text \<open>The result \<open>None\<close> is the panic on a second concurrent producer.\<close>

definition spsc_try_send :: "'a \<Rightarrow> 'a spsc \<Rightarrow> 'a send_result option \<times> 'a spsc" where
  "spsc_try_send m q =
     (case claim_producer (sp_state q) of
        ClaimClosed \<Rightarrow> (Some (Inl (SendClosed m)), q)
      | ClaimPanic \<Rightarrow> (None, q)
      | Claimed st \<Rightarrow>
          let tail = sp_tail q; head = sp_head q in
          if tail - head \<ge> sp_capacity q
          then (Some (Inl (SendFull m)), q\<lparr>sp_state := release_producer st\<rparr>)
          else (Some (Inr ()),
                q\<lparr>sp_slots := (sp_slots q)[slot_index (sp_slot_mask q) tail := Some m],
                  sp_tail := tail + 1, sp_state := release_producer st\<rparr>))"

definition spsc_is_empty :: "'a spsc \<Rightarrow> bool" where
  "spsc_is_empty q \<longleftrightarrow> sp_head q = sp_tail q"

text \<open>The result \<open>None\<close> is the panic on a second concurrent consumer.\<close>

definition spsc_recv :: "'a spsc \<Rightarrow> 'a option option \<times> 'a spsc" where
  "spsc_recv q =
     (if sp_consumer_active q then (None, q)
      else
        let head = sp_head q; tail = sp_tail q in
        if head = tail then (Some None, q)
        else let i = slot_index (sp_slot_mask q) head in
             (Some (sp_slots q ! i),
              q\<lparr>sp_slots := (sp_slots q)[i := None], sp_head := head + 1\<rparr>))"

text \<open>The result \<open>None\<close> is the spin that a held producer gate causes.\<close>

definition spsc_close :: "'a spsc \<Rightarrow> 'a spsc option" where
  "spsc_close q =
     (let st = sp_state q in
      if st AND STATE_CLOSED \<noteq> 0 \<and> st AND STATE_PRODUCER_HELD = 0 then Some q
      else if st AND STATE_PRODUCER_HELD \<noteq> 0 then None
      else Some (q\<lparr>sp_state := release_producer (st OR STATE_CLOSED OR STATE_PRODUCER_HELD)\<rparr>))"

definition spsc_is_closed :: "'a spsc \<Rightarrow> bool" where
  "spsc_is_closed q \<longleftrightarrow> sp_state q AND STATE_CLOSED \<noteq> 0"

text \<open>\<open>Drop\<close>: the values dropped in place, in order, and the slots left behind.\<close>

function spsc_drop :: "u64 \<Rightarrow> u64 \<Rightarrow> u64 \<Rightarrow> 'a option list \<Rightarrow> 'a option list \<times> 'a option list" where
  "spsc_drop msk cursor tail slots =
     (if cursor \<noteq> tail
      then let i = slot_index msk cursor;
               (dropped, rest) = spsc_drop msk (cursor + 1) tail (slots[i := None])
           in (slots ! i # dropped, rest)
      else ([], slots))"
  by pat_completeness auto
termination
proof (relation "measure (\<lambda>(msk, cursor, tail, slots). unat (tail - cursor))")
  fix msk cursor tail :: u64 and slots :: "'a option list" and x :: nat
  assume "cursor \<noteq> tail"
  then have "0 < unat (tail - cursor)"
    by (simp add: unat_gt_0)
  moreover have "tail - (cursor + 1) = (tail - cursor) - 1"
    by (simp add: algebra_simps)
  ultimately have "unat (tail - (cursor + 1)) < unat (tail - cursor)"
    using unat_minus_one [of "tail - cursor"] by (metis diff_less unat_0 less_one neq0_conv)
  then show "((msk, cursor + 1, tail, slots[x := None]), (msk, cursor, tail, slots))
      \<in> measure (\<lambda>(msk, cursor, tail, slots). unat (tail - cursor))"
    by simp
qed simp

declare spsc_drop.simps [simp del]

section \<open>Ring arithmetic\<close>

text \<open>
  Masking a 64-bit cursor with \<open>capacity - 1\<close> is reduction modulo the capacity, and because a
  power of two divides \<open>2 ^ 64\<close> it stays so when the cursor wraps.
\<close>

lemma power_of_two_cases:
  assumes "is_power_of_two cap"
  obtains n where "n < 64" "cap = 2 ^ n" "unat cap = 2 ^ n"
proof -
  from assms obtain n where n: "n < 64" "cap = 2 ^ n"
    by (auto simp: is_power_of_two_def)
  have "unat cap = unat (of_nat (2 ^ n) :: u64)"
    by (simp add: n(2))
  also have "\<dots> = 2 ^ n"
    using n(1) power_strict_increasing [of n 64 "2::nat"] by (simp only: unat_of_nat) simp
  finally have "unat cap = 2 ^ n" .
  with n that show ?thesis by blast
qed

lemma power_of_two_pos: "is_power_of_two cap \<Longrightarrow> 0 < unat cap"
  by (erule power_of_two_cases) simp

lemma slot_index_mod:
  assumes "is_power_of_two cap"
  shows "slot_index (cap - 1) w = unat w mod unat cap"
proof -
  obtain n where n: "n < 64" "cap = 2 ^ n" "unat cap = 2 ^ n"
    using assms by (rule power_of_two_cases)
  have "w AND (cap - 1) = take_bit n w"
    by (simp add: n(2) take_bit_eq_mask mask_eq_exp_minus_1)
  then have "slot_index (cap - 1) w = unat (take_bit n w)"
    by (simp only: slot_index_def)
  also have "\<dots> = take_bit n (unat w)"
    by (rule unsigned_take_bit_eq)
  finally show ?thesis
    by (simp only: n(3) take_bit_eq_mod)
qed

lemma slot_index_add:
  assumes "is_power_of_two cap"
  shows "slot_index (cap - 1) (h + of_nat i) = (unat h + i) mod unat cap"
proof -
  obtain n where n: "n < 64" "cap = 2 ^ n" "unat cap = 2 ^ n"
    using assms by (rule power_of_two_cases)
  have dvd: "(2::nat) ^ n dvd 2 ^ 64"
    using n(1) by (intro le_imp_power_dvd) simp
  have "unat (h + of_nat i) = (unat h + i) mod 2 ^ 64"
    by (simp add: unat_word_ariths unat_of_nat mod_simps)
  then show ?thesis
    using dvd by (simp add: slot_index_mod [OF assms] n(3) mod_mod_cancel)
qed

lemma slot_index_less: "is_power_of_two cap \<Longrightarrow> slot_index (cap - 1) w < unat cap"
  by (simp add: slot_index_mod power_of_two_pos)

lemma mod_add_inj:
  assumes "(a + i) mod c = (a + j) mod c" and "i < c" and "j < (c::nat)"
  shows "i = j"
proof (rule linorder_cases [of i j])
  assume "i < j"
  then have "c dvd (a + j) - (a + i)"
    using assms(1) by (metis mod_eq_dvd_iff_nat add_le_mono1 less_imp_le nat_add_left_cancel_le)
  with \<open>i < j\<close> assms(3) show ?thesis
    by (metis add_diff_cancel_left dvd_imp_le leD less_imp_diff_less zero_less_diff)
next
  assume "j < i"
  then have "c dvd (a + i) - (a + j)"
    using assms(1) by (metis mod_eq_dvd_iff_nat less_imp_le nat_add_left_cancel_le)
  with \<open>j < i\<close> assms(2) show ?thesis
    by (metis add_diff_cancel_left dvd_imp_le leD less_imp_diff_less zero_less_diff)
qed

lemma slot_index_inj:
  assumes "is_power_of_two cap" and "i < unat cap" and "j < unat cap"
  shows "slot_index (cap - 1) (h + of_nat i) = slot_index (cap - 1) (h + of_nat j) \<longleftrightarrow> i = j"
  using assms by (auto simp: slot_index_add dest: mod_add_inj)

section \<open>The ring refines the mailbox contract\<close>

definition spsc_len :: "'a spsc \<Rightarrow> nat" where
  "spsc_len q = unat (sp_tail q - sp_head q)"

definition ring_slot :: "'a spsc \<Rightarrow> nat \<Rightarrow> nat" where
  "ring_slot q i = slot_index (sp_slot_mask q) (sp_head q + of_nat i)"

definition spsc_contents :: "'a spsc \<Rightarrow> 'a list" where
  "spsc_contents q = map (\<lambda>i. the (sp_slots q ! ring_slot q i)) [0..<spsc_len q]"

text \<open>
  The implementation invariants the source lists: a power-of-two capacity, at most
  \<open>capacity\<close> published messages, and exactly the slots of \<open>[head, tail)\<close> initialised.
  Between calls the producer gate and the consumer flag are free.
\<close>

definition spsc_inv :: "'a spsc \<Rightarrow> bool" where
  "spsc_inv q \<longleftrightarrow> is_power_of_two (sp_capacity q) \<and> sp_slot_mask q = sp_capacity q - 1
     \<and> length (sp_slots q) = unat (sp_capacity q)
     \<and> spsc_len q \<le> unat (sp_capacity q)
     \<and> (\<forall>i < unat (sp_capacity q). sp_slots q ! ring_slot q i \<noteq> None \<longleftrightarrow> i < spsc_len q)
     \<and> sp_state q \<in> {0, STATE_CLOSED} \<and> \<not> sp_consumer_active q"

lemma ring_slot_less: "spsc_inv q \<Longrightarrow> ring_slot q i < unat (sp_capacity q)"
  by (simp add: ring_slot_def spsc_inv_def slot_index_less)

lemma ring_slot_mod:
  "spsc_inv q \<Longrightarrow> ring_slot q i = (unat (sp_head q) + i) mod unat (sp_capacity q)"
  by (simp add: ring_slot_def spsc_inv_def slot_index_add)

lemma ring_slot_inj:
  "spsc_inv q \<Longrightarrow> i < unat (sp_capacity q) \<Longrightarrow> j < unat (sp_capacity q)
   \<Longrightarrow> ring_slot q i = ring_slot q j \<longleftrightarrow> i = j"
  by (simp add: ring_slot_def spsc_inv_def slot_index_inj)

lemma spsc_first_slot: "spsc_inv q \<Longrightarrow> 0 < spsc_len q \<Longrightarrow> \<exists>v. sp_slots q ! ring_slot q 0 = Some v"
  unfolding spsc_inv_def by (metis less_le_trans not_None_eq)

lemma tail_eq: "sp_tail q = sp_head q + of_nat (spsc_len q)"
  by (simp add: spsc_len_def)

lemma spsc_len_lt: "spsc_inv q \<Longrightarrow> spsc_len q < 2 ^ 64 - 1"
proof -
  assume "spsc_inv q"
  then have le: "spsc_len q \<le> unat (sp_capacity q)" and p: "is_power_of_two (sp_capacity q)"
    by (auto simp: spsc_inv_def)
  from p obtain n where n: "n < 64" "unat (sp_capacity q) = 2 ^ n"
    by (rule power_of_two_cases)
  have "(2::nat) ^ n \<le> 2 ^ 63"
    using n(1) by (intro power_increasing) auto
  with le n(2) show ?thesis by simp
qed

lemma length_spsc_contents [simp]: "length (spsc_contents q) = spsc_len q"
  by (simp add: spsc_contents_def)

lemmas state_bits = STATE_CLOSED_def STATE_PRODUCER_HELD_def claim_producer_def release_producer_def

text \<open>Publishing one more message.\<close>

lemma spsc_push:
  fixes m :: 'a
  assumes inv: "spsc_inv q" and room: "spsc_len q < unat (sp_capacity q)"
  defines "q' \<equiv> q\<lparr>sp_slots := (sp_slots q)[slot_index (sp_slot_mask q) (sp_tail q) := Some m],
                   sp_tail := sp_tail q + 1\<rparr>"
  shows "spsc_inv q'" and "spsc_contents q' = spsc_contents q @ [m]"
proof -
  let ?n = "spsc_len q" and ?c = "unat (sp_capacity q)"
  have idx: "slot_index (sp_slot_mask q) (sp_tail q) = ring_slot q ?n"
    by (simp add: ring_slot_def tail_eq [of q])
  have slot: "ring_slot q' i = ring_slot q i" for i
    by (simp add: q'_def ring_slot_def)
  have len: "spsc_len q' = Suc ?n"
  proof -
    have eq: "sp_tail q + 1 - sp_head q = of_nat (Suc ?n)"
      by (simp add: tail_eq [of q])
    have "spsc_len q' = unat (sp_tail q + 1 - sp_head q)"
      by (simp add: q'_def spsc_len_def)
    then have "spsc_len q' = unat (of_nat (Suc ?n) :: u64)"
      by (simp only: eq)
    then show ?thesis
      using spsc_len_lt [OF inv] by (simp only: unat_of_nat) simp
  qed
  have slots: "sp_slots q' = (sp_slots q)[ring_slot q ?n := Some m]"
    by (simp add: q'_def idx)
  have upd: "sp_slots q' ! ring_slot q i = (if i = ?n then Some m else sp_slots q ! ring_slot q i)"
    if "i < ?c" for i
    using inv ring_slot_less [OF inv, of ?n] ring_slot_inj [OF inv that room]
    by (auto simp: slots nth_list_update spsc_inv_def)
  show "spsc_inv q'"
    using inv room upd len slot by (auto simp: spsc_inv_def q'_def less_Suc_eq)
  have "the (sp_slots q' ! ring_slot q i) = the (sp_slots q ! ring_slot q i)" if "i < ?n" for i
    using that room upd [of i] by simp
  then show "spsc_contents q' = spsc_contents q @ [m]"
    using upd [OF room] by (simp add: spsc_contents_def len slot)
qed

text \<open>Taking the oldest message.\<close>

lemma spsc_pop:
  assumes inv: "spsc_inv q" and some: "0 < spsc_len q"
  defines "q' \<equiv> q\<lparr>sp_slots := (sp_slots q)[slot_index (sp_slot_mask q) (sp_head q) := None],
                   sp_head := sp_head q + 1\<rparr>"
  shows "spsc_inv q'" and "spsc_contents q = the (sp_slots q ! ring_slot q 0) # spsc_contents q'"
proof -
  let ?n = "spsc_len q" and ?c = "unat (sp_capacity q)"
  have cap: "?n \<le> ?c" "0 < ?c"
    using inv some by (auto simp: spsc_inv_def)
  have idx: "slot_index (sp_slot_mask q) (sp_head q) = ring_slot q 0"
    by (simp add: ring_slot_def)
  have slot: "ring_slot q' i = ring_slot q (Suc i)" for i
    by (simp add: q'_def ring_slot_def algebra_simps)
  have len: "spsc_len q' = ?n - 1"
  proof -
    have nz: "sp_tail q - sp_head q \<noteq> 0" using some by (simp add: spsc_len_def unat_gt_0)
    have eq: "sp_tail q - (sp_head q + 1) = (sp_tail q - sp_head q) - 1"
      by (simp add: algebra_simps)
    have "spsc_len q' = unat (sp_tail q - (sp_head q + 1))"
      by (simp add: q'_def spsc_len_def)
    then show ?thesis
      by (simp only: eq unat_minus_one [OF nz] spsc_len_def)
  qed
  have slots: "sp_slots q' = (sp_slots q)[ring_slot q 0 := None]"
    by (simp add: q'_def idx)
  have upd: "sp_slots q' ! ring_slot q i = (if i = 0 then None else sp_slots q ! ring_slot q i)"
    if "i < ?c" for i
    using inv ring_slot_less [OF inv, of 0] ring_slot_inj [OF inv that cap(2)]
    by (auto simp: slots nth_list_update spsc_inv_def)
  have wrap: "ring_slot q ?c = ring_slot q 0"
    by (simp add: ring_slot_mod [OF inv])
  have bnd: "?n - 1 \<le> ?c" using cap by simp
  have "sp_slots q' ! ring_slot q' i \<noteq> None \<longleftrightarrow> i < spsc_len q'" if "i < ?c" for i
  proof (cases "Suc i < ?c")
    case True
    then show ?thesis
      using upd [OF True] inv by (auto simp: slot len spsc_inv_def)
  next
    case False
    with that have "Suc i = ?c" by simp
    then show ?thesis
      using upd [OF cap(2)] wrap cap by (simp add: slot len)
  qed
  then show "spsc_inv q'"
    using inv len bnd by (auto simp: spsc_inv_def q'_def)
  have "[0..<?n] = 0 # map Suc [0..<?n - 1]"
    using some by (simp add: upt_conv_Cons map_Suc_upt)
  moreover have "the (sp_slots q' ! ring_slot q (Suc i)) = the (sp_slots q ! ring_slot q (Suc i))"
    if "i < ?n - 1" for i
    using that cap upd [of "Suc i"] by simp
  ultimately show "spsc_contents q = the (sp_slots q ! ring_slot q 0) # spsc_contents q'"
    by (simp add: spsc_contents_def len slot)
qed

text \<open>
  The methods as the contract's table. Between calls the invariant rules out the panics and
  the spin, so their branches here are never taken (\<open>spsc_never_panics\<close>). \<open>SpscMailbox\<close>
  overrides neither \<open>is_closed\<close> nor the reservation methods of the trait.
\<close>

definition spsc_seq_send :: "'a \<Rightarrow> 'a spsc \<Rightarrow> 'a send_result \<times> 'a spsc" where
  "spsc_seq_send m q =
     (case spsc_try_send m q of (Some r, q') \<Rightarrow> (r, q') | (None, q') \<Rightarrow> (Inl (SendFull m), q'))"

definition spsc_seq_recv :: "'a spsc \<Rightarrow> 'a option \<times> 'a spsc" where
  "spsc_seq_recv q =
     (case spsc_recv q of (Some r, q') \<Rightarrow> (r, q') | (None, q') \<Rightarrow> (None, q'))"

definition spsc_seq_close :: "'a spsc \<Rightarrow> 'a spsc" where
  "spsc_seq_close q = (case spsc_close q of Some q' \<Rightarrow> q' | None \<Rightarrow> q)"

definition spsc_methods :: "('a, 'a spsc) mailbox_methods" where
  "spsc_methods = \<lparr>vt_capacity = \<lambda>q. unat (sp_capacity q), vt_try_send = spsc_seq_send,
     vt_recv = spsc_seq_recv, vt_is_empty = spsc_is_empty, vt_close = spsc_seq_close,
     vt_is_closed = trait_is_closed, vt_try_reserve = trait_try_reserve,
     vt_release_reserved = trait_release_reserved,
     vt_try_send_reserved = trait_try_send_reserved\<rparr>"

lemma spsc_state_cases:
  assumes "spsc_inv q"
  obtains (Open) "sp_state q = 0" "\<not> spsc_is_closed q"
  | (Shut) "sp_state q = STATE_CLOSED" "spsc_is_closed q"
  using assms by (auto simp: spsc_inv_def spsc_is_closed_def state_bits)

lemma claim_open [simp]: "claim_producer 0 = Claimed STATE_PRODUCER_HELD"
  by (simp add: state_bits)

lemma claim_shut [simp]: "claim_producer STATE_CLOSED = ClaimClosed"
  by (simp add: state_bits)

lemma release_held [simp]: "release_producer STATE_PRODUCER_HELD = 0"
  by (simp add: state_bits)

lemma spsc_close_open [simp]:
  "sp_state q = 0 \<Longrightarrow> spsc_close q = Some (q\<lparr>sp_state := STATE_CLOSED\<rparr>)"
  by (simp add: spsc_close_def state_bits)

lemma spsc_close_shut [simp]: "sp_state q = STATE_CLOSED \<Longrightarrow> spsc_close q = Some q"
  by (simp add: spsc_close_def state_bits)

lemma spsc_room_iff: "sp_capacity q \<le> sp_tail q - sp_head q \<longleftrightarrow> unat (sp_capacity q) \<le> spsc_len q"
  by (simp add: spsc_len_def word_le_nat_alt)

lemma spsc_empty_iff: "spsc_is_empty q \<longleftrightarrow> spsc_len q = 0"
  by (auto simp: spsc_is_empty_def spsc_len_def unat_eq_0)

lemma spsc_inv_state [simp]:
  "spsc_inv q \<Longrightarrow> st \<in> {0, STATE_CLOSED} \<Longrightarrow> spsc_inv (q\<lparr>sp_state := st\<rparr>)"
  by (auto simp: spsc_inv_def spsc_len_def ring_slot_def)

lemma spsc_contents_state [simp]: "spsc_contents (q\<lparr>sp_state := st\<rparr>) = spsc_contents q"
  by (simp add: spsc_contents_def spsc_len_def ring_slot_def)

lemma spsc_send_ok:
  assumes "spsc_inv q" and "\<not> spsc_is_closed q" and "spsc_len q < unat (sp_capacity q)"
  shows "\<exists>q'. spsc_try_send m q = (Some (Inr ()), q') \<and> spsc_inv q'
    \<and> spsc_contents q' = spsc_contents q @ [m] \<and> \<not> spsc_is_closed q'
    \<and> sp_capacity q' = sp_capacity q"
proof -
  let ?q = "q\<lparr>sp_slots := (sp_slots q)[slot_index (sp_slot_mask q) (sp_tail q) := Some m],
              sp_tail := sp_tail q + 1\<rparr>"
  have st: "sp_state q = 0"
    using assms(1,2) by (cases rule: spsc_state_cases) auto
  then have "?q = ?q\<lparr>sp_state := 0\<rparr>" by simp
  with st assms(3) have "spsc_try_send m q = (Some (Inr ()), ?q)"
    by (simp add: spsc_try_send_def Let_def spsc_room_iff)
  moreover have "\<not> spsc_is_closed ?q" using assms(2) by (simp add: spsc_is_closed_def)
  ultimately show ?thesis
    using spsc_push [OF assms(1,3), of m] by auto
qed

lemma spsc_recv_ok:
  assumes "spsc_inv q" and "spsc_contents q = m # ms"
  shows "\<exists>q'. spsc_recv q = (Some (Some m), q') \<and> spsc_inv q' \<and> spsc_contents q' = ms
    \<and> spsc_is_closed q' = spsc_is_closed q \<and> sp_capacity q' = sp_capacity q"
proof -
  let ?q = "q\<lparr>sp_slots := (sp_slots q)[slot_index (sp_slot_mask q) (sp_head q) := None],
              sp_head := sp_head q + 1\<rparr>"
  have len: "0 < spsc_len q"
    using assms(2) length_spsc_contents [of q] by (cases "spsc_len q") auto
  have slot: "slot_index (sp_slot_mask q) (sp_head q) = ring_slot q 0"
    by (simp add: ring_slot_def)
  obtain v where v: "sp_slots q ! ring_slot q 0 = Some v"
    using spsc_first_slot [OF assms(1) len] by blast
  have "\<not> sp_consumer_active q" using assms(1) by (simp add: spsc_inv_def)
  then have "spsc_recv q = (Some (Some v), ?q)"
    using len v spsc_empty_iff [of q]
    by (simp add: spsc_recv_def Let_def slot spsc_is_empty_def)
  moreover have "m # ms = v # spsc_contents ?q"
    using spsc_pop(2) [OF assms(1) len] v assms(2) by simp
  ultimately show ?thesis
    using spsc_pop(1) [OF assms(1) len] by (auto simp: spsc_is_closed_def)
qed

lemma spsc_never_panics:
  assumes "spsc_inv q"
  shows "fst (spsc_try_send m q) \<noteq> None" and "fst (spsc_recv q) \<noteq> None" and "spsc_close q \<noteq> None"
proof -
  show "fst (spsc_try_send m q) \<noteq> None"
    using assms by (cases rule: spsc_state_cases) (auto simp: spsc_try_send_def Let_def)
  show "fst (spsc_recv q) \<noteq> None"
    using assms by (auto simp: spsc_recv_def Let_def spsc_inv_def)
  show "spsc_close q \<noteq> None"
    using assms by (cases rule: spsc_state_cases) auto
qed

lemma spsc_recv_nil: "spsc_inv q \<Longrightarrow> spsc_contents q = [] \<Longrightarrow> spsc_recv q = (Some None, q)"
  using spsc_empty_iff [of q] length_spsc_contents [of q]
  by (simp add: spsc_recv_def Let_def spsc_is_empty_def spsc_inv_def)

lemma spsc_send_shut:
  "spsc_inv q \<Longrightarrow> spsc_is_closed q \<Longrightarrow> spsc_try_send m q = (Some (Inl (SendClosed m)), q)"
  by (erule spsc_state_cases) (auto simp: spsc_try_send_def)

lemma spsc_send_full:
  assumes "spsc_inv q" and "\<not> spsc_is_closed q" and "spsc_len q = unat (sp_capacity q)"
  shows "spsc_try_send m q = (Some (Inl (SendFull m)), q)"
proof -
  have st: "sp_state q = 0"
    using assms(1,2) by (cases rule: spsc_state_cases) auto
  then have "q = q\<lparr>sp_state := 0\<rparr>" by simp
  with st assms(3) show ?thesis
    by (simp add: spsc_try_send_def Let_def spsc_room_iff)
qed

lemma spsc_closed_after: "spsc_is_closed (q\<lparr>sp_state := STATE_CLOSED\<rparr>)"
  by (simp add: spsc_is_closed_def state_bits)

lemma spsc_close_spec:
  assumes "spsc_inv q"
  shows "\<exists>q'. spsc_close q = Some q' \<and> spsc_inv q' \<and> spsc_contents q' = spsc_contents q
    \<and> spsc_is_closed q' \<and> sp_capacity q' = sp_capacity q"
  using assms
proof (cases rule: spsc_state_cases)
  case Open
  with assms show ?thesis by (auto simp: spsc_closed_after)
next
  case Shut
  with assms show ?thesis by auto
qed

lemmas spsc_method_defs = spsc_methods_def spsc_seq_send_def spsc_seq_recv_def spsc_seq_close_def
  trait_try_reserve_def trait_release_reserved_def trait_try_send_reserved_def

interpretation ring: bounded_mailbox spsc_methods spsc_contents "\<lambda>q. 0" spsc_is_closed spsc_inv
proof unfold_locales
  fix q :: "'a spsc" and m ms
  assume inv: "spsc_inv q"
  show "length (spsc_contents q) + 0 \<le> vt_capacity spsc_methods q"
    using inv by (simp add: spsc_method_defs spsc_inv_def)
  show "vt_is_empty spsc_methods q \<longleftrightarrow> spsc_contents q = []"
    by (simp add: spsc_method_defs spsc_empty_iff flip: length_0_conv)
  show "spsc_contents q = [] \<Longrightarrow> vt_recv spsc_methods q = (None, q)"
    using inv by (simp add: spsc_method_defs spsc_recv_nil)
  show "spsc_contents q = m # ms \<Longrightarrow> \<exists>q'. vt_recv spsc_methods q = (Some m, q') \<and> spsc_inv q'
      \<and> spsc_contents q' = ms \<and> (0::nat) = 0 \<and> spsc_is_closed q' = spsc_is_closed q
      \<and> vt_capacity spsc_methods q' = vt_capacity spsc_methods q"
    using spsc_recv_ok [OF inv] by (fastforce simp: spsc_method_defs)
  show "spsc_is_closed q \<Longrightarrow> vt_try_send spsc_methods m q = (Inl (SendClosed m), q)"
    using inv by (simp add: spsc_method_defs spsc_send_shut)
  show "\<not> spsc_is_closed q \<Longrightarrow> length (spsc_contents q) + 0 = vt_capacity spsc_methods q
      \<Longrightarrow> vt_try_send spsc_methods m q = (Inl (SendFull m), q)"
    using inv by (simp add: spsc_method_defs spsc_send_full)
  show "\<not> spsc_is_closed q \<Longrightarrow> length (spsc_contents q) + 0 < vt_capacity spsc_methods q
      \<Longrightarrow> \<exists>q'. vt_try_send spsc_methods m q = (Inr (), q') \<and> spsc_inv q'
      \<and> spsc_contents q' = spsc_contents q @ [m] \<and> (0::nat) = 0
      \<and> spsc_is_closed q' = spsc_is_closed q
      \<and> vt_capacity spsc_methods q' = vt_capacity spsc_methods q"
    using spsc_send_ok [OF inv, of m] by (fastforce simp: spsc_method_defs)
  show "spsc_inv (vt_close spsc_methods q) \<and> spsc_contents (vt_close spsc_methods q) = spsc_contents q
      \<and> (0::nat) = 0 \<and> spsc_is_closed (vt_close spsc_methods q)
      \<and> vt_capacity spsc_methods (vt_close spsc_methods q) = vt_capacity spsc_methods q"
    using spsc_close_spec [OF inv] by (auto simp: spsc_method_defs)
qed (auto simp: spsc_method_defs)

section \<open>Construction\<close>

lemma power_of_two_power: "n < 64 \<Longrightarrow> is_power_of_two (2 ^ n)"
  by (auto simp: is_power_of_two_def)

lemma spsc_new_one: "spsc_new 1 \<noteq> None"
  using power_of_two_power [of 0] by (simp add: spsc_new_def)

lemma spsc_new_inv: "spsc_new cap = Some q \<Longrightarrow> spsc_inv q \<and> spsc_contents q = []"
  by (auto simp: spsc_new_def spsc_inv_def spsc_len_def spsc_contents_def ring_slot_def
      slot_index_less split: if_splits)

section \<open>Dropping the mailbox\<close>

lemma spsc_drop_contents:
  assumes "spsc_inv q"
  shows "spsc_drop (sp_slot_mask q) (sp_head q) (sp_tail q) (sp_slots q)
    = (map Some (spsc_contents q), replicate (unat (sp_capacity q)) None)"
  using assms
proof (induction "spsc_len q" arbitrary: q)
  case 0
  then have "sp_head q = sp_tail q" and nil: "spsc_contents q = []"
    using spsc_empty_iff [of q] by (auto simp: spsc_is_empty_def spsc_contents_def)
  moreover have "sp_slots q ! k = None" if "k < unat (sp_capacity q)" for k
  proof -
    let ?c = "unat (sp_capacity q)"
    have "ring_slot q ` {..<?c} = {..<?c}"
    proof (rule card_subset_eq)
      show "card (ring_slot q ` {..<?c}) = card {..<?c}"
        using ring_slot_inj [OF "0.prems"] by (intro card_image) (auto simp: inj_on_def)
    qed (use ring_slot_less [OF "0.prems"] in auto)
    with that obtain i where "i < ?c" "k = ring_slot q i" by auto
    with "0.hyps" "0.prems" show ?thesis by (auto simp: spsc_inv_def)
  qed
  ultimately show ?case
    using "0.prems" by (subst spsc_drop.simps) (auto simp: spsc_inv_def intro: nth_equalityI)
next
  case (Suc n)
  let ?q = "q\<lparr>sp_slots := (sp_slots q)[slot_index (sp_slot_mask q) (sp_head q) := None],
              sp_head := sp_head q + 1\<rparr>"
  have len: "0 < spsc_len q" using Suc.hyps(2) by simp
  have pop: "spsc_inv ?q" "spsc_contents q = the (sp_slots q ! ring_slot q 0) # spsc_contents ?q"
    using spsc_pop [OF Suc.prems len] by auto
  have "n = spsc_len ?q"
    using pop(2) Suc.hyps(2) length_spsc_contents [of q] length_spsc_contents [of ?q] by simp
  from Suc.hyps(1) [OF this pop(1)]
  have rest: "spsc_drop (sp_slot_mask q) (sp_head q + 1) (sp_tail q)
      ((sp_slots q)[slot_index (sp_slot_mask q) (sp_head q) := None])
    = (map Some (spsc_contents ?q), replicate (unat (sp_capacity q)) None)"
    by simp
  obtain v where "sp_slots q ! ring_slot q 0 = Some v"
    using spsc_first_slot [OF Suc.prems len] by blast
  moreover have "sp_head q \<noteq> sp_tail q"
    using len spsc_empty_iff [of q] by (auto simp: spsc_is_empty_def)
  ultimately show ?case
    using rest pop(2) by (subst spsc_drop.simps) (auto simp: ring_slot_def Let_def)
qed

section \<open>Properties\<close>

text \<open>
  (C4) The ring buffer implements the mailbox contract. Over any sequence of calls on a fresh
  ring, with the cursors at their 64-bit width, the messages received followed by the ring's
  contents are the accepted messages in order and at most \<open>capacity\<close> are buffered. The next
  call, whichever it is, neither panics nor spins, and a receive returns the oldest buffered
  message.
\<close>

theorem spsc_refines_mailbox:
  assumes "spsc_new cap = Some q" and "mailbox_run spsc_methods ops q = (sent, got, q')"
  shows "got @ spsc_contents q' = sent \<and> length (spsc_contents q') \<le> unat cap
    \<and> fst (spsc_try_send m q') \<noteq> None \<and> spsc_close q' \<noteq> None
    \<and> fst (spsc_recv q') = Some (case spsc_contents q' of [] \<Rightarrow> None | v # _ \<Rightarrow> Some v)"
proof -
  have new: "spsc_inv q" "spsc_contents q = []" using spsc_new_inv [OF assms(1)] by auto
  have cap: "sp_capacity q = cap" using assms(1) by (auto simp: spsc_new_def split: if_splits)
  have inv: "spsc_inv q'" using ring.run_spec [OF new(1) assms(2)] by blast
  have "fst (spsc_recv q') = Some (case spsc_contents q' of [] \<Rightarrow> None | v # _ \<Rightarrow> Some v)"
    using spsc_recv_ok [OF inv] spsc_recv_nil [OF inv] by (cases "spsc_contents q'") fastforce+
  then show ?thesis
    using ring.run_fifo [OF new(1) assms(2)] ring.run_bounded [OF new(1) assms(2)] new(2) cap
      spsc_never_panics [OF inv]
    by (simp add: spsc_methods_def)
qed

theorem spsc_refines_mailbox_witness:
  "\<exists>q q'. spsc_new 1 = Some q
    \<and> mailbox_run spsc_methods [OpSend 1, OpSend 2, OpRecv, OpSend 3] q = ([1, 3], [1], q')
    \<and> [1] @ spsc_contents q' = [1, 3::nat] \<and> fst (spsc_try_send 4 q') \<noteq> None"
proof -
  obtain q :: "nat spsc" where new: "spsc_new 1 = Some q" using spsc_new_one by blast
  then have q: "q = \<lparr>sp_capacity = 1, sp_slot_mask = 0, sp_slots = [None], sp_head = 0,
      sp_tail = 0, sp_state = 0, sp_consumer_active = False\<rparr>"
    by (simp add: spsc_new_def split: if_splits)
  obtain q' where run:
    "mailbox_run spsc_methods [OpSend 1, OpSend 2, OpRecv, OpSend 3] q = ([1, 3], [1], q')"
    by (simp add: q spsc_method_defs spsc_try_send_def spsc_recv_def Let_def slot_index_def)
  have "[1] @ spsc_contents q' = [1, 3]" "fst (spsc_try_send 4 q') \<noteq> None"
    using spsc_refines_mailbox [OF new run, of 4] by simp_all
  with new run show ?thesis by blast
qed

text \<open>
  (C5) Dropping the mailbox drops every unread message exactly once, in order, and touches no
  uninitialised slot: the loop of \<open>Drop\<close> visits exactly the contents and leaves every slot
  uninitialised, also when the cursors have wrapped around.
\<close>

theorem spsc_drop_exact:
  assumes "spsc_new cap = Some q" and "mailbox_run spsc_methods ops q = (sent, got, q')"
  shows "\<exists>unread. sent = got @ unread
    \<and> spsc_drop (sp_slot_mask q') (sp_head q') (sp_tail q') (sp_slots q')
      = (map Some unread, replicate (unat cap) None)"
proof -
  have new: "spsc_inv q" "spsc_contents q = []" using spsc_new_inv [OF assms(1)] by auto
  have cap: "sp_capacity q = cap" using assms(1) by (auto simp: spsc_new_def split: if_splits)
  have "spsc_inv q'" "unat (sp_capacity q') = unat cap" "sent = got @ spsc_contents q'"
    using ring.run_spec [OF new(1) assms(2)] new(2) cap by (auto simp: spsc_methods_def)
  then show ?thesis using spsc_drop_contents [of q'] by auto
qed

theorem spsc_drop_exact_witness:
  "\<exists>q q' unread. spsc_new 1 = Some q
    \<and> mailbox_run spsc_methods [OpSend 1, OpRecv, OpSend 3] q = ([1, 3], [1], q')
    \<and> [1, 3::nat] = [1] @ unread
    \<and> spsc_drop (sp_slot_mask q') (sp_head q') (sp_tail q') (sp_slots q')
      = (map Some unread, replicate (unat (1::u64)) None)"
proof -
  obtain q :: "nat spsc" where new: "spsc_new 1 = Some q" using spsc_new_one by blast
  then have q: "q = \<lparr>sp_capacity = 1, sp_slot_mask = 0, sp_slots = [None], sp_head = 0,
      sp_tail = 0, sp_state = 0, sp_consumer_active = False\<rparr>"
    by (simp add: spsc_new_def split: if_splits)
  obtain q' where run:
    "mailbox_run spsc_methods [OpSend 1, OpRecv, OpSend 3] q = ([1, 3], [1], q')"
    by (simp add: q spsc_method_defs spsc_try_send_def spsc_recv_def Let_def slot_index_def)
  with new spsc_drop_exact [OF new run] show ?thesis by blast
qed

text \<open>
  The trait's \<open>is_closed\<close> promises to tell whether later sends are refused, but \<open>SpscMailbox\<close>
  inherits the default: it answers \<open>false\<close> also after \<open>close\<close>, while sends are refused.
\<close>

lemma spsc_trait_is_closed_stays_false:
  "spsc_inv q \<Longrightarrow> \<not> vt_is_closed spsc_methods (spsc_seq_close q)
    \<and> fst (spsc_seq_send m (spsc_seq_close q)) = Inl (SendClosed m)"
  using spsc_close_spec [of q] spsc_send_shut
  by (fastforce simp: spsc_methods_def trait_is_closed_def spsc_seq_close_def spsc_seq_send_def)

end
