(* ===== verification/Spsc_Steps.thy ===== *)
theory Spsc_Steps
  imports Spsc_Ring
begin

unbundle bit_operations_syntax

text \<open>
  The interleavings of \<open>SpscMailbox\<close>: any number of threads call \<open>try_send\<close>, \<open>recv\<close> and
  \<open>close\<close>, and every access to a shared atomic or to a slot is one step. The program counter of
  a thread names the access it is about to make and holds its local variables.

  Steps interleave sequentially consistently. The acquire/release orderings of the source are
  not modelled; its Loom tests explore those. \<open>Fault\<close> is what Rust leaves undefined: reading
  a slot that holds no value, or writing over one that holds an unread value.

  Four fields are auxiliary and read by no step: the thread inside the producer gate, the
  thread inside the consumer flag, and the messages published and taken so far.
\<close>

section \<open>Threads\<close>

datatype 'a pc =
    Idle
  | PLoad 'a | PCas 'a u64 | PTail 'a | PHead 'a u64 | PWrite 'a u64 | PStore 'a u64
  | PDrop "'a send_result" | PDone "'a send_result"
  | CClaim | CHead | CTail u64 | CRead u64 | CStore u64 'a
  | CDrop "'a option" | CDone "'a option"
  | XLoad | XCas u64 | XDrop | XDone
  | Panicked | Fault

record 'a conc =
  ring :: "'a spsc"
  pcs :: "nat \<Rightarrow> 'a pc"
  gate :: "nat option"
  taker :: "nat option"
  sent :: "'a list"
  got :: "'a list"

abbreviation goto :: "nat \<Rightarrow> 'a pc \<Rightarrow> 'a conc \<Rightarrow> 'a conc" where
  "goto t p s \<equiv> s\<lparr>pcs := (pcs s)(t := p)\<rparr>"

abbreviation set_state :: "u64 \<Rightarrow> 'a conc \<Rightarrow> 'a conc" where
  "set_state st s \<equiv> s\<lparr>ring := (ring s)\<lparr>sp_state := st\<rparr>\<rparr>"

abbreviation slot_of :: "'a conc \<Rightarrow> u64 \<Rightarrow> nat" where
  "slot_of s cursor \<equiv> slot_index (sp_slot_mask (ring s)) cursor"

definition conc_init :: "'a spsc \<Rightarrow> 'a conc" where
  "conc_init q = \<lparr>ring = q, pcs = (\<lambda>_. Idle), gate = None, taker = None, sent = [], got = []\<rparr>"

text \<open>The methods as steps. The first three rules are the calls, the last one the returns.\<close>

inductive spsc_step :: "'a conc \<Rightarrow> 'a conc \<Rightarrow> bool" where
  call_send: "pcs s t = Idle \<Longrightarrow> spsc_step s (goto t (PLoad m) s)"
| call_recv: "pcs s t = Idle \<Longrightarrow> spsc_step s (goto t CClaim s)"
| call_close: "pcs s t = Idle \<Longrightarrow> spsc_step s (goto t XLoad s)"
| load_state: "pcs s t = PLoad m \<Longrightarrow>
    spsc_step s (goto t (case claim_producer (sp_state (ring s)) of
        ClaimClosed \<Rightarrow> PDone (Inl (SendClosed m)) | ClaimPanic \<Rightarrow> Panicked
      | Claimed _ \<Rightarrow> PCas m (sp_state (ring s))) s)"
| cas_lost: "pcs s t = PCas m st \<Longrightarrow> sp_state (ring s) \<noteq> st \<Longrightarrow> spsc_step s (goto t (PLoad m) s)"
| cas_won: "pcs s t = PCas m st \<Longrightarrow> sp_state (ring s) = st \<Longrightarrow>
    spsc_step s (goto t (PTail m) ((set_state (st OR STATE_PRODUCER_HELD) s)\<lparr>gate := Some t\<rparr>))"
| load_tail: "pcs s t = PTail m \<Longrightarrow> spsc_step s (goto t (PHead m (sp_tail (ring s))) s)"
| load_head: "pcs s t = PHead m ta \<Longrightarrow>
    spsc_step s (goto t (if ta - sp_head (ring s) \<ge> sp_capacity (ring s)
      then PDrop (Inl (SendFull m)) else PWrite m ta) s)"
| write_slot: "pcs s t = PWrite m ta \<Longrightarrow>
    spsc_step s (if sp_slots (ring s) ! slot_of s ta = None
      then goto t (PStore m ta)
        (s\<lparr>ring := (ring s)\<lparr>sp_slots := (sp_slots (ring s))[slot_of s ta := Some m]\<rparr>\<rparr>)
      else goto t Fault s)"
| store_tail: "pcs s t = PStore m ta \<Longrightarrow>
    spsc_step s (goto t (PDrop (Inr ()))
      (s\<lparr>ring := (ring s)\<lparr>sp_tail := ta + 1\<rparr>, sent := sent s @ [m]\<rparr>))"
| drop_producer: "pcs s t = PDrop r \<Longrightarrow>
    spsc_step s (goto t (PDone r) ((set_state (release_producer (sp_state (ring s))) s)\<lparr>gate := None\<rparr>))"
| claim_lost: "pcs s t = CClaim \<Longrightarrow> sp_consumer_active (ring s) \<Longrightarrow> spsc_step s (goto t Panicked s)"
| claim_won: "pcs s t = CClaim \<Longrightarrow> \<not> sp_consumer_active (ring s) \<Longrightarrow>
    spsc_step s (goto t CHead ((s\<lparr>ring := (ring s)\<lparr>sp_consumer_active := True\<rparr>\<rparr>)\<lparr>taker := Some t\<rparr>))"
| take_head: "pcs s t = CHead \<Longrightarrow> spsc_step s (goto t (CTail (sp_head (ring s))) s)"
| take_tail: "pcs s t = CTail he \<Longrightarrow>
    spsc_step s (goto t (if he = sp_tail (ring s) then CDrop None else CRead he) s)"
| read_slot: "pcs s t = CRead he \<Longrightarrow>
    spsc_step s (case sp_slots (ring s) ! slot_of s he of
        Some v \<Rightarrow> goto t (CStore he v)
          (s\<lparr>ring := (ring s)\<lparr>sp_slots := (sp_slots (ring s))[slot_of s he := None]\<rparr>\<rparr>)
      | None \<Rightarrow> goto t Fault s)"
| store_head: "pcs s t = CStore he v \<Longrightarrow>
    spsc_step s (goto t (CDrop (Some v))
      (s\<lparr>ring := (ring s)\<lparr>sp_head := he + 1\<rparr>, got := got s @ [v]\<rparr>))"
| drop_consumer: "pcs s t = CDrop r \<Longrightarrow>
    spsc_step s (goto t (CDone r)
      ((s\<lparr>ring := (ring s)\<lparr>sp_consumer_active := False\<rparr>\<rparr>)\<lparr>taker := None\<rparr>))"
| close_load: "pcs s t = XLoad \<Longrightarrow>
    spsc_step s (goto t
      (if sp_state (ring s) AND STATE_CLOSED \<noteq> 0 \<and> sp_state (ring s) AND STATE_PRODUCER_HELD = 0
       then XDone
       else if sp_state (ring s) AND STATE_PRODUCER_HELD \<noteq> 0 then XLoad
       else XCas (sp_state (ring s))) s)"
| close_lost: "pcs s t = XCas st \<Longrightarrow> sp_state (ring s) \<noteq> st \<Longrightarrow> spsc_step s (goto t XLoad s)"
| close_won: "pcs s t = XCas st \<Longrightarrow> sp_state (ring s) = st \<Longrightarrow>
    spsc_step s (goto t XDrop
      ((set_state (st OR STATE_CLOSED OR STATE_PRODUCER_HELD) s)\<lparr>gate := Some t\<rparr>))"
| drop_closer: "pcs s t = XDrop \<Longrightarrow>
    spsc_step s (goto t XDone ((set_state (release_producer (sp_state (ring s))) s)\<lparr>gate := None\<rparr>))"
| return: "pcs s t \<in> {PDone r, CDone c, XDone} \<Longrightarrow> spsc_step s (goto t Idle s)"

inductive spsc_reach :: "'a spsc \<Rightarrow> 'a conc \<Rightarrow> bool" for q where
  reach_init: "spsc_reach q (conc_init q)"
| reach_step: "spsc_reach q s \<Longrightarrow> spsc_step s s' \<Longrightarrow> spsc_reach q s'"

section \<open>The invariant\<close>

fun in_gate :: "'a pc \<Rightarrow> bool" where
  "in_gate (PTail _) = True"
| "in_gate (PHead _ _) = True"
| "in_gate (PWrite _ _) = True"
| "in_gate (PStore _ _) = True"
| "in_gate (PDrop _) = True"
| "in_gate XDrop = True"
| "in_gate _ = False"

fun in_take :: "'a pc \<Rightarrow> bool" where
  "in_take CHead = True"
| "in_take (CTail _) = True"
| "in_take (CRead _) = True"
| "in_take (CStore _ _) = True"
| "in_take (CDrop _) = True"
| "in_take _ = False"

fun is_store :: "'a pc \<Rightarrow> bool" where
  "is_store (PStore _ _) = True"
| "is_store _ = False"

fun is_taken :: "'a pc \<Rightarrow> bool" where
  "is_taken (CStore _ _) = True"
| "is_taken _ = False"

definition published :: "'a conc \<Rightarrow> bool" where
  "published s \<longleftrightarrow> length (got s) < length (sent s)"

definition has_room :: "'a conc \<Rightarrow> bool" where
  "has_room s \<longleftrightarrow> length (sent s) < length (got s) + unat (sp_capacity (ring s))"

text \<open>What a thread knows at each of its program points.\<close>

fun local_ok :: "'a conc \<Rightarrow> 'a pc \<Rightarrow> bool" where
  "local_ok s (PCas m st) \<longleftrightarrow> st = 0"
| "local_ok s (PTail m) \<longleftrightarrow> \<not> spsc_is_closed (ring s)"
| "local_ok s (PHead m ta) \<longleftrightarrow> \<not> spsc_is_closed (ring s) \<and> ta = sp_tail (ring s)"
| "local_ok s (PWrite m ta) \<longleftrightarrow> \<not> spsc_is_closed (ring s) \<and> ta = sp_tail (ring s) \<and> has_room s"
| "local_ok s (PStore m ta) \<longleftrightarrow> \<not> spsc_is_closed (ring s) \<and> ta = sp_tail (ring s) \<and> has_room s
     \<and> sp_slots (ring s) ! slot_of s ta = Some m"
| "local_ok s (PDrop r) \<longleftrightarrow> \<not> spsc_is_closed (ring s)"
| "local_ok s (CTail he) \<longleftrightarrow> he = sp_head (ring s)"
| "local_ok s (CRead he) \<longleftrightarrow> he = sp_head (ring s) \<and> published s"
| "local_ok s (CStore he v) \<longleftrightarrow> he = sp_head (ring s) \<and> published s \<and> v = sent s ! length (got s)"
| "local_ok s (XCas st) \<longleftrightarrow> st = 0"
| "local_ok s XDrop \<longleftrightarrow> spsc_is_closed (ring s)"
| "local_ok s XDone \<longleftrightarrow> spsc_is_closed (ring s)"
| "local_ok s Fault \<longleftrightarrow> False"
| "local_ok s _ \<longleftrightarrow> True"

definition shape_ok :: "'a conc \<Rightarrow> bool" where
  "shape_ok s \<longleftrightarrow> is_power_of_two (sp_capacity (ring s))
     \<and> sp_slot_mask (ring s) = sp_capacity (ring s) - 1
     \<and> length (sp_slots (ring s)) = unat (sp_capacity (ring s))"

definition counters_ok :: "'a conc \<Rightarrow> bool" where
  "counters_ok s \<longleftrightarrow> sp_head (ring s) = of_nat (length (got s))
     \<and> sp_tail (ring s) = of_nat (length (sent s))
     \<and> length (got s) \<le> length (sent s)
     \<and> length (sent s) \<le> length (got s) + unat (sp_capacity (ring s))
     \<and> got s = take (length (got s)) (sent s)"

definition gates_ok :: "'a conc \<Rightarrow> bool" where
  "gates_ok s \<longleftrightarrow> (\<forall>t. in_gate (pcs s t) \<longleftrightarrow> gate s = Some t)
     \<and> (\<forall>t. in_take (pcs s t) \<longleftrightarrow> taker s = Some t)
     \<and> (sp_consumer_active (ring s) \<longleftrightarrow> taker s \<noteq> None)
     \<and> sp_state (ring s) \<in> (if gate s = None then {0, 1} else {2, 3})"

text \<open>
  The slots: the unread messages, without the one a consumer has just taken out, and the one
  a producer has just put in.
\<close>

definition storing :: "'a conc \<Rightarrow> bool" where
  "storing s \<longleftrightarrow> (\<exists>t. is_store (pcs s t))"

definition taking :: "'a conc \<Rightarrow> bool" where
  "taking s \<longleftrightarrow> (\<exists>t. is_taken (pcs s t))"

definition slots_ok :: "'a conc \<Rightarrow> bool" where
  "slots_ok s \<longleftrightarrow> (\<forall>k. length (got s) \<le> k \<and> k < length (got s) + unat (sp_capacity (ring s)) \<longrightarrow>
     (let c = sp_slots (ring s) ! (k mod unat (sp_capacity (ring s))) in
      if k < length (sent s)
      then c = (if k = length (got s) \<and> taking s then None else Some (sent s ! k))
      else c = None \<or> (k = length (sent s) \<and> storing s)))"

definition conc_ok :: "'a conc \<Rightarrow> bool" where
  "conc_ok s \<longleftrightarrow> shape_ok s \<and> counters_ok s \<and> gates_ok s \<and> slots_ok s
     \<and> (\<forall>t. local_ok s (pcs s t))"


section \<open>Preservation\<close>

lemma state_bit_simps [simp]:
  "(1::u64) AND 2 = 0" "(0::u64) OR 2 = 2" "release_producer 2 = 0" "release_producer 3 = 1"
  by (simp_all add: state_bits)

lemma closed_iff_state: "gates_ok s \<Longrightarrow> spsc_is_closed (ring s) \<longleftrightarrow> sp_state (ring s) \<in> {1, 3}"
  by (auto simp: gates_ok_def spsc_is_closed_def state_bits split: if_splits)

lemma open_state: "gates_ok s \<Longrightarrow> \<not> spsc_is_closed (ring s) \<Longrightarrow>
  sp_state (ring s) = (if gate s = None then 0 else 2)"
  by (auto simp: gates_ok_def spsc_is_closed_def state_bits split: if_splits)

lemma shut_state: "gates_ok s \<Longrightarrow> spsc_is_closed (ring s) \<Longrightarrow>
  sp_state (ring s) = (if gate s = None then 1 else 3)"
  by (auto simp: gates_ok_def spsc_is_closed_def state_bits split: if_splits)

text \<open>The parts of the invariant that mention no program counter.\<close>

lemma pcs_irrelevant [simp]:
  "shape_ok (s\<lparr>pcs := f\<rparr>) = shape_ok s"
  "counters_ok (s\<lparr>pcs := f\<rparr>) = counters_ok s"
  "published (s\<lparr>pcs := f\<rparr>) = published s"
  "has_room (s\<lparr>pcs := f\<rparr>) = has_room s"
  by (simp_all add: shape_ok_def counters_ok_def published_def has_room_def)

lemma local_ok_pcs [simp]: "local_ok (s\<lparr>pcs := f\<rparr>) p = local_ok s p"
  by (cases p) simp_all

lemma storing_same:
  "pcs s' = (pcs s)(t := p) \<Longrightarrow> is_store p = is_store (pcs s t) \<Longrightarrow> storing s' = storing s"
  unfolding storing_def by (metis fun_upd_apply)

lemma taking_same:
  "pcs s' = (pcs s)(t := p) \<Longrightarrow> is_taken p = is_taken (pcs s t) \<Longrightarrow> taking s' = taking s"
  unfolding taking_def by (metis fun_upd_apply)

lemma slots_ok_same:
  assumes "slots_ok s" and "pcs s' = (pcs s)(t := p)"
    and "is_store p = is_store (pcs s t)" and "is_taken p = is_taken (pcs s t)"
    and "sent s' = sent s" and "got s' = got s" and "sp_slots (ring s') = sp_slots (ring s)"
    and "sp_capacity (ring s') = sp_capacity (ring s)"
  shows "slots_ok s'"
  using assms(1)
  by (simp only: slots_ok_def assms(5-8) storing_same [OF assms(2,3)] taking_same [OF assms(2,4)])

lemma gates_ok_same:
  assumes "gates_ok s" and "pcs s' = (pcs s)(t := p)"
    and "in_gate p = in_gate (pcs s t)" and "in_take p = in_take (pcs s t)"
    and "gate s' = gate s" and "taker s' = taker s"
    and "sp_consumer_active (ring s') = sp_consumer_active (ring s)"
    and "sp_state (ring s') = sp_state (ring s)"
  shows "gates_ok s'"
  using assms(1) by (simp add: gates_ok_def assms(2-8))

text \<open>A step that only moves its thread on.\<close>

lemma quiet_step:
  assumes ok: "conc_ok s" and "local_ok s p"
    and "in_gate p = in_gate (pcs s t)" and "in_take p = in_take (pcs s t)"
    and "is_store p = is_store (pcs s t)" and "is_taken p = is_taken (pcs s t)"
  shows "conc_ok (goto t p s)"
proof -
  have "gates_ok (goto t p s)"
    using ok assms(3,4) by (simp add: conc_ok_def gates_ok_def)
  moreover have "slots_ok (goto t p s)"
    by (rule slots_ok_same [of s _ t p]) (use ok assms(5,6) in \<open>simp_all add: conc_ok_def\<close>)
  ultimately show ?thesis using ok assms(2) by (simp add: conc_ok_def)
qed

lemma conc_okD:
  assumes "conc_ok s"
  shows "shape_ok s" "counters_ok s" "gates_ok s" "slots_ok s" "local_ok s (pcs s t)"
  using assms by (simp_all add: conc_ok_def)

text \<open>Entering and leaving the producer gate.\<close>

lemma closed_set_state: "spsc_is_closed (r\<lparr>sp_state := st\<rparr>) \<longleftrightarrow> st AND STATE_CLOSED \<noteq> 0"
  by (simp add: spsc_is_closed_def)

lemma local_ok_gate:
  assumes "local_ok s p"
    and "spsc_is_closed (r\<lparr>sp_state := st\<rparr>) = spsc_is_closed (ring s)
      \<or> \<not> in_gate p \<and> spsc_is_closed (r\<lparr>sp_state := st\<rparr>)"
    and "r = ring s"
  shows "local_ok (s\<lparr>ring := r\<lparr>sp_state := st\<rparr>, gate := g\<rparr>) p"
  using assms by (cases p) (auto simp: published_def has_room_def)

lemma gate_step:
  assumes ok: "conc_ok s" and g: "gate s \<in> {None, Some t}" "g = (if in_gate p then Some t else None)"
    and st: "st \<in> (if in_gate p then {2, 3} else {0, 1})"
    and pc: "in_take p = in_take (pcs s t)" "is_taken p = is_taken (pcs s t)"
      "is_store p = is_store (pcs s t)"
    and closed: "spsc_is_closed (ring s\<lparr>sp_state := st\<rparr>) = spsc_is_closed (ring s)
      \<or> in_gate p \<and> gate s = None \<and> spsc_is_closed (ring s\<lparr>sp_state := st\<rparr>)"
    and "local_ok (set_state st s) p"
  shows "conc_ok (goto t p ((set_state st s)\<lparr>gate := g\<rparr>))"
proof -
  let ?s = "s\<lparr>ring := ring s\<lparr>sp_state := st\<rparr>, gate := g\<rparr>"
  note old = conc_okD [OF ok]
  have gate: "gates_ok (goto t p ((set_state st s)\<lparr>gate := g\<rparr>))"
    using old(3) g st pc(1) by (auto simp: gates_ok_def split: if_splits)
  have "slots_ok (goto t p ((set_state st s)\<lparr>gate := g\<rparr>))"
    using old(4) by (rule slots_ok_same [of s _ t p]) (simp_all add: pc)
  moreover have "local_ok ?s (pcs s u)" if "u \<noteq> t" for u
  proof (rule local_ok_gate [OF old(5) [of u]])
    show "spsc_is_closed (ring s\<lparr>sp_state := st\<rparr>) = spsc_is_closed (ring s)
        \<or> \<not> in_gate (pcs s u) \<and> spsc_is_closed (ring s\<lparr>sp_state := st\<rparr>)"
      using closed old(3) by (auto simp: gates_ok_def)
  qed simp
  moreover have "local_ok ?s p"
    using assms(9) by (cases p) (auto simp: published_def has_room_def)
  moreover have "shape_ok ?s" "counters_ok ?s"
    using old(1,2) by (auto simp: shape_ok_def counters_ok_def)
  ultimately show ?thesis
    using old gate by (simp add: conc_ok_def)
qed

text \<open>Taking and clearing the consumer flag.\<close>

lemma taker_step:
  assumes ok: "conc_ok s" and g: "taker s \<in> {None, Some t}" "b = in_take p"
      "g = (if in_take p then Some t else None)"
    and pc: "in_gate p = in_gate (pcs s t)" "is_taken p = is_taken (pcs s t)"
      "is_store p = is_store (pcs s t)"
    and "local_ok s p"
  shows "conc_ok (goto t p ((s\<lparr>ring := (ring s)\<lparr>sp_consumer_active := b\<rparr>\<rparr>)\<lparr>taker := g\<rparr>))"
proof -
  let ?s = "s\<lparr>ring := (ring s)\<lparr>sp_consumer_active := b\<rparr>, taker := g\<rparr>"
  note old = conc_okD [OF ok]
  have gate: "gates_ok (goto t p ?s)"
    using old(3) g pc(1) by (auto simp: gates_ok_def split: if_splits)
  have "slots_ok (goto t p ?s)"
    using old(4) by (rule slots_ok_same [of s _ t p]) (simp_all add: pc)
  moreover have "local_ok ?s r = local_ok s r" for r
    by (cases r) (auto simp: published_def has_room_def spsc_is_closed_def)
  moreover have "shape_ok ?s" "counters_ok ?s"
    using old(1,2) by (auto simp: shape_ok_def counters_ok_def)
  ultimately show ?thesis
    using old gate assms(8) by (simp add: conc_ok_def)
qed

text \<open>Writing, publishing, taking and retiring one slot.\<close>

lemma is_store_in_gate: "is_store p \<Longrightarrow> in_gate p"
  by (cases p) simp_all

lemma is_taken_in_take: "is_taken p \<Longrightarrow> in_take p"
  by (cases p) simp_all

lemma gate_unique: "gates_ok s \<Longrightarrow> in_gate (pcs s t) \<Longrightarrow> in_gate (pcs s u) \<Longrightarrow> u = t"
  by (auto simp: gates_ok_def)

lemma take_unique: "gates_ok s \<Longrightarrow> in_take (pcs s t) \<Longrightarrow> in_take (pcs s u) \<Longrightarrow> u = t"
  by (auto simp: gates_ok_def)

lemma storing_owner:
  assumes "gates_ok s" and "in_gate (pcs s t)"
  shows "storing s = is_store (pcs s t)"
  using gate_unique [OF assms] is_store_in_gate unfolding storing_def by metis

lemma storing_owner_upd:
  assumes "gates_ok s" and "in_gate (pcs s t)" and "pcs s' = (pcs s)(t := p)"
  shows "storing s' = is_store p"
  using gate_unique [OF assms(1,2)] is_store_in_gate assms(3) unfolding storing_def
  by (metis fun_upd_apply)

lemma taking_owner:
  assumes "gates_ok s" and "in_take (pcs s t)"
  shows "taking s = is_taken (pcs s t)"
  using take_unique [OF assms] is_taken_in_take unfolding taking_def by metis

lemma taking_owner_upd:
  assumes "gates_ok s" and "in_take (pcs s t)" and "pcs s' = (pcs s)(t := p)"
  shows "taking s' = is_taken p"
  using take_unique [OF assms(1,2)] is_taken_in_take assms(3) unfolding taking_def
  by (metis fun_upd_apply)

lemma conc_ok_goto:
  assumes "shape_ok s" and "counters_ok s" and "gates_ok (goto t p s)" and "slots_ok (goto t p s)"
    and "local_ok s p" and "\<And>u. u \<noteq> t \<Longrightarrow> local_ok s (pcs s u)"
  shows "conc_ok (goto t p s)"
  using assms by (simp add: conc_ok_def)

lemma slot_distinct:
  assumes "h \<le> i" "i < h + c" "h \<le> j" "j < h + (c::nat)"
  shows "i mod c = j mod c \<longleftrightarrow> i = j"
proof
  assume "i mod c = j mod c"
  then have "i - h = j - h"
    using mod_add_inj [of h "i - h" c "j - h"] assms by simp
  with assms show "i = j" by simp
qed simp

lemma cursor_slots:
  assumes "conc_ok s"
  shows "slot_of s (sp_tail (ring s)) = length (sent s) mod unat (sp_capacity (ring s))"
    and "slot_of s (sp_head (ring s)) = length (got s) mod unat (sp_capacity (ring s))"
  using assms slot_index_add [of "sp_capacity (ring s)" 0]
  by (auto simp: conc_ok_def shape_ok_def counters_ok_def)

lemma slots_len: "conc_ok s \<Longrightarrow> length (sp_slots (ring s)) = unat (sp_capacity (ring s))"
  by (simp add: conc_ok_def shape_ok_def)

lemma cap_pos: "conc_ok s \<Longrightarrow> 0 < unat (sp_capacity (ring s))"
  by (simp add: conc_ok_def shape_ok_def power_of_two_pos)

lemma slots_okD:
  assumes "slots_ok s" and "length (got s) \<le> k" and "k < length (got s) + unat (sp_capacity (ring s))"
  shows "k < length (sent s) \<Longrightarrow> sp_slots (ring s) ! (k mod unat (sp_capacity (ring s)))
      = (if k = length (got s) \<and> taking s then None else Some (sent s ! k))"
    and "length (sent s) \<le> k \<Longrightarrow> k \<noteq> length (sent s) \<or> \<not> storing s \<Longrightarrow>
      sp_slots (ring s) ! (k mod unat (sp_capacity (ring s))) = None"
  using assms by (auto simp: slots_ok_def Let_def)

lemma slots_okI:
  assumes "\<And>k. length (got s) \<le> k \<Longrightarrow> k < length (got s) + unat (sp_capacity (ring s)) \<Longrightarrow>
      k < length (sent s) \<Longrightarrow> sp_slots (ring s) ! (k mod unat (sp_capacity (ring s)))
      = (if k = length (got s) \<and> taking s then None else Some (sent s ! k))"
    and "\<And>k. length (got s) \<le> k \<Longrightarrow> k < length (got s) + unat (sp_capacity (ring s)) \<Longrightarrow>
      length (sent s) \<le> k \<Longrightarrow> k \<noteq> length (sent s) \<or> \<not> storing s \<Longrightarrow>
      sp_slots (ring s) ! (k mod unat (sp_capacity (ring s))) = None"
  shows "slots_ok s"
  unfolding slots_ok_def Let_def using assms by (metis linorder_not_less)

lemma write_step:
  assumes ok: "conc_ok s" and pc: "pcs s t = PWrite m ta"
  shows "sp_slots (ring s) ! slot_of s ta = None"
    and "conc_ok (goto t (PStore m ta)
        (s\<lparr>ring := (ring s)\<lparr>sp_slots := (sp_slots (ring s))[slot_of s ta := Some m]\<rparr>\<rparr>))"
proof -
  let ?n = "length (sent s)" and ?h = "length (got s)" and ?c = "unat (sp_capacity (ring s))"
  let ?s = "s\<lparr>ring := (ring s)\<lparr>sp_slots := (sp_slots (ring s))[slot_of s ta := Some m]\<rparr>\<rparr>"
  let ?s' = "goto t (PStore m ta) ?s"
  note old = conc_okD [OF ok]
  have loc: "\<not> spsc_is_closed (ring s)" "ta = sp_tail (ring s)" "?n < ?h + ?c" "?h \<le> ?n"
    using old(5) [of t] old(2) pc by (simp_all add: has_room_def counters_ok_def)
  have idx: "slot_of s ta = ?n mod ?c" using cursor_slots [OF ok] loc by simp
  have bnd: "slot_of s ta < length (sp_slots (ring s))"
    using cap_pos [OF ok] slots_len [OF ok] by (simp add: idx)
  have nostore: "\<not> storing s" using storing_owner [OF old(3), of t] pc by simp
  show "sp_slots (ring s) ! slot_of s ta = None"
    using slots_okD(2) [OF old(4) loc(4,3)] nostore by (simp only: idx) simp
  have new: "sp_slots (ring ?s) ! (k mod ?c)
      = (if k = ?n then Some m else sp_slots (ring s) ! (k mod ?c))"
    if "?h \<le> k" "k < ?h + ?c" for k
    using bnd slot_distinct [OF that loc(4,3)] unfolding idx by auto
  have taking: "taking ?s' = taking s" by (rule taking_same [of _ _ t "PStore m ta"]) (simp_all add: pc)
  have storing: "storing ?s'" unfolding storing_def by (rule exI [of _ t]) simp
  show "conc_ok ?s'"
  proof (rule conc_ok_goto)
    show "slots_ok ?s'"
    proof (rule slots_okI, unfold taking, goal_cases)
      case (1 k)
      then show ?case using new [of k] slots_okD(1) [OF old(4), of k] by simp
    next
      case (2 k)
      then show ?case using new [of k] slots_okD(2) [OF old(4), of k] storing by simp
    qed
    show "local_ok ?s (PStore m ta)"
      using loc(1,3) bnd by (simp add: loc(2) has_room_def spsc_is_closed_def)
    fix u assume "u \<noteq> t"
    have "\<not> is_store (pcs s u)" using nostore by (simp add: storing_def)
    then show "local_ok ?s (pcs ?s u)"
      using old(5) [of u] by (cases "pcs s u") (auto simp: published_def has_room_def spsc_is_closed_def)
  next
    show "gates_ok ?s'"
      using old(3) by (rule gates_ok_same [of s _ t "PStore m ta"]) (simp_all add: pc)
  qed (use old(1,2) in \<open>simp_all add: shape_ok_def counters_ok_def\<close>)
qed

lemma publish_step:
  assumes ok: "conc_ok s" and pc: "pcs s t = PStore m ta"
  shows "conc_ok (goto t (PDrop (Inr ()))
      (s\<lparr>ring := (ring s)\<lparr>sp_tail := ta + 1\<rparr>, sent := sent s @ [m]\<rparr>))"
proof -
  let ?n = "length (sent s)" and ?h = "length (got s)" and ?c = "unat (sp_capacity (ring s))"
  let ?s = "s\<lparr>ring := (ring s)\<lparr>sp_tail := ta + 1\<rparr>, sent := sent s @ [m]\<rparr>"
  let ?s' = "goto t (PDrop (Inr ())) ?s"
  note old = conc_okD [OF ok]
  have loc: "\<not> spsc_is_closed (ring s)" "ta = sp_tail (ring s)" "?n < ?h + ?c" "?h \<le> ?n"
    using old(5) [of t] old(2) pc by (simp_all add: has_room_def counters_ok_def)
  have full: "sp_slots (ring s) ! (?n mod ?c) = Some m"
    using old(5) [of t] pc cursor_slots(1) [OF ok] by auto
  have taking: "taking ?s' = taking s" by (rule taking_same [of _ _ t "PDrop (Inr ())"]) (simp_all add: pc)
  have storing: "\<not> storing ?s'"
    using storing_owner_upd [OF old(3), of t ?s' "PDrop (Inr ())"] pc by simp
  have taken: "taking s \<Longrightarrow> ?h < ?n"
    unfolding taking_def using old(5) by (metis is_taken.elims(2) local_ok.simps(9) published_def)
  show "conc_ok ?s'"
  proof (rule conc_ok_goto)
    show "slots_ok ?s'"
    proof (rule slots_okI, unfold taking, goal_cases)
      case (1 k)
      then show ?case
        using slots_okD(1) [OF old(4), of k] full taken by (cases "k < ?n") (auto simp: nth_append less_Suc_eq)
    next
      case (2 k)
      then show ?case using slots_okD(2) [OF old(4), of k] by simp
    qed
    show "counters_ok ?s"
      using old(2) loc by (auto simp: counters_ok_def)
    fix u assume "u \<noteq> t"
    then have "\<not> in_gate (pcs s u)" using gate_unique [OF old(3), of t u] pc by auto
    then show "local_ok ?s (pcs ?s u)"
      using old(5) [of u]
      by (cases "pcs s u") (auto simp: published_def has_room_def spsc_is_closed_def nth_append)
  next
    show "gates_ok ?s'"
      using old(3) by (rule gates_ok_same [of s _ t "PDrop (Inr ())"]) (simp_all add: pc)
  qed (use old(1) loc(1) in \<open>simp_all add: shape_ok_def spsc_is_closed_def\<close>)
qed

lemma take_step:
  assumes ok: "conc_ok s" and pc: "pcs s t = CRead he"
  defines "v \<equiv> sent s ! length (got s)"
  shows "sp_slots (ring s) ! slot_of s he = Some v"
    and "conc_ok (goto t (CStore he v)
        (s\<lparr>ring := (ring s)\<lparr>sp_slots := (sp_slots (ring s))[slot_of s he := None]\<rparr>\<rparr>))"
proof -
  let ?n = "length (sent s)" and ?h = "length (got s)" and ?c = "unat (sp_capacity (ring s))"
  let ?s = "s\<lparr>ring := (ring s)\<lparr>sp_slots := (sp_slots (ring s))[slot_of s he := None]\<rparr>\<rparr>"
  let ?s' = "goto t (CStore he v) ?s"
  note old = conc_okD [OF ok]
  have loc: "he = sp_head (ring s)" "?h < ?n"
    using old(5) [of t] pc by (simp_all add: published_def)
  have cap: "?h < ?h + ?c" using cap_pos [OF ok] by simp
  have idx: "slot_of s he = ?h mod ?c" using cursor_slots [OF ok] loc by simp
  have bnd: "slot_of s he < length (sp_slots (ring s))"
    using cap_pos [OF ok] slots_len [OF ok] by (simp add: idx)
  have notake: "\<not> taking s" using taking_owner [OF old(3), of t] pc by simp
  show "sp_slots (ring s) ! slot_of s he = Some v"
    using slots_okD(1) [OF old(4) le_refl cap loc(2)] notake by (simp only: idx v_def) simp
  have new: "sp_slots (ring ?s) ! (k mod ?c) = (if k = ?h then None else sp_slots (ring s) ! (k mod ?c))"
    if "?h \<le> k" "k < ?h + ?c" for k
    using bnd slot_distinct [OF that le_refl cap] unfolding idx by auto
  have storing: "storing ?s' = storing s"
    by (rule storing_same [of _ _ t "CStore he v"]) (simp_all add: pc)
  have taking: "taking ?s'" unfolding taking_def by (rule exI [of _ t]) simp
  show "conc_ok ?s'"
  proof (rule conc_ok_goto)
    show "slots_ok ?s'"
    proof (rule slots_okI, unfold storing, goal_cases)
      case (1 k)
      then show ?case using new [of k] slots_okD(1) [OF old(4), of k] taking by simp
    next
      case (2 k)
      then show ?case using new [of k] slots_okD(2) [OF old(4), of k] by simp
    qed
    show "local_ok ?s (CStore he v)"
      using loc by (simp add: published_def v_def)
    fix u assume "u \<noteq> t"
    then have nt: "\<not> in_take (pcs s u)" using take_unique [OF old(3), of t u] pc by auto
    show "local_ok ?s (pcs ?s u)"
    proof (cases "pcs s u")
      case (PStore m ta)
      with old(5) [of u] have st: "ta = sp_tail (ring s)" "has_room s" by auto
      then have "slot_of s ta = ?n mod ?c" using cursor_slots(1) [OF ok] by simp
      moreover have "?n mod ?c \<noteq> ?h mod ?c"
        using slot_distinct [of ?h ?n ?c ?h] st(2) loc(2) by (simp add: has_room_def)
      ultimately have "slot_of s he \<noteq> slot_of s ta" by (simp only: idx not_sym)
      with PStore old(5) [of u] show ?thesis by (auto simp: has_room_def spsc_is_closed_def)
    qed (use nt old(5) [of u] in \<open>auto simp: has_room_def spsc_is_closed_def\<close>)
  next
    show "gates_ok ?s'"
      using old(3) by (rule gates_ok_same [of s _ t "CStore he v"]) (simp_all add: pc)
  qed (use old(1,2) in \<open>simp_all add: shape_ok_def counters_ok_def\<close>)
qed

lemma retire_step:
  assumes ok: "conc_ok s" and pc: "pcs s t = CStore he v"
  shows "conc_ok (goto t (CDrop (Some v))
      (s\<lparr>ring := (ring s)\<lparr>sp_head := he + 1\<rparr>, got := got s @ [v]\<rparr>))"
proof -
  let ?n = "length (sent s)" and ?h = "length (got s)" and ?c = "unat (sp_capacity (ring s))"
  let ?s = "s\<lparr>ring := (ring s)\<lparr>sp_head := he + 1\<rparr>, got := got s @ [v]\<rparr>"
  let ?s' = "goto t (CDrop (Some v)) ?s"
  note old = conc_okD [OF ok]
  have loc: "he = sp_head (ring s)" "?h < ?n" "v = sent s ! ?h"
    using old(5) [of t] pc by (simp_all add: published_def)
  have cap: "?h < ?h + ?c" using cap_pos [OF ok] by simp
  have "taking s" using taking_owner [OF old(3), of t] pc by simp
  then have gone: "sp_slots (ring s) ! (?h mod ?c) = None"
    using slots_okD(1) [OF old(4) le_refl cap loc(2)] by simp
  have storing: "storing ?s' = storing s"
    by (rule storing_same [of _ _ t "CDrop (Some v)"]) (simp_all add: pc)
  have taking: "\<not> taking ?s'"
    using taking_owner_upd [OF old(3), of t ?s' "CDrop (Some v)"] pc by simp
  show "conc_ok ?s'"
  proof (rule conc_ok_goto)
    show "slots_ok ?s'"
    proof (rule slots_okI, unfold storing, goal_cases)
      case (1 k)
      with old(2) have "k < ?h + ?c" by (simp add: counters_ok_def)
      with 1 show ?case using slots_okD(1) [OF old(4), of k] taking by simp
    next
      case (2 k)
      then show ?case
        using slots_okD(2) [OF old(4), of k] gone by (cases "k = ?h + ?c") simp_all
    qed
    show "counters_ok ?s"
      using old(2) loc by (auto simp: counters_ok_def take_Suc_conv_app_nth)
    fix u assume "u \<noteq> t"
    then have "\<not> in_take (pcs s u)" using take_unique [OF old(3), of t u] pc by auto
    then show "local_ok ?s (pcs ?s u)"
      using old(5) [of u] by (cases "pcs s u") (auto simp: has_room_def spsc_is_closed_def)
  next
    show "gates_ok ?s'"
      using old(3) by (rule gates_ok_same [of s _ t "CDrop (Some v)"]) (simp_all add: pc)
  qed (use old(1) in \<open>simp_all add: shape_ok_def\<close>)
qed

text \<open>The producer's fullness test and the consumer's emptiness test read the cursors right.\<close>

lemma cap_lt: "conc_ok s \<Longrightarrow> unat (sp_capacity (ring s)) < 2 ^ 64"
  using unsigned_less [of "sp_capacity (ring s)"] by simp

lemma full_test:
  assumes "conc_ok s"
  shows "sp_tail (ring s) - sp_head (ring s) \<ge> sp_capacity (ring s) \<longleftrightarrow> \<not> has_room s"
proof -
  let ?n = "length (sent s)" and ?h = "length (got s)"
  have c: "sp_tail (ring s) = of_nat ?n" "sp_head (ring s) = of_nat ?h" "?h \<le> ?n"
      "?n - ?h < 2 ^ 64"
    using conc_okD(2) [OF assms] cap_lt [OF assms] by (auto simp: counters_ok_def)
  have "sp_tail (ring s) - sp_head (ring s) = of_nat (?n - ?h)"
    using c(1-3) by (simp add: of_nat_diff)
  moreover have "unat (of_nat (?n - ?h) :: u64) = ?n - ?h"
    using c(4) by (simp only: unat_of_nat) simp
  ultimately have "unat (sp_tail (ring s) - sp_head (ring s)) = ?n - ?h"
    by simp
  then show ?thesis
    using c(3) by (auto simp: word_le_nat_alt has_room_def)
qed

lemma empty_test:
  assumes "conc_ok s"
  shows "sp_head (ring s) = sp_tail (ring s) \<longleftrightarrow> \<not> published s"
proof
  let ?n = "length (sent s)" and ?h = "length (got s)"
  have c: "sp_tail (ring s) = of_nat ?n" "sp_head (ring s) = of_nat ?h" "?h \<le> ?n"
      "?n - ?h < 2 ^ 64"
    using conc_okD(2) [OF assms] cap_lt [OF assms] by (auto simp: counters_ok_def)
  {
    assume "sp_head (ring s) = sp_tail (ring s)"
    then have "(of_nat (?n - ?h) :: u64) = 0" using c(1-3) by (simp add: of_nat_diff)
    then have "unat (of_nat (?n - ?h) :: u64) = 0" by simp
    then have "?n - ?h = 0" using c(4) by (simp only: unat_of_nat) simp
    then show "\<not> published s" by (simp add: published_def)
  }
  assume "\<not> published s"
  with c show "sp_head (ring s) = sp_tail (ring s)" by (simp add: published_def)
qed

lemma cas_zero:
  assumes "conc_ok s" and "sp_state (ring s) = 0"
  shows "gate s = None" and "\<not> spsc_is_closed (ring s)"
  using assms by (auto simp: conc_ok_def gates_ok_def spsc_is_closed_def split: if_splits)

lemma step_ok: "spsc_step s s' \<Longrightarrow> conc_ok s \<Longrightarrow> conc_ok s'"
proof (induction rule: spsc_step.induct)
  case (load_state s t m)
  note ok = conc_okD [OF load_state(2)]
  show ?case
    using load_state ok(3) by (intro quiet_step) (auto simp: gates_ok_def state_bits split: if_splits)
next
  case (cas_won s t m st)
  then have z: "sp_state (ring s) = 0" "st = 0" using conc_okD(5) [OF cas_won(3), of t] by simp_all
  note zero = cas_zero [OF cas_won(3) z(1)]
  have "spsc_is_closed (ring s\<lparr>sp_state := st OR STATE_PRODUCER_HELD\<rparr>) = spsc_is_closed (ring s)"
    using zero z by (simp add: spsc_is_closed_def state_bits)
  then show ?case
    using cas_won zero z by (intro gate_step) (simp_all add: state_bits)
next
  case (drop_producer s t r)
  note ok = conc_okD [OF drop_producer(2)]
  have op: "\<not> spsc_is_closed (ring s)" "gate s = Some t"
    using drop_producer(1) ok(3) ok(5) [of t] by (auto simp: gates_ok_def)
  then have "sp_state (ring s) = 2" using open_state [OF ok(3)] by simp
  with drop_producer op show ?case by (intro gate_step) (auto simp: spsc_is_closed_def)
next
  case (close_won s t st)
  then have z: "sp_state (ring s) = 0" "st = 0" using conc_okD(5) [OF close_won(3), of t] by simp_all
  note zero = cas_zero [OF close_won(3) z(1)]
  show ?case
    using close_won zero z by (intro gate_step) (simp_all add: state_bits spsc_is_closed_def)
next
  case (drop_closer s t)
  note ok = conc_okD [OF drop_closer(2)]
  have op: "spsc_is_closed (ring s)" "gate s = Some t"
    using drop_closer(1) ok(3) ok(5) [of t] by (auto simp: gates_ok_def)
  then have "sp_state (ring s) = 3" using shut_state [OF ok(3)] by simp
  with drop_closer op show ?case
    by (intro gate_step) (auto simp: spsc_is_closed_def STATE_CLOSED_def)
next
  case (claim_won s t)
  then show ?case
    using conc_okD(3) [OF claim_won(3)] by (intro taker_step) (auto simp: gates_ok_def)
next
  case (drop_consumer s t r)
  then have "taker s = Some t" using conc_okD(3) [OF drop_consumer(2)] by (auto simp: gates_ok_def)
  with drop_consumer show ?case by (intro taker_step) auto
next
  case (load_head s t m ta)
  then show ?case
    using conc_okD(5) [OF load_head(2), of t] full_test [OF load_head(2)]
    by (intro quiet_step) auto
next
  case (take_tail s t he)
  then show ?case
    using conc_okD(5) [OF take_tail(2), of t] empty_test [OF take_tail(2)]
    by (intro quiet_step) auto
next
  case (write_slot s t m ta)
  then show ?case using write_step [OF write_slot(2,1)] by simp
next
  case (read_slot s t he)
  then show ?case using take_step [OF read_slot(2,1)] by simp
next
  case (store_tail s t m ta)
  then show ?case by (intro publish_step)
next
  case (store_head s t he v)
  then show ?case by (intro retire_step)
next
  case (close_load s t)
  note ok = conc_okD [OF close_load(2)]
  show ?case
    using close_load ok(3) by (intro quiet_step)
      (auto simp: gates_ok_def spsc_is_closed_def state_bits split: if_splits)
next
  case (load_tail s t m)
  then show ?case using conc_okD(5) [OF load_tail(2), of t] by (intro quiet_step) simp_all
qed (rule quiet_step; auto)+

lemma new_ok: "spsc_new cap = Some q \<Longrightarrow> conc_ok (conc_init q)"
  by (auto simp: conc_ok_def conc_init_def shape_ok_def counters_ok_def gates_ok_def slots_ok_def
      Let_def spsc_new_def power_of_two_pos split: if_splits)

lemma reach_ok: "spsc_new cap = Some q \<Longrightarrow> spsc_reach q s \<Longrightarrow> conc_ok s"
  by (rotate_tac 1, induction rule: spsc_reach.induct) (auto intro: new_ok step_ok)

lemma step_publishes:
  assumes "conc_ok s" and "spsc_is_closed (ring s)" and "spsc_step s s'"
  shows "spsc_is_closed (ring s') \<and> sent s' = sent s"
proof -
  have "\<not> spsc_is_closed (ring s)" if "pcs s t = PStore m ta" for t m ta
    using conc_okD(5) [OF assms(1), of t] that by simp
  with assms(3) show ?thesis
    using assms(2) conc_okD(5) [OF assms(1)] shut_state [OF conc_okD(3) [OF assms(1)]]
    by cases (auto simp: spsc_is_closed_def state_bits split: option.splits if_splits)
qed

section \<open>A sample run\<close>

text \<open>Thread 0 sends a message through a mailbox of capacity one and leaves the gate.\<close>

lemma sample_send:
  assumes "spsc_new 1 = Some q"
  shows "\<exists>s. spsc_reach q s \<and> sent s = [m] \<and> got s = [] \<and> sp_state (ring s) = 0 \<and> pcs s = (\<lambda>_. Idle)"
proof -
  let ?q = "\<lparr>sp_capacity = 1, sp_slot_mask = 0, sp_slots = [None], sp_head = 0, sp_tail = 0,
    sp_state = 0, sp_consumer_active = False\<rparr> :: 'a spsc"
  have q: "q = ?q" using assms by (simp add: spsc_new_def split: if_splits)
  let ?st = "\<lambda>p r g sn. \<lparr>ring = r, pcs = (\<lambda>_. Idle)(0 := p), gate = g, taker = None, sent = sn, got = []\<rparr> :: 'a conc"
  let ?h = "?q\<lparr>sp_state := 2\<rparr>"
  have idx: "slot_index 0 0 = 0" by (simp add: slot_index_def)
  have "spsc_reach q (?st (PLoad m) ?q None [])"
    using reach_step [OF reach_init call_send [of "conc_init q" 0 m]] by (simp add: conc_init_def q)
  from reach_step [OF this load_state [of _ 0 m]]
  have "spsc_reach q (?st (PCas m 0) ?q None [])" by simp
  from reach_step [OF this cas_won [of _ 0 m 0]]
  have "spsc_reach q (?st (PTail m) ?h (Some 0) [])" by (simp add: state_bits)
  from reach_step [OF this load_tail [of _ 0 m]]
  have "spsc_reach q (?st (PHead m 0) ?h (Some 0) [])" by simp
  from reach_step [OF this load_head [of _ 0 m 0]]
  have "spsc_reach q (?st (PWrite m 0) ?h (Some 0) [])" by simp
  from reach_step [OF this write_slot [of _ 0 m 0]]
  have "spsc_reach q (?st (PStore m 0) (?h\<lparr>sp_slots := [Some m]\<rparr>) (Some 0) [])" by (simp add: idx)
  from reach_step [OF this store_tail [of _ 0 m 0]]
  have "spsc_reach q (?st (PDrop (Inr ())) (?h\<lparr>sp_slots := [Some m], sp_tail := 1\<rparr>) (Some 0) [m])"
    by simp
  from reach_step [OF this drop_producer [of _ 0 "Inr ()"]]
  have "spsc_reach q (?st (PDone (Inr ())) (?q\<lparr>sp_slots := [Some m], sp_tail := 1\<rparr>) None [m])"
    by simp
  from reach_step [OF this return [of _ 0 "Inr ()" None]]
  have "spsc_reach q (?st Idle (?q\<lparr>sp_slots := [Some m], sp_tail := 1\<rparr>) None [m])" by simp
  moreover have "pcs (?st Idle r g sn) = (\<lambda>_. Idle)" for r g sn by (simp add: fun_eq_iff)
  ultimately show ?thesis by (intro exI conjI) (assumption | simp)+
qed

lemma sample_close:
  assumes "spsc_reach q s" and "sp_state (ring s) = 0" and "pcs s t = Idle"
  shows "\<exists>s'. spsc_reach q s' \<and> pcs s' t = XDone \<and> sent s' = sent s"
proof -
  have "spsc_reach q (goto t XLoad s)"
    using reach_step [OF assms(1) call_close] assms(3) by blast
  from reach_step [OF this close_load [of _ t]]
  have "spsc_reach q (goto t (XCas 0) s)" using assms(2) by simp
  from reach_step [OF this close_won [of _ t 0]]
  have "spsc_reach q (goto t XDrop (set_state 3 s\<lparr>gate := Some t\<rparr>))"
    using assms(2) by (simp add: state_bits)
  from reach_step [OF this drop_closer [of _ t]]
  show ?thesis by (intro exI conjI) (assumption | simp)+
qed

section \<open>What every interleaving guarantees\<close>

text \<open>
  (C1) No interleaving of producers, consumers and closers over a fresh mailbox performs an
  undefined access. No thread ever reads a slot that holds no value or writes over a slot that
  holds an unread one; at most one thread is about to write and at most one about to read, and
  these two are never on the same slot.
\<close>

theorem spsc_slots_race_free:
  assumes "spsc_new cap = Some q" and "spsc_reach q s"
  shows "pcs s t \<noteq> Fault
    \<and> (pcs s t = PWrite m ta \<and> pcs s u = PWrite m' ta' \<longrightarrow> t = u)
    \<and> (pcs s t = CRead he \<and> pcs s u = CRead he' \<longrightarrow> t = u)
    \<and> (pcs s t = PWrite m ta \<and> pcs s u = CRead he \<longrightarrow> slot_of s ta \<noteq> slot_of s he)"
proof (intro conjI impI)
  note ok = reach_ok [OF assms]
  note old = conc_okD [OF ok]
  show "pcs s t \<noteq> Fault" using old(5) [of t] by auto
  show "t = u" if "pcs s t = PWrite m ta \<and> pcs s u = PWrite m' ta'"
    using gate_unique [OF old(3), of u t] that by simp
  show "t = u" if "pcs s t = CRead he \<and> pcs s u = CRead he'"
    using take_unique [OF old(3), of u t] that by simp
  assume "pcs s t = PWrite m ta \<and> pcs s u = CRead he"
  then have "ta = sp_tail (ring s)" "he = sp_head (ring s)" "published s" "has_room s"
    using old(5) [of t] old(5) [of u] by auto
  then show "slot_of s ta \<noteq> slot_of s he"
    using cursor_slots [OF ok]
      slot_distinct [of "length (got s)" "length (sent s)" "unat (sp_capacity (ring s))" "length (got s)"]
    by (simp add: has_room_def published_def)
qed

theorem spsc_slots_race_free_witness:
  "\<exists>q s. spsc_new 1 = Some q \<and> spsc_reach q s \<and> sent s = [7::nat] \<and> (\<forall>t. pcs s t \<noteq> Fault)"
proof -
  obtain q :: "nat spsc" where q: "spsc_new 1 = Some q" using spsc_new_one by blast
  obtain s where "spsc_reach q s" "sent s = [7]" using sample_send [OF q, of 7] by blast
  with q spsc_slots_race_free [OF q] show ?thesis by blast
qed

text \<open>
  (C3) Every interleaving delivers in FIFO order, exactly once, within the capacity: the messages
  consumers have taken are the oldest of the published ones, in publication order, and at
  most \<open>capacity\<close> published messages are waiting.
\<close>

theorem spsc_interleaved_fifo:
  assumes "spsc_new cap = Some q" and "spsc_reach q s"
  shows "\<exists>waiting. sent s = got s @ waiting \<and> length waiting \<le> unat (sp_capacity (ring s))"
proof -
  have "counters_ok s" using conc_okD(2) [OF reach_ok [OF assms]] .
  then show ?thesis
    unfolding counters_ok_def by (intro exI [of _ "drop (length (got s)) (sent s)"])
      (metis append_take_drop_id diff_le_self length_drop le_diff_conv add.commute)
qed

theorem spsc_interleaved_fifo_witness:
  "\<exists>q s. spsc_new 1 = Some q \<and> spsc_reach q s \<and> sent s = [7::nat]
    \<and> (\<exists>waiting. sent s = got s @ waiting \<and> length waiting \<le> unat (sp_capacity (ring s)))"
proof -
  obtain q :: "nat spsc" where q: "spsc_new 1 = Some q" using spsc_new_one by blast
  obtain s where "spsc_reach q s" "sent s = [7]" using sample_send [OF q, of 7] by blast
  with q spsc_interleaved_fifo [OF q] show ?thesis by blast
qed

text \<open>
  (C2) \<open>close\<close> linearises: once some \<open>close\<close> call has returned (or has only set the closed bit),
  no send that was still running and no later one publishes a message, in any continuation.
\<close>

theorem spsc_close_linearises:
  assumes "spsc_new cap = Some q" and "spsc_reach q s"
    and "pcs s t = XDone \<or> spsc_is_closed (ring s)" and "spsc_step\<^sup>*\<^sup>* s s'"
  shows "sent s' = sent s \<and> spsc_is_closed (ring s')"
proof -
  have ok: "conc_ok s" using reach_ok [OF assms(1,2)] .
  have "spsc_is_closed (ring s)" using assms(3) conc_okD(5) [OF ok, of t] by auto
  with assms(4) have "sent s' = sent s \<and> spsc_is_closed (ring s') \<and> conc_ok s'"
  proof (induction rule: rtranclp_induct)
    case (step s1 s2)
    then show ?case using step_publishes [of s1 s2] step_ok [of s1 s2] by auto
  qed (use ok in simp)
  then show ?thesis by simp
qed

theorem spsc_close_linearises_witness:
  "\<exists>q s. spsc_new 1 = Some q \<and> spsc_reach q s \<and> pcs s 1 = XDone \<and> sent s = [7::nat]
    \<and> (\<forall>s'. spsc_step\<^sup>*\<^sup>* s s' \<longrightarrow> sent s' = [7])"
proof -
  obtain q :: "nat spsc" where q: "spsc_new 1 = Some q" using spsc_new_one by blast
  obtain s0 where "spsc_reach q s0" "sent s0 = [7]" "sp_state (ring s0) = 0" "pcs s0 1 = Idle"
    using sample_send [OF q, of 7] by auto
  then obtain s where s: "spsc_reach q s" "pcs s 1 = XDone" "sent s = [7]"
    using sample_close [of q s0 1] by auto
  have "sent s' = [7]" if "spsc_step\<^sup>*\<^sup>* s s'" for s'
    using spsc_close_linearises [OF q s(1) disjI1 [OF s(2)] that] s(3) by simp
  with q s show ?thesis by blast
qed

end
