(* ===== verification/Sync_Codec.thy ===== *)
theory Sync_Codec
  imports Tina_Prelude
begin

text \<open>
  The sync-codec contract and its driver, \<open>tina-codec/src/lib.rs\<close>. A codec is given by its two
  methods, \<open>feed\<close> and \<open>next_frame\<close>, as functions on its state. \<open>decode_chunk\<close> is the driver
  that alternates them over one transport read; it is a loop that a bad codec can keep from
  ending, so it is a partial function whose \<open>None\<close> means that it does not return.

  The locale \<open>sync_codec\<close> states what a codec promises. For every codec that keeps the promise
  the driver returns, never trips its assertion, and decodes a byte stream to the same frames
  however the transport cuts it into reads.
\<close>

section \<open>Data\<close>

datatype ('f, 'm) frame_decision = NeedMore | Frame 'f | Malformed 'm | Full

datatype 'm decode_status = StNeedMore | StMalformed 'm | StFull

text \<open>The driver either returns a status or fails its assertion on \<open>feed\<close>.\<close>

datatype 'm decode_result = Finished "'m decode_status" | FeedPanic

type_synonym 'c feed_fn = "bytes \<Rightarrow> 'c \<Rightarrow> nat \<times> 'c"
type_synonym ('f, 'm, 'c) next_fn = "'c \<Rightarrow> ('f, 'm) frame_decision \<times> 'c"
type_synonym ('f, 'm, 'c) decoded = "'f list \<times> 'm decode_result \<times> 'c"

fun is_need_more :: "('f, 'm) frame_decision \<Rightarrow> bool" where
  "is_need_more NeedMore = True"
| "is_need_more _ = False"

fun is_frame :: "('f, 'm) frame_decision \<Rightarrow> bool" where
  "is_frame (Frame _) = True"
| "is_frame _ = False"

fun is_malformed :: "('f, 'm) frame_decision \<Rightarrow> bool" where
  "is_malformed (Malformed _) = True"
| "is_malformed _ = False"

fun is_full :: "('f, 'm) frame_decision \<Rightarrow> bool" where
  "is_full Full = True"
| "is_full _ = False"

section \<open>The driver\<close>

text \<open>The frames passed to \<open>on_frame\<close>, in order, with the status and the codec left behind.\<close>

partial_function (option) decode_chunk ::
    "'c feed_fn \<Rightarrow> ('f, 'm, 'c) next_fn \<Rightarrow> 'c \<Rightarrow> bytes \<Rightarrow> ('f, 'm, 'c) decoded option" where
  "decode_chunk feed next_frame codec bs =
     (case next_frame codec of
        (Frame f, codec') \<Rightarrow>
          Option.bind (decode_chunk feed next_frame codec' bs)
            (\<lambda>(fs, st, c). Some (f # fs, st, c))
      | (Malformed r, codec') \<Rightarrow> Some ([], Finished (StMalformed r), codec')
      | (Full, codec') \<Rightarrow> Some ([], Finished StFull, codec')
      | (NeedMore, codec') \<Rightarrow>
          if bs = [] then Some ([], Finished StNeedMore, codec')
          else case feed bs codec' of (consumed, codec'') \<Rightarrow>
            if consumed > 0 \<and> consumed \<le> length bs
            then decode_chunk feed next_frame codec'' (drop consumed bs)
            else Some ([], FeedPanic, codec''))"

declare decode_chunk.simps [code]

text \<open>A connection: one \<open>decode_chunk\<close> per transport read, until a status ends the stream.\<close>

fun decode_reads ::
    "'c feed_fn \<Rightarrow> ('f, 'm, 'c) next_fn \<Rightarrow> 'c \<Rightarrow> bytes list \<Rightarrow> ('f, 'm, 'c) decoded option" where
  "decode_reads feed next_frame codec [] = Some ([], Finished StNeedMore, codec)"
| "decode_reads feed next_frame codec (r # rs) =
     (case decode_chunk feed next_frame codec r of
        None \<Rightarrow> None
      | Some (fs, Finished StNeedMore, codec') \<Rightarrow>
          (case decode_reads feed next_frame codec' rs of
             None \<Rightarrow> None
           | Some (fs', st, c) \<Rightarrow> Some (fs @ fs', st, c))
      | Some other \<Rightarrow> Some other)"

text \<open>
  What the connection observes of a decoding: the frames and the status, and the codec only
  while the stream can go on.
\<close>

fun observed :: "('f, 'm, 'c) decoded \<Rightarrow> 'f list \<times> 'm decode_result \<times> 'c option" where
  "observed (fs, st, c) = (fs, st, if st = Finished StNeedMore then Some c else None)"

definition prepend :: "'f list \<Rightarrow> ('f, 'm, 'c) decoded option \<Rightarrow> ('f, 'm, 'c) decoded option" where
  "prepend fs = map_option (\<lambda>(gs, st, c). (fs @ gs, st, c))"

abbreviation obs ::
    "('f, 'm, 'c) decoded option \<Rightarrow> ('f list \<times> 'm decode_result \<times> 'c option) option" where
  "obs \<equiv> map_option observed"

lemma prepend_simps [simp]:
  "prepend fs None = None" "prepend fs (Some (gs, st, c)) = Some (fs @ gs, st, c)"
  "prepend [] r = r" "prepend fs (prepend gs r) = prepend (fs @ gs) r"
  by (cases r; auto simp: prepend_def)+

lemma obs_prepend: "obs r = obs r' \<Longrightarrow> obs (prepend fs r) = obs (prepend fs r')"
  by (cases r; cases r') (auto split: if_splits)

lemma obs_some:
  "obs r = Some (fs, Finished StNeedMore, Some c) \<longleftrightarrow> r = Some (fs, Finished StNeedMore, c)"
  "st \<noteq> Finished StNeedMore \<Longrightarrow> obs r = Some (fs, st, None) \<longleftrightarrow> (\<exists>c. r = Some (fs, st, c))"
  by (cases r; force split: if_splits)+

lemma reads_cons:
  "decode_reads feed nxt c (r # rs) =
     (case decode_chunk feed nxt c r of
        Some (fs, Finished StNeedMore, c') \<Rightarrow> prepend fs (decode_reads feed nxt c' rs)
      | other \<Rightarrow> other)"
  by (auto simp: prepend_def split: option.splits decode_result.splits decode_status.splits)

declare decode_reads.simps(2) [simp del]

lemma reads_append:
  "decode_reads feed nxt c (rs @ rs') =
     (case decode_reads feed nxt c rs of
        Some (fs, Finished StNeedMore, c') \<Rightarrow> prepend fs (decode_reads feed nxt c' rs')
      | other \<Rightarrow> other)"
proof (induction rs arbitrary: c)
  case Nil
  then show ?case by simp
next
  case (Cons r rs)
  then show ?case
    by (auto simp: reads_cons
        split: option.splits decode_result.splits decode_status.splits)
qed

lemma reads_single: "decode_reads feed nxt c [r] = decode_chunk feed nxt c r"
  by (auto simp: reads_cons split: option.splits decode_result.splits decode_status.splits)

section \<open>The contract\<close>

text \<open>
  \<open>held\<close> is what the codec has buffered. The law \<open>split\<close> says that feeding a chunk is feeding
  its first byte and then the rest, except that a byte which already decides the stream may be
  noticed only after the bytes fed with it.
\<close>

locale sync_codec =
  fixes feed :: "'c feed_fn"
    and next_frame :: "('f, 'm, 'c) next_fn"
    and invar :: "'c \<Rightarrow> bool"
    and held :: "'c \<Rightarrow> nat"
  assumes next_invar: "invar c \<Longrightarrow> next_frame c = (d, c') \<Longrightarrow> invar c'"
    and next_idem: "invar c \<Longrightarrow> next_frame c = (NeedMore, c') \<Longrightarrow> next_frame c' = (NeedMore, c')"
    and next_less: "invar c \<Longrightarrow> next_frame c = (Frame f, c') \<Longrightarrow> held c' < held c"
    and feed_invar: "invar c \<Longrightarrow> invar (snd (feed bs c))"
    and feed_some: "invar c \<Longrightarrow> next_frame c = (NeedMore, c) \<Longrightarrow> bs \<noteq> [] \<Longrightarrow>
      0 < fst (feed bs c) \<and> fst (feed bs c) \<le> length bs"
    and split: "invar c \<Longrightarrow> next_frame c = (NeedMore, c) \<Longrightarrow> feed (b # bs) c = (k, c') \<Longrightarrow>
      \<exists>c1. feed [b] c = (1, c1) \<and>
        (k = 1 \<and> c' = c1
         \<or> next_frame c1 = (NeedMore, c1) \<and> bs \<noteq> [] \<and> feed bs c1 = (k - 1, c')
         \<or> \<not> is_need_more (fst (next_frame c1)) \<and> \<not> is_frame (fst (next_frame c1))
           \<and> fst (next_frame c') = fst (next_frame c1))"
begin

abbreviation chunk :: "'c \<Rightarrow> bytes \<Rightarrow> ('f, 'm, 'c) decoded option" where
  "chunk \<equiv> decode_chunk feed next_frame"

abbreviation reads :: "'c \<Rightarrow> bytes list \<Rightarrow> ('f, 'm, 'c) decoded option" where
  "reads \<equiv> decode_reads feed next_frame"

text \<open>One turn of the loop for each decision.\<close>

lemma chunk_frame:
  "next_frame c = (Frame f, c') \<Longrightarrow>
    chunk c bs = Option.bind (chunk c' bs) (\<lambda>(fs, st, c). Some (f # fs, st, c))"
  by (subst decode_chunk.simps) simp

lemma chunk_malformed:
  "next_frame c = (Malformed r, c') \<Longrightarrow> chunk c bs = Some ([], Finished (StMalformed r), c')"
  by (subst decode_chunk.simps) simp

lemma chunk_full: "next_frame c = (Full, c') \<Longrightarrow> chunk c bs = Some ([], Finished StFull, c')"
  by (subst decode_chunk.simps) simp

lemma chunk_nil: "next_frame c = (NeedMore, c') \<Longrightarrow> chunk c [] = Some ([], Finished StNeedMore, c')"
  by (subst decode_chunk.simps) simp

lemma chunk_feed:
  assumes "invar c" and "next_frame c = (NeedMore, c')" and "bs \<noteq> []" and "feed bs c' = (k, c'')"
  shows "chunk c bs = chunk c'' (drop k bs)"
proof -
  have "invar c'" using next_invar assms by blast
  then have "0 < k \<and> k \<le> length bs"
    using feed_some [OF _ next_idem [OF assms(1,2)] assms(3)] assms(4) by simp
  with assms show ?thesis by (subst decode_chunk.simps) simp
qed

text \<open>The driver returns, with no assertion failure, in a state that keeps the invariant.\<close>

lemma chunk_returns:
  "invar c \<Longrightarrow> \<exists>fs st c'. chunk c bs = Some (fs, Finished st, c') \<and> invar c'
     \<and> (st = StNeedMore \<longrightarrow> next_frame c' = (NeedMore, c'))"
proof (induction "(length bs, held c)" arbitrary: bs c rule: wf_induct_rule [OF wf_lex_prod [OF wf_less wf_less]])
  case (1 bs c)
  obtain d c' where n: "next_frame c = (d, c')" by fastforce
  have inv': "invar c'" using next_invar [OF "1.prems" n] .
  show ?case
  proof (cases d)
    case NeedMore
    show ?thesis
    proof (cases "bs = []")
      case True
      then show ?thesis
        using chunk_nil [of c c'] n NeedMore inv' next_idem [OF "1.prems"] by simp
    next
      case False
      obtain k c'' where f: "feed bs c' = (k, c'')" by fastforce
      have k: "0 < k" "k \<le> length bs"
        using feed_some [OF inv' next_idem False] "1.prems" n NeedMore f by auto
      have "invar c''" using feed_invar [OF inv', of bs] f by simp
      then have "\<exists>fs st c'. chunk c'' (drop k bs) = Some (fs, Finished st, c') \<and> invar c'
          \<and> (st = StNeedMore \<longrightarrow> next_frame c' = (NeedMore, c'))"
        using k False "1.hyps" [of "drop k bs" c''] by simp
      then show ?thesis using chunk_feed [OF "1.prems" _ False f] n NeedMore by simp
    qed
  next
    case (Frame f)
    have "\<exists>fs st c''. chunk c' bs = Some (fs, Finished st, c'') \<and> invar c''
        \<and> (st = StNeedMore \<longrightarrow> next_frame c'' = (NeedMore, c''))"
      using next_less [OF "1.prems"] n Frame inv' "1.hyps" [of bs c'] by simp
    then show ?thesis using chunk_frame n Frame by fastforce
  next
    case (Malformed r)
    then show ?thesis using n inv' chunk_malformed [of c r c' bs] by simp
  next
    case Full
    then show ?thesis using n inv' chunk_full [of c c' bs] by simp
  qed
qed

text \<open>
  Decoding one byte at a time, after the frames the codec already holds. Every way of cutting
  the stream is compared with this one.
\<close>

abbreviation bytewise :: "'c \<Rightarrow> bytes \<Rightarrow> ('f, 'm, 'c) decoded option" where
  "bytewise c bs \<equiv> reads c ([] # map (\<lambda>b. [b]) bs)"

lemma bytewise_frame:
  assumes "next_frame c = (Frame f, c')"
  shows "bytewise c bs = prepend [f] (bytewise c' bs)"
  by (cases "chunk c' []")
    (auto simp: reads_cons chunk_frame [OF assms]
      split: option.splits decode_result.splits decode_status.splits)

lemma bytewise_settled: "next_frame c = (NeedMore, c) \<Longrightarrow> bytewise c bs = reads c (map (\<lambda>b. [b]) bs)"
  by (simp add: reads_cons chunk_nil)

lemma bytewise_stop:
  "next_frame c = (Malformed r, c') \<Longrightarrow> bytewise c bs = Some ([], Finished (StMalformed r), c')"
  "next_frame c = (Full, c') \<Longrightarrow> bytewise c bs = Some ([], Finished StFull, c')"
  by (simp_all add: reads_cons chunk_malformed chunk_full)

lemma bytewise_byte:
  assumes "invar c" and "next_frame c = (NeedMore, c)" and "feed [b] c = (1, c1)"
  shows "bytewise c (b # bs) = bytewise c1 bs"
  using chunk_feed [OF assms(1,2) _ assms(3)] unfolding bytewise_settled [OF assms(2)]
  by (simp add: reads_cons)

lemma bytewise_terminal:
  assumes "\<not> is_need_more (fst (next_frame c))" and "\<not> is_frame (fst (next_frame c))"
    and "fst (next_frame c') = fst (next_frame c)"
  shows "obs (bytewise c bs) = obs (bytewise c' bs')"
proof -
  obtain d e e' where n: "next_frame c = (d, e)" "next_frame c' = (d, e')"
    using assms(3) by (metis prod.collapse)
  show ?thesis
    by (cases d) (use n assms(1,2) in \<open>simp_all add: bytewise_stop\<close>)
qed

lemma bytewise_feed:
  assumes "invar c" and "next_frame c = (NeedMore, c)" and "bs \<noteq> []" and "feed bs c = (k, c')"
  shows "obs (bytewise c bs) = obs (bytewise c' (drop k bs))"
  using assms
proof (induction bs arbitrary: c k)
  case Nil
  then show ?case by simp
next
  case (Cons b bs)
  have k: "0 < k" using feed_some [OF Cons.prems(1,2,3)] Cons.prems(4) by simp
  obtain c1 where c1: "feed [b] c = (1, c1)"
    and alt: "k = 1 \<and> c' = c1 \<or> next_frame c1 = (NeedMore, c1) \<and> bs \<noteq> [] \<and> feed bs c1 = (k - 1, c')
      \<or> \<not> is_need_more (fst (next_frame c1)) \<and> \<not> is_frame (fst (next_frame c1))
        \<and> fst (next_frame c') = fst (next_frame c1)"
    using split [OF Cons.prems(1,2,4)] by blast
  have inv: "invar c1" using feed_invar [OF Cons.prems(1), of "[b]"] c1 by simp
  have step: "bytewise c (b # bs) = bytewise c1 bs"
    by (rule bytewise_byte [OF Cons.prems(1,2) c1])
  have dr: "drop k (b # bs) = drop (k - 1) bs" using k by (cases k) simp_all
  from alt show ?case
  proof (elim disjE conjE)
    assume "next_frame c1 = (NeedMore, c1)" "bs \<noteq> []" "feed bs c1 = (k - 1, c')"
    from Cons.IH [OF inv this] show ?thesis unfolding step dr .
  next
    assume "\<not> is_need_more (fst (next_frame c1))" "\<not> is_frame (fst (next_frame c1))"
      "fst (next_frame c') = fst (next_frame c1)"
    then show ?thesis unfolding step by (rule bytewise_terminal)
  qed (simp only: step dr, simp)
qed

lemma bytewise_need:
  assumes "invar c" and "next_frame c = (NeedMore, c')"
  shows "bytewise c bs = bytewise c' bs"
  by (simp add: reads_cons chunk_nil [OF assms(2)] chunk_nil [OF next_idem [OF assms]])

lemma chunk_bytewise: "invar c \<Longrightarrow> obs (chunk c bs) = obs (bytewise c bs)"
proof (induction "(length bs, held c)" arbitrary: bs c rule: wf_induct_rule [OF wf_lex_prod [OF wf_less wf_less]])
  case (1 bs c)
  obtain d c' where n: "next_frame c = (d, c')" by fastforce
  have inv': "invar c'" using next_invar [OF "1.prems" n] .
  show ?case
  proof (cases d)
    case NeedMore
    note nm = n [unfolded NeedMore]
    note idem = next_idem [OF "1.prems" nm]
    show ?thesis
    proof (cases "bs = []")
      case True
      then show ?thesis using chunk_nil [OF nm] by (simp add: reads_cons)
    next
      case False
      obtain k c'' where f: "feed bs c' = (k, c'')" by fastforce
      have k: "0 < k" "k \<le> length bs" using feed_some [OF inv' idem False] f by simp_all
      have "invar c''" using feed_invar [OF inv', of bs] f by simp
      then have "obs (chunk c'' (drop k bs)) = obs (bytewise c'' (drop k bs))"
        using k False "1.hyps" [of "drop k bs" c''] by simp
      then show ?thesis
        unfolding chunk_feed [OF "1.prems" nm False f] bytewise_need [OF "1.prems" nm]
          bytewise_feed [OF inv' idem False f] .
    qed
  next
    case (Frame f)
    note fr = n [unfolded Frame]
    have "obs (chunk c' bs) = obs (bytewise c' bs)"
      using next_less [OF "1.prems" fr] inv' "1.hyps" [of bs c'] by simp
    moreover have "chunk c bs = prepend [f] (chunk c' bs)"
      unfolding chunk_frame [OF fr] by (cases "chunk c' bs") auto
    ultimately show ?thesis
      unfolding bytewise_frame [OF fr] using obs_prepend by metis
  next
    case (Malformed r)
    then show ?thesis using n chunk_malformed [of c r c'] bytewise_stop(1) [of c r c' bs] by simp
  next
    case Full
    then show ?thesis using n chunk_full [of c c'] bytewise_stop(2) [of c c' bs] by simp
  qed
qed

text \<open>Reads cut in any way decode as their concatenation does byte by byte.\<close>

lemma reads_bytewise: "invar c \<Longrightarrow> obs (reads c (r # rs)) = obs (bytewise c (concat (r # rs)))"
proof (induction rs arbitrary: c r)
  case Nil
  then show ?case by (simp add: reads_single chunk_bytewise)
next
  case (Cons r' rs)
  obtain fs st c' where ch: "chunk c r = Some (fs, Finished st, c')" and inv: "invar c'"
    and idle: "st = StNeedMore \<Longrightarrow> next_frame c' = (NeedMore, c')"
    using chunk_returns [OF Cons.prems] by blast
  have split: "bytewise c (concat (r # r' # rs)) =
      (case bytewise c r of
         Some (fs, Finished StNeedMore, c') \<Rightarrow> prepend fs (reads c' (map (\<lambda>b. [b]) (concat (r' # rs))))
       | other \<Rightarrow> other)"
    using reads_append [of feed next_frame c "[] # map (\<lambda>b. [b]) r" "map (\<lambda>b. [b]) (concat (r' # rs))"]
    by simp
  show ?case
  proof (cases "st = StNeedMore")
    case True
    with ch have "obs (bytewise c r) = Some (fs, Finished StNeedMore, Some c')"
      using chunk_bytewise [OF Cons.prems, of r] by simp
    then have bw: "bytewise c r = Some (fs, Finished StNeedMore, c')"
      by (rule obs_some(1) [THEN iffD1])
    have "obs (reads c' (r' # rs)) = obs (bytewise c' (concat (r' # rs)))"
      by (rule Cons.IH [OF inv])
    then have "obs (prepend fs (reads c' (r' # rs)))
        = obs (prepend fs (reads c' (map (\<lambda>b. [b]) (concat (r' # rs)))))"
      unfolding bytewise_settled [OF idle [OF True]] by (rule obs_prepend)
    with ch True bw show ?thesis unfolding split by (simp add: reads_cons [of _ _ c])
  next
    case False
    with ch have "obs (bytewise c r) = Some (fs, Finished st, None)"
      using chunk_bytewise [OF Cons.prems, of r] by simp
    then obtain e where "bytewise c r = Some (fs, Finished st, e)"
      using False obs_some(2) [of "Finished st" "bytewise c r" fs] by blast
    with ch False show ?thesis unfolding split by (cases st) (simp_all add: reads_cons [of _ _ c])
  qed
qed

lemma partition_invariant: "invar c \<Longrightarrow> obs (reads c (r # rs)) = obs (chunk c (concat (r # rs)))"
  using reads_bytewise chunk_bytewise by metis

lemma reads_return:
  assumes "invar c"
  shows "\<exists>fs st c'. reads c rs = Some (fs, Finished st, c') \<and> invar c'"
  using assms
proof (induction rs arbitrary: c)
  case Nil
  then show ?case by simp
next
  case (Cons r rs)
  obtain fs st c' where ch: "chunk c r = Some (fs, Finished st, c')" "invar c'"
    using chunk_returns [OF Cons.prems] by blast
  then show ?case using Cons.IH [OF ch(2)] by (cases st) (auto simp: reads_cons)
qed

end

end
