(* ===== verification/Bytes_Be.thy ===== *)
theory Bytes_Be
  imports Tina_Prelude
begin

text \<open>
  Big-endian integers in byte strings: \<open>from_be_bytes\<close> and \<open>to_be_bytes\<close> of the standard
  library, for the wire formats that use them.
\<close>

fun be_nat :: "bytes \<Rightarrow> nat" where
  "be_nat [] = 0"
| "be_nat (b # bs) = unat b * 256 ^ length bs + be_nat bs"

fun be_digits :: "nat \<Rightarrow> nat \<Rightarrow> bytes" where
  "be_digits 0 x = []"
| "be_digits (Suc n) x = of_nat (x div 256 ^ n) # be_digits n x"

definition from_be_bytes :: "bytes \<Rightarrow> 'a::len word" where
  "from_be_bytes bs = of_nat (be_nat bs)"

definition to_be_bytes :: "'a::len word \<Rightarrow> bytes" where
  "to_be_bytes w = be_digits (LENGTH('a) div 8) (unat w)"

lemma length_be_digits [simp]: "length (be_digits n x) = n"
  by (induction n) auto

lemma be_nat_less: "be_nat bs < 256 ^ length bs"
proof (induction bs)
  case (Cons b bs)
  have "unat b < 2 ^ LENGTH(8)" by (rule unsigned_less)
  then have "unat b \<le> 255" by simp
  then have le: "unat b * 256 ^ length bs \<le> 255 * 256 ^ length bs" by (rule mult_le_mono1)
  have "be_nat (b # bs) < 255 * 256 ^ length bs + 256 ^ length bs"
    unfolding be_nat.simps using le Cons by (rule add_le_less_mono)
  then show ?case by simp
qed simp

lemma be_nat_digits: "be_nat (be_digits n x) = x mod 256 ^ n"
proof (induction n)
  case (Suc n)
  have "unat (of_nat (x div 256 ^ n) :: u8) = (x div 256 ^ n) mod 256"
    by (simp only: unat_of_nat) simp
  moreover have "x mod 256 ^ Suc n = 256 ^ n * (x div 256 ^ n mod 256) + x mod 256 ^ n"
    unfolding power_Suc2 by (rule mod_mult2_eq)
  ultimately show ?case using Suc by (simp add: mult.commute)
qed simp

lemma unat_ucast_up:
  assumes "LENGTH('a) \<le> LENGTH('b)"
  shows "unat (ucast (w :: 'a::len word) :: 'b::len word) = unat w"
proof -
  have "unat w < 2 ^ LENGTH('a)" by (rule unsigned_less)
  also have "\<dots> \<le> 2 ^ LENGTH('b)" using assms by (intro power_increasing) auto
  finally show ?thesis by (simp add: unsigned_ucast_eq take_bit_nat_eq_self)
qed

lemma be_nat_append: "be_nat (xs @ ys) = be_nat xs * 256 ^ length ys + be_nat ys"
  by (induction xs) (auto simp: algebra_simps power_add)

text \<open>Decoding inverts encoding at every width of whole bytes.\<close>

lemma unat_from_be:
  "8 * length bs \<le> LENGTH('a) \<Longrightarrow> unat (from_be_bytes bs :: 'a::len word) = be_nat bs"
proof -
  assume len: "8 * length bs \<le> LENGTH('a)"
  have "be_nat bs < 2 ^ (8 * length bs)" using be_nat_less [of bs] by (simp add: power_mult)
  also have "\<dots> \<le> 2 ^ LENGTH('a)" using len by (intro power_increasing) auto
  finally show ?thesis by (simp add: from_be_bytes_def unat_of_nat)
qed

lemma be_nat_to_be:
  fixes w :: "'a::len word"
  assumes "LENGTH('a) = 8 * n"
  shows "be_nat (to_be_bytes w) = unat w" and "length (to_be_bytes w) = n"
proof -
  have "(256::nat) ^ n = 2 ^ LENGTH('a)"
    unfolding assms power_mult by simp
  then have "unat w mod 256 ^ n = unat w"
    using unsigned_less [of w] by simp
  then show "be_nat (to_be_bytes w) = unat w"
    by (simp add: to_be_bytes_def assms be_nat_digits)
  show "length (to_be_bytes w) = n" by (simp add: to_be_bytes_def assms)
qed

lemma be_nat_inj: "length xs = length ys \<Longrightarrow> be_nat xs = be_nat ys \<Longrightarrow> xs = ys"
proof (induction xs ys rule: list_induct2)
  case (Cons x xs y ys)
  let ?b = "256 ^ length xs :: nat"
  have lt: "be_nat xs < ?b" "be_nat ys < ?b" using be_nat_less Cons.hyps by metis+
  have eq: "unat x * ?b + be_nat xs = unat y * ?b + be_nat ys" using Cons.prems Cons.hyps by simp
  have "(unat x * ?b + be_nat xs) div ?b = unat x" "(unat y * ?b + be_nat ys) div ?b = unat y"
    using lt by simp_all
  then have "unat x = unat y" using eq by simp
  with eq Cons.IH show ?case by (simp add: word_unat_eq_iff)
qed simp

lemma to_be_from_be:
  assumes "LENGTH('a) = 8 * length bs"
  shows "to_be_bytes (from_be_bytes bs :: 'a::len word) = bs"
  by (rule be_nat_inj) (use assms in \<open>simp_all add: be_nat_to_be unat_from_be\<close>)

lemma from_be_to_be:
  fixes w :: "'a::len word"
  assumes "LENGTH('a) = 8 * n"
  shows "from_be_bytes (to_be_bytes w) = w"
  using assms by (simp add: from_be_bytes_def be_nat_to_be)

end
