(* ===== verification/Length_Delimited.thy ===== *)
theory Length_Delimited
  imports Sync_Codec Bytes_Be
begin

text \<open>
  The length-prefixed framer of \<open>tina-codec/src/length_delimited.rs\<close>. It keeps the codec
  contract, so the results on the driver apply; on top of them, it decodes every byte stream as
  the reference definition \<open>ld_spec\<close> does, decodes what \<open>encode_into\<close> wrote, buffers no more than
  its configured bound, and stays at a terminal decision once it has made one.
\<close>

section \<open>Data\<close>

datatype length_prefix = PrefixU8 | PrefixU16 | PrefixU32

datatype malformed_length = UnexpectedEof

record length_delimited_framer =
  ld_prefix :: length_prefix
  ld_max_body_len :: nat
  ld_buffer :: bytes
  ld_expected_body_len :: "nat option"
  ld_overflowed :: bool
  ld_poisoned :: bool

type_synonym ld_decision = "(bytes, malformed_length) frame_decision"

section \<open>Operations\<close>

fun prefix_width :: "length_prefix \<Rightarrow> nat" where
  "prefix_width PrefixU8 = 1"
| "prefix_width PrefixU16 = 2"
| "prefix_width PrefixU32 = 4"

text \<open>Callers pass at least \<open>width\<close> bytes, so the indexing does not panic.\<close>

fun prefix_decode :: "length_prefix \<Rightarrow> bytes \<Rightarrow> u64" where
  "prefix_decode PrefixU8 bs = ucast (bs ! 0)"
| "prefix_decode PrefixU16 bs = ucast (from_be_bytes [bs ! 0, bs ! 1] :: 16 word)"
| "prefix_decode PrefixU32 bs = ucast (from_be_bytes [bs ! 0, bs ! 1, bs ! 2, bs ! 3] :: u32)"

definition decode_length :: "length_prefix \<Rightarrow> bytes \<Rightarrow> u64 option" where
  "decode_length p bs = (if length bs < prefix_width p then None else Some (prefix_decode p bs))"

definition ld_new :: "length_prefix \<Rightarrow> nat \<Rightarrow> length_delimited_framer option" where
  "ld_new p max_body_len =
     (if max_body_len > 0
      then Some \<lparr>ld_prefix = p, ld_max_body_len = max_body_len, ld_buffer = [],
             ld_expected_body_len = None, ld_overflowed = False, ld_poisoned = False\<rparr>
      else None)"

definition ld_feed :: "bytes \<Rightarrow> length_delimited_framer \<Rightarrow> nat \<times> length_delimited_framer" where
  "ld_feed chunk c =
     (if ld_overflowed c \<or> ld_poisoned c then (0, c)
      else if chunk = [] then (0, c)
      else
        let target = (case ld_expected_body_len c of Some n \<Rightarrow> n | None \<Rightarrow> prefix_width (ld_prefix c));
            consumed = min (target - length (ld_buffer c)) (length chunk)
        in (consumed, c\<lparr>ld_buffer := ld_buffer c @ take consumed chunk\<rparr>))"

text \<open>The second half of \<open>next_frame\<close>, once the body length is known.\<close>

definition ld_next_body :: "nat \<Rightarrow> length_delimited_framer \<Rightarrow> ld_decision \<times> length_delimited_framer" where
  "ld_next_body body_len c =
     (if length (ld_buffer c) < body_len
      then (if ld_overflowed c then Full else NeedMore, c)
      else (Frame (ld_buffer c), c\<lparr>ld_buffer := [], ld_expected_body_len := None\<rparr>))"

definition ld_next :: "length_delimited_framer \<Rightarrow> ld_decision \<times> length_delimited_framer" where
  "ld_next c =
     (if ld_poisoned c then (Malformed UnexpectedEof, c)
      else case ld_expected_body_len c of
        Some body_len \<Rightarrow> ld_next_body body_len c
      | None \<Rightarrow>
          let width = prefix_width (ld_prefix c) in
          if length (ld_buffer c) < width
          then (if ld_overflowed c then Full else NeedMore, c)
          else
            let body_len = prefix_decode (ld_prefix c) (take width (ld_buffer c)) in
            if unat body_len > ld_max_body_len c
            then (Full, c\<lparr>ld_overflowed := True, ld_buffer := []\<rparr>)
            else ld_next_body (unat body_len)
                   (c\<lparr>ld_buffer := [], ld_expected_body_len := Some (unat body_len)\<rparr>))"

definition ld_finish :: "length_delimited_framer \<Rightarrow> ld_decision \<times> length_delimited_framer" where
  "ld_finish c =
     (if ld_overflowed c then (Full, c)
      else if ld_poisoned c then (Malformed UnexpectedEof, c)
      else if ld_expected_body_len c = None \<and> ld_buffer c = [] then (NeedMore, c)
      else if ld_expected_body_len c = Some 0 then ld_next c
      else (Malformed UnexpectedEof, c\<lparr>ld_poisoned := True\<rparr>))"

definition ld_buffered :: "length_delimited_framer \<Rightarrow> nat" where
  "ld_buffered c = length (ld_buffer c)"

fun prefix_max :: "length_prefix \<Rightarrow> nat" where
  "prefix_max PrefixU8 = 2 ^ 8 - 1"
| "prefix_max PrefixU16 = 2 ^ 16 - 1"
| "prefix_max PrefixU32 = 2 ^ 32 - 1"

fun prefix_bytes :: "length_prefix \<Rightarrow> nat \<Rightarrow> bytes" where
  "prefix_bytes PrefixU8 n = [of_nat n]"
| "prefix_bytes PrefixU16 n = to_be_bytes (of_nat n :: 16 word)"
| "prefix_bytes PrefixU32 n = to_be_bytes (of_nat n :: u32)"

definition encode_into :: "length_prefix \<Rightarrow> bytes \<Rightarrow> bytes \<Rightarrow> nat option \<times> bytes" where
  "encode_into p body into =
     (if length body > prefix_max p then (None, into)
      else let out = (into @ prefix_bytes p (length body)) @ body
           in (Some (length out - length into), out))"

text \<open>A sender that encodes several frames into one buffer.\<close>

fun encode_all :: "length_prefix \<Rightarrow> bytes list \<Rightarrow> bytes \<Rightarrow> bytes option" where
  "encode_all p [] into = Some into"
| "encode_all p (b # bs) into =
     (case encode_into p b into of (None, _) \<Rightarrow> None | (Some _, into') \<Rightarrow> encode_all p bs into')"

text \<open>A client calls the three methods in any order.\<close>

datatype ld_op = LdFeed bytes | LdNext | LdFinish

fun ld_step :: "ld_op \<Rightarrow> length_delimited_framer \<Rightarrow> length_delimited_framer" where
  "ld_step (LdFeed bs) c = snd (ld_feed bs c)"
| "ld_step LdNext c = snd (ld_next c)"
| "ld_step LdFinish c = snd (ld_finish c)"

section \<open>Reference decoding of a whole stream\<close>

lemma prefix_width_pos [simp]: "0 < prefix_width p"
  by (cases p) auto

lemma prefix_width_ne: "prefix_width p \<le> length bs \<Longrightarrow> bs \<noteq> []"
  by (cases p) auto

lemma prefix_width_shrinks: "\<not> length bs < prefix_width p \<Longrightarrow> length bs - (n + prefix_width p) < length bs"
  using prefix_width_pos [of p] by linarith

function ld_spec :: "length_prefix \<Rightarrow> nat \<Rightarrow> bytes \<Rightarrow> bytes list \<times> malformed_length decode_status" where
  "ld_spec p cap bs =
     (let w = prefix_width p in
      if length bs < w then ([], StNeedMore)
      else
        let n = be_nat (take w bs); rest = drop w bs in
        if n > cap then ([], StFull)
        else if length rest < n then ([], StNeedMore)
        else case ld_spec p cap (drop n rest) of (fs, st) \<Rightarrow> (take n rest # fs, st))"
  by pat_completeness auto
termination
  by (relation "measure (\<lambda>(p, cap, bs). length bs)") (auto simp: prefix_width_shrinks)

declare ld_spec.simps [simp del]

section \<open>The prefix\<close>

lemma take_four: "4 \<le> length bs \<Longrightarrow> take 4 bs = [bs ! 0, bs ! 1, bs ! 2, bs ! 3]"
  by (auto simp: numeral_eq_Suc Suc_le_length_iff)

lemma unat_prefix_decode:
  assumes "prefix_width p \<le> length bs"
  shows "unat (prefix_decode p bs) = be_nat (take (prefix_width p) bs)"
proof (cases p)
  case PrefixU8
  with assms show ?thesis by (cases bs) (auto simp: unat_ucast_up)
next
  case PrefixU16
  with assms have "take 2 bs = [bs ! 0, bs ! 1]" by (auto simp: numeral_eq_Suc Suc_le_length_iff)
  with PrefixU16 show ?thesis using unat_from_be [of "[bs ! 0, bs ! 1]", where 'a = 16]
    by (simp add: unat_ucast_up)
next
  case PrefixU32
  with assms have "take 4 bs = [bs ! 0, bs ! 1, bs ! 2, bs ! 3]" by (intro take_four) simp
  with PrefixU32 show ?thesis
    using unat_from_be [of "[bs ! 0, bs ! 1, bs ! 2, bs ! 3]", where 'a = 32]
    by (simp add: unat_ucast_up)
qed

lemma prefix_bytes_decode:
  assumes "n \<le> prefix_max p"
  shows "length (prefix_bytes p n) = prefix_width p" and "be_nat (prefix_bytes p n) = n"
proof -
  have u16: "length (to_be_bytes (w :: 16 word)) = 2" "be_nat (to_be_bytes w) = unat w" for w
    using be_nat_to_be [where 'a = 16, of 2 w] by simp_all
  have u32: "length (to_be_bytes (w :: u32)) = 4" "be_nat (to_be_bytes w) = unat w" for w
    using be_nat_to_be [where 'a = 32, of 4 w] by simp_all
  show "length (prefix_bytes p n) = prefix_width p" by (cases p) (simp_all add: u16 u32)
  show "be_nat (prefix_bytes p n) = n"
    using assms by (cases p) (simp_all add: u16 u32 unat_of_nat)
qed

section \<open>The invariant and the codec contract\<close>

definition ld_inv :: "length_delimited_framer \<Rightarrow> bool" where
  "ld_inv c \<longleftrightarrow>
     (ld_overflowed c \<longrightarrow> \<not> ld_poisoned c \<and> ld_buffer c = [] \<and> ld_expected_body_len c = None)
     \<and> (case ld_expected_body_len c of
          None \<Rightarrow> length (ld_buffer c) \<le> prefix_width (ld_prefix c)
        | Some n \<Rightarrow> 0 < n \<and> n \<le> ld_max_body_len c \<and> length (ld_buffer c) \<le> n)"

lemmas ld_defs = ld_feed_def ld_next_def ld_next_body_def Let_def

lemma ld_new_inv: "ld_new p cap = Some c \<Longrightarrow> ld_inv c"
  by (auto simp: ld_new_def ld_inv_def split: if_splits)

lemma ld_next_inv: "ld_inv c \<Longrightarrow> ld_next c = (d, c') \<Longrightarrow> ld_inv c'"
  by (auto simp: ld_inv_def ld_defs split: if_splits option.splits)

lemma ld_feed_inv: "ld_inv c \<Longrightarrow> ld_inv (snd (ld_feed bs c))"
  by (auto simp: ld_inv_def ld_defs split: if_splits option.splits)

lemma ld_finish_inv: "ld_inv c \<Longrightarrow> ld_inv (snd (ld_finish c))"
  by (auto simp: ld_finish_def ld_inv_def split: if_splits option.splits)

lemma ld_next_idem: "ld_inv c \<Longrightarrow> ld_next c = (NeedMore, c') \<Longrightarrow> ld_next c' = (NeedMore, c')"
  by (auto simp: ld_inv_def ld_defs split: if_splits option.splits)

lemma ld_next_less: "ld_inv c \<Longrightarrow> ld_next c = (Frame f, c') \<Longrightarrow> length (ld_buffer c') < length (ld_buffer c)"
  by (auto simp: ld_inv_def ld_defs not_less split: if_splits option.splits
      dest: less_le_trans [OF prefix_width_pos])

text \<open>A framer that needs more bytes has room for at least one.\<close>

definition ld_room :: "length_delimited_framer \<Rightarrow> nat" where
  "ld_room c = (case ld_expected_body_len c of Some n \<Rightarrow> n | None \<Rightarrow> prefix_width (ld_prefix c))
     - length (ld_buffer c)"

lemma ld_settled:
  assumes "ld_inv c" and "ld_next c = (NeedMore, c)"
  shows "0 < ld_room c" and "\<not> ld_overflowed c" and "\<not> ld_poisoned c"
proof -
  show np: "\<not> ld_poisoned c" using assms(2) by (auto simp: ld_next_def)
  show no: "\<not> ld_overflowed c"
    using assms np by (auto simp: ld_inv_def ld_defs split: if_splits option.splits)
  show "0 < ld_room c"
  proof (cases "ld_expected_body_len c")
    case None
    show ?thesis
    proof (rule ccontr)
      assume "\<not> 0 < ld_room c"
      with None have "\<not> length (ld_buffer c) < prefix_width (ld_prefix c)" by (simp add: ld_room_def)
      moreover have "ld_buffer c \<noteq> []" using calculation prefix_width_pos [of "ld_prefix c"] by auto
      ultimately show False
        using assms(2) None np
        by (auto simp: ld_defs split: if_splits dest: arg_cong [of _ _ ld_expected_body_len])
    qed
  next
    case (Some n)
    with assms np show ?thesis by (auto simp: ld_room_def ld_defs split: if_splits)
  qed
qed

lemma ld_feed_settled:
  assumes "ld_inv c" and "ld_next c = (NeedMore, c)" and "bs \<noteq> []"
  shows "ld_feed bs c = (min (ld_room c) (length bs),
    c\<lparr>ld_buffer := ld_buffer c @ take (ld_room c) bs\<rparr>)"
  using ld_settled [OF assms(1,2)] assms(3)
  by (auto simp: ld_feed_def Let_def ld_room_def min_def split: option.splits)

lemma ld_next_short:
  assumes "ld_inv c" and "ld_next c = (NeedMore, c)" and "length xs < ld_room c"
  shows "ld_next (c\<lparr>ld_buffer := ld_buffer c @ xs\<rparr>) = (NeedMore, c\<lparr>ld_buffer := ld_buffer c @ xs\<rparr>)"
  using ld_settled [OF assms(1,2)] assms(3)
  by (auto simp: ld_next_def ld_next_body_def ld_room_def Let_def split: option.splits)

interpretation ldc: sync_codec ld_feed ld_next ld_inv ld_buffered
proof unfold_locales
  fix c c' b bs k
  assume c: "ld_inv c" "ld_next c = (NeedMore, c)" and f: "ld_feed (b # bs) c = (k, c')"
  let ?c1 = "c\<lparr>ld_buffer := ld_buffer c @ [b]\<rparr>"
  have room: "0 < ld_room c" "ld_room ?c1 = ld_room c - 1"
    using ld_settled(1) [OF c] by (auto simp: ld_room_def split: option.splits)
  have one: "ld_feed [b] c = (1, ?c1)"
    using ld_feed_settled [OF c, of "[b]"] room by (simp add: take_Cons')
  have inv1: "ld_inv ?c1" using ld_feed_inv [OF c(1), of "[b]"] one by simp
  have kc: "k = min (ld_room c) (Suc (length bs))"
    "c' = c\<lparr>ld_buffer := ld_buffer c @ take (ld_room c) (b # bs)\<rparr>"
    using f ld_feed_settled [OF c, of "b # bs"] by simp_all
  show "\<exists>c1. ld_feed [b] c = (1, c1) \<and> (k = 1 \<and> c' = c1
      \<or> ld_next c1 = (NeedMore, c1) \<and> bs \<noteq> [] \<and> ld_feed bs c1 = (k - 1, c')
      \<or> \<not> is_need_more (fst (ld_next c1)) \<and> \<not> is_frame (fst (ld_next c1))
        \<and> fst (ld_next c') = fst (ld_next c1))"
  proof (cases "ld_room c = 1 \<or> bs = []")
    case True
    with one kc room show ?thesis by (auto simp: take_Cons')
  next
    case False
    with room have n: "ld_next ?c1 = (NeedMore, ?c1)" by (intro ld_next_short [OF c]) simp
    have "ld_feed bs ?c1 = (k - 1, c')"
      using ld_feed_settled [OF inv1 n] False room kc by (cases "ld_room c") (auto simp: take_Cons')
    with one n False show ?thesis by blast
  qed
qed (auto simp: ld_buffered_def ld_feed_settled ld_settled ld_next_idem
      dest: ld_next_inv ld_next_less intro: ld_feed_inv)

section \<open>Equivalence with the reference decoding\<close>

definition ld_idle :: "length_prefix \<Rightarrow> nat \<Rightarrow> length_delimited_framer" where
  "ld_idle p cap = \<lparr>ld_prefix = p, ld_max_body_len = cap, ld_buffer = [],
     ld_expected_body_len = None, ld_overflowed = False, ld_poisoned = False\<rparr>"

lemma ld_idle_facts:
  "ld_inv (ld_idle p cap)" "ld_next (ld_idle p cap) = (NeedMore, ld_idle p cap)"
  "ld_room (ld_idle p cap) = prefix_width p"
  by (simp_all add: ld_inv_def ld_idle_def ld_next_def ld_room_def)

text \<open>With a decoded length, the body is collected and the framer is idle again.\<close>

lemma ld_chunk_body:
  fixes p :: length_prefix
  assumes "0 < n" and "n \<le> cap"
  defines "c \<equiv> (ld_idle p cap)\<lparr>ld_expected_body_len := Some n\<rparr>"
  shows "length bs < n \<Longrightarrow> \<exists>c'. decode_chunk ld_feed ld_next c bs = Some ([], Finished StNeedMore, c')"
    and "n \<le> length bs \<Longrightarrow> decode_chunk ld_feed ld_next c bs
      = prepend [take n bs] (decode_chunk ld_feed ld_next (ld_idle p cap) (drop n bs))"
proof -
  have c: "ld_inv c" "ld_next c = (NeedMore, c)" "ld_room c = n"
    using assms by (simp_all add: c_def ld_inv_def ld_idle_def ld_next_def ld_next_body_def ld_room_def)
  let ?c1 = "c\<lparr>ld_buffer := take n bs\<rparr>"
  have buf: "ld_buffer c = []" by (simp add: c_def ld_idle_def)
  have feed: "decode_chunk ld_feed ld_next c bs = decode_chunk ld_feed ld_next ?c1 (drop n bs)" if "bs \<noteq> []"
    using ldc.chunk_feed [OF c(1,2) that ld_feed_settled [OF c(1,2) that]] c(3) buf
    by (cases "n \<le> length bs") (simp_all add: min_def)
  show "\<exists>c'. decode_chunk ld_feed ld_next c bs = Some ([], Finished StNeedMore, c')" if "length bs < n"
  proof (cases "bs = []")
    case True
    then show ?thesis using ldc.chunk_nil [OF c(2)] by simp
  next
    case False
    have "ld_next ?c1 = (NeedMore, ?c1)" using ld_next_short [OF c(1,2), of bs] c(3) that buf by simp
    then show ?thesis using feed [OF False] ldc.chunk_nil [of ?c1] that by simp
  qed
  assume len: "n \<le> length bs"
  with assms(1) have ne: "bs \<noteq> []" by auto
  have "ld_next ?c1 = (Frame (take n bs), ld_idle p cap)"
    using len by (simp add: ld_next_def ld_next_body_def c_def ld_idle_def)
  from ldc.chunk_frame [OF this] feed [OF ne]
  show "decode_chunk ld_feed ld_next c bs
      = prepend [take n bs] (decode_chunk ld_feed ld_next (ld_idle p cap) (drop n bs))"
    by (cases "decode_chunk ld_feed ld_next (ld_idle p cap) (drop n bs)") auto
qed

lemma ld_chunk_spec:
  "\<exists>c'. decode_chunk ld_feed ld_next (ld_idle p cap) bs
     = Some (fst (ld_spec p cap bs), Finished (snd (ld_spec p cap bs)), c')"
proof (induction p cap bs rule: ld_spec.induct)
  case (1 p cap bs)
  let ?c = "ld_idle p cap" and ?w = "prefix_width p" and ?dec = "decode_chunk ld_feed ld_next"
  note c = ld_idle_facts [of p cap]
  let ?c1 = "?c\<lparr>ld_buffer := take ?w bs\<rparr>" and ?n = "be_nat (take ?w bs)" and ?rest = "drop ?w bs"
  have feed: "?dec ?c bs = ?dec ?c1 ?rest" if "bs \<noteq> []"
    using ldc.chunk_feed [OF c(1,2) that ld_feed_settled [OF c(1,2) that]] c(3)
    by (cases "?w \<le> length bs") (simp_all add: min_def ld_idle_def)
  consider "bs = []" | "bs \<noteq> []" "length bs < ?w" | "?w \<le> length bs" "cap < ?n"
    | "?w \<le> length bs" "?n \<le> cap" "?n = 0" | "?w \<le> length bs" "?n \<le> cap" "0 < ?n"
    by linarith
  then show ?case
  proof cases
    case 1
    then show ?thesis using ldc.chunk_nil [OF c(2)] by (subst (1 2) ld_spec.simps) simp
  next
    case 2
    have "ld_next ?c1 = (NeedMore, ?c1)"
      using ld_next_short [OF c(1,2), of bs] c(3) 2 by (simp add: ld_idle_def)
    with 2 feed show ?thesis using ldc.chunk_nil [of ?c1] by (subst (1 2) ld_spec.simps) simp
  next
    case 3
    then have ne: "bs \<noteq> []" by (simp add: prefix_width_ne)
    have "fst (ld_next ?c1) = Full"
      using 3 by (simp add: ld_next_def ld_idle_def Let_def unat_prefix_decode min_def)
    then obtain c' where "ld_next ?c1 = (Full, c')" by (metis prod.collapse)
    from ldc.chunk_full [OF this] 3 feed [OF ne] show ?thesis by (subst (1 2) ld_spec.simps) (simp add: Let_def)
  next
    case 4
    then have ne: "bs \<noteq> []" by (simp add: prefix_width_ne)
    have "ld_next ?c1 = (Frame [], ?c)"
      using 4 by (simp add: ld_next_def ld_next_body_def ld_idle_def Let_def unat_prefix_decode min_def)
    from ldc.chunk_frame [OF this] 4 feed [OF ne] "1.IH" [OF refl _ refl refl]
    show ?thesis by (subst (1 2) ld_spec.simps) (auto simp: Let_def split: prod.splits)
  next
    case 5
    then have ne: "bs \<noteq> []" by (simp add: prefix_width_ne)
    let ?c2 = "?c\<lparr>ld_expected_body_len := Some ?n\<rparr>"
    have n: "ld_next ?c1 = (NeedMore, ?c2)" "ld_next ?c2 = (NeedMore, ?c2)"
      using 5 by (simp_all add: ld_next_def ld_next_body_def ld_idle_def Let_def unat_prefix_decode min_def)
    have same: "?dec ?c1 ?rest = ?dec ?c2 ?rest"
      by (subst (1 2) decode_chunk.simps) (simp add: n)
    show ?thesis
    proof (cases "length ?rest < ?n")
      case True
      with ld_chunk_body(1) [OF 5(3,2) True] 5 feed [OF ne] same show ?thesis
        by (subst (1 2) ld_spec.simps) (simp add: Let_def)
    next
      case False
      with ld_chunk_body(2) [OF 5(3,2), of ?rest p] "1.IH" [OF refl _ refl refl] 5 feed [OF ne] same
      show ?thesis by (subst (1 2) ld_spec.simps) (auto simp: Let_def split: prod.splits)
    qed
  qed
qed

lemma ld_reads_spec:
  "\<exists>c'. decode_reads ld_feed ld_next (ld_idle p cap) (r # rs)
     = Some (fst (ld_spec p cap (concat (r # rs))), Finished (snd (ld_spec p cap (concat (r # rs)))), c')"
proof -
  obtain c' where ch: "decode_chunk ld_feed ld_next (ld_idle p cap) (concat (r # rs))
      = Some (fst (ld_spec p cap (concat (r # rs))), Finished (snd (ld_spec p cap (concat (r # rs)))), c')"
    using ld_chunk_spec by blast
  obtain fs st e where re: "decode_reads ld_feed ld_next (ld_idle p cap) (r # rs) = Some (fs, st, e)"
    using ldc.reads_return [OF ld_idle_facts(1)] by blast
  show ?thesis
    using ldc.partition_invariant [OF ld_idle_facts(1), of p cap r rs] unfolding ch re by simp
qed

lemma ld_new_idle: "ld_new p cap = Some c \<Longrightarrow> c = ld_idle p cap"
  by (auto simp: ld_new_def ld_idle_def split: if_splits)

lemma ld_spec_encoded:
  assumes "length b \<le> cap" and "length b \<le> prefix_max p"
  shows "ld_spec p cap (prefix_bytes p (length b) @ b @ rest)
    = (b # fst (ld_spec p cap rest), snd (ld_spec p cap rest))"
  using assms prefix_bytes_decode [OF assms(2)]
  by (subst ld_spec.simps) (simp add: Let_def split: prod.splits)

lemma encode_all_spec:
  assumes "encode_all p bodies into = Some out" and "\<forall>b \<in> set bodies. length b \<le> cap"
  shows "\<exists>wire. out = into @ wire \<and> (\<forall>rest. ld_spec p cap (wire @ rest)
    = (bodies @ fst (ld_spec p cap rest), snd (ld_spec p cap rest)))"
  using assms
proof (induction bodies arbitrary: into)
  case Nil
  then show ?case by simp
next
  case (Cons b bodies)
  then have fits: "length b \<le> prefix_max p" "length b \<le> cap"
    and rest: "encode_all p bodies (into @ prefix_bytes p (length b) @ b) = Some out"
    by (auto simp: encode_into_def Let_def split: if_splits)
  obtain wire where w: "out = (into @ prefix_bytes p (length b) @ b) @ wire"
    "\<forall>rest. ld_spec p cap (wire @ rest) = (bodies @ fst (ld_spec p cap rest), snd (ld_spec p cap rest))"
    using Cons.IH [OF rest] Cons.prems(2) by auto
  show ?case
    by (rule exI [of _ "prefix_bytes p (length b) @ b @ wire"])
      (simp add: w ld_spec_encoded [OF fits(2,1)])
qed

lemma ld_spec_nil [simp]: "ld_spec p cap [] = ([], StNeedMore)"
  by (subst ld_spec.simps) simp

section \<open>Any sequence of calls\<close>

lemma ld_step_inv:
  assumes "ld_inv c"
  shows "ld_inv (ld_step op c) \<and> ld_prefix (ld_step op c) = ld_prefix c
    \<and> ld_max_body_len (ld_step op c) = ld_max_body_len c"
proof (cases op)
  case (LdFeed bs)
  then show ?thesis using ld_feed_inv [OF assms, of bs] by (simp add: ld_feed_def Let_def)
next
  case LdNext
  then show ?thesis
    using ld_next_inv [OF assms, of "fst (ld_next c)" "snd (ld_next c)"]
    by (auto simp: ld_next_def ld_next_body_def Let_def split: option.splits)
next
  case LdFinish
  then show ?thesis
    using ld_finish_inv [OF assms]
    by (auto simp: ld_finish_def ld_next_def ld_next_body_def Let_def split: option.splits)
qed

lemma ld_run_inv:
  "ld_inv c \<Longrightarrow> ld_inv (fold ld_step ops c) \<and> ld_prefix (fold ld_step ops c) = ld_prefix c
    \<and> ld_max_body_len (fold ld_step ops c) = ld_max_body_len c"
  by (induction ops arbitrary: c) (simp_all add: ld_step_inv)

lemma ld_inv_bound: "ld_inv c \<Longrightarrow> ld_buffered c \<le> max (prefix_width (ld_prefix c)) (ld_max_body_len c)"
  by (auto simp: ld_inv_def ld_buffered_def split: option.splits)

text \<open>The states that hold a terminal decision; no call changes them.\<close>

definition ld_stuck :: "ld_decision \<Rightarrow> length_delimited_framer \<Rightarrow> bool" where
  "ld_stuck d c \<longleftrightarrow> d = Full \<and> ld_overflowed c \<and> \<not> ld_poisoned c \<and> ld_buffer c = [] \<and> ld_expected_body_len c = None
     \<or> d = Malformed UnexpectedEof \<and> ld_poisoned c \<and> \<not> ld_overflowed c"

lemma ld_stuck_calls:
  assumes "ld_stuck d c"
  shows "ld_next c = (d, c)" and "ld_finish c = (d, c)" and "ld_feed bs c = (0, c)"
  using assms by (auto simp: ld_stuck_def ld_next_def ld_finish_def ld_feed_def)

lemma ld_stuck_run: "ld_stuck d c \<Longrightarrow> fold ld_step ops c = c"
proof (induction ops)
  case (Cons op ops)
  then show ?case by (cases op) (simp_all add: ld_stuck_calls [OF Cons.prems])
qed simp

lemma ld_next_terminal:
  "ld_inv c \<Longrightarrow> ld_next c = (d, c') \<Longrightarrow> \<not> is_need_more d \<Longrightarrow> \<not> is_frame d \<Longrightarrow> ld_stuck d c'"
  by (auto simp: ld_inv_def ld_defs ld_stuck_def split: if_splits option.splits)

section \<open>Properties\<close>

text \<open>
  (C14) The length-delimited framer decodes every byte stream as the reference definition, however
  the transport cuts the stream into reads: the driver returns, its assertion never fails, and
  the frames and the final status are those of \<open>ld_spec\<close> on the whole stream.
\<close>

theorem ld_decodes_reference:
  assumes "ld_new p cap = Some c"
  shows "\<exists>c'. decode_reads ld_feed ld_next c (r # rs)
    = Some (fst (ld_spec p cap (concat (r # rs))), Finished (snd (ld_spec p cap (concat (r # rs)))), c')"
  using ld_reads_spec [of p cap r rs] ld_new_idle [OF assms] by simp

theorem ld_decodes_reference_witness:
  "\<exists>c c'. ld_new PrefixU8 4 = Some c
    \<and> decode_reads ld_feed ld_next c [[2], [7, 8, 0], [9]] = Some ([[7, 8], []], Finished StFull, c')"
proof -
  obtain c where c: "ld_new PrefixU8 4 = Some c" by (simp add: ld_new_def)
  have "ld_spec PrefixU8 4 [2, 7, 8, 0, 9] = ([[7, 8], []], StFull)"
    by (simp add: ld_spec.simps Let_def)
  with c ld_decodes_reference [OF c, of "[2]" "[[7, 8, 0], [9]]"] show ?thesis by simp
qed

text \<open>
  (C15) Decoding inverts encoding: whatever list of bodies within the cap the encoder accepted, a
  fresh framer that receives the encoded bytes in any pieces produces exactly these bodies, in
  order, and then waits for more.
\<close>

theorem ld_roundtrip:
  assumes "ld_new p cap = Some c" and "encode_all p bodies [] = Some wire"
    and "\<forall>b \<in> set bodies. length b \<le> cap" and "concat (r # rs) = wire"
  shows "\<exists>c'. decode_reads ld_feed ld_next c (r # rs) = Some (bodies, Finished StNeedMore, c')"
proof -
  have "ld_spec p cap wire = (bodies, StNeedMore)"
    using encode_all_spec [OF assms(2,3)] by (metis append_Nil append_Nil2 fst_conv ld_spec_nil snd_conv)
  then show ?thesis
    using ld_reads_spec [of p cap r rs] ld_new_idle [OF assms(1)] unfolding assms(4) by simp
qed

theorem ld_roundtrip_witness:
  "\<exists>c c' wire. ld_new PrefixU16 3 = Some c \<and> encode_all PrefixU16 [[1, 2, 3], [], [4]] [] = Some wire
    \<and> decode_reads ld_feed ld_next c [take 4 wire, drop 4 wire]
      = Some ([[1, 2, 3], [], [4]], Finished StNeedMore, c')"
proof -
  obtain c where c: "ld_new PrefixU16 3 = Some c" by (simp add: ld_new_def)
  obtain wire where w: "encode_all PrefixU16 [[1, 2, 3], [], [4]] [] = Some wire"
    by (simp add: encode_into_def Let_def)
  have "\<exists>c'. decode_reads ld_feed ld_next c [take 4 wire, drop 4 wire]
      = Some ([[1, 2, 3], [], [4]], Finished StNeedMore, c')"
    by (rule ld_roundtrip [OF c w]) simp_all
  with c w show ?thesis by blast
qed

text \<open>
  (C20) Memory is bounded and terminal decisions are final. Whatever sequence of \<open>feed\<close>,
  \<open>next_frame\<close> and \<open>finish\<close> calls a client makes on a fresh framer, it never buffers more than
  one prefix or one body of the configured cap; and once \<open>next_frame\<close> answers \<open>Full\<close> or
  \<open>Malformed\<close>, every later call answers the same and no more bytes are consumed.
\<close>

theorem ld_bounded_and_sticky:
  assumes "ld_new p cap = Some c" and "ld_next (fold ld_step ops c) = (d, s)"
  shows "ld_buffered (fold ld_step ops c) \<le> max (prefix_width p) cap
    \<and> (d = Full \<or> is_malformed d \<longrightarrow>
        (let s' = fold ld_step later s in
         ld_next s' = (d, s') \<and> ld_finish s' = (d, s') \<and> ld_feed bs s' = (0, s')))"
proof
  have c: "ld_inv c" "ld_prefix c = p" "ld_max_body_len c = cap"
    using assms(1) ld_new_inv by (auto simp: ld_new_def split: if_splits)
  note run = ld_run_inv [OF c(1), of ops]
  then show "ld_buffered (fold ld_step ops c) \<le> max (prefix_width p) cap"
    using ld_inv_bound [of "fold ld_step ops c"] c by simp
  show "d = Full \<or> is_malformed d \<longrightarrow> (let s' = fold ld_step later s in
         ld_next s' = (d, s') \<and> ld_finish s' = (d, s') \<and> ld_feed bs s' = (0, s'))"
  proof
    assume "d = Full \<or> is_malformed d"
    then have "ld_stuck d s" using ld_next_terminal [OF _ assms(2)] run by (cases d) auto
    then show "let s' = fold ld_step later s in
         ld_next s' = (d, s') \<and> ld_finish s' = (d, s') \<and> ld_feed bs s' = (0, s')"
      by (simp add: ld_stuck_run ld_stuck_calls)
  qed
qed

theorem ld_bounded_and_sticky_witness:
  "\<exists>c s. ld_new PrefixU8 2 = Some c \<and> ld_next (fold ld_step [LdFeed [9, 1, 1]] c) = (Full, s)
    \<and> ld_feed [1, 2] (fold ld_step [LdFeed [3], LdNext] s) = (0, fold ld_step [LdFeed [3], LdNext] s)"
proof -
  obtain c where c: "ld_new PrefixU8 2 = Some c" by (simp add: ld_new_def)
  then have "fst (ld_next (fold ld_step [LdFeed [9, 1, 1]] c)) = Full"
    by (auto simp: ld_new_def ld_feed_def ld_next_def Let_def)
  then obtain s where s: "ld_next (fold ld_step [LdFeed [9, 1, 1]] c) = (Full, s)"
    by (metis prod.collapse)
  have "ld_feed [1, 2] (fold ld_step [LdFeed [3], LdNext] s) = (0, fold ld_step [LdFeed [3], LdNext] s)"
    using ld_bounded_and_sticky [OF c s, of "[LdFeed [3], LdNext]" "[1, 2]"] by (simp only: Let_def) blast
  with c s show ?thesis by blast
qed

end
