(* ===== verification/Line_Framer.thy ===== *)
theory Line_Framer
  imports Sync_Codec
begin

text \<open>
  The newline-delimited framer of \<open>tina-codec/src/line.rs\<close>. It keeps the codec contract, decodes
  every byte stream as the reference definition \<open>line_spec\<close> does, buffers at most
  \<open>max_line_len + 2\<close> bytes, and keeps a terminal decision of \<open>next_frame\<close> for good.
\<close>

section \<open>Data\<close>

datatype malformed_line = UnterminatedFinalLine | EmbeddedNul

record line_framer =
  lf_buffer :: bytes
  lf_max_line_len :: nat
  lf_reject_nul :: bool
  lf_poisoned :: bool
  lf_overflowed :: bool

type_synonym line_decision = "(bytes, malformed_line) frame_decision"

abbreviation NL :: u8 where "NL \<equiv> 10"
abbreviation CR :: u8 where "CR \<equiv> 13"
abbreviation NUL :: u8 where "NUL \<equiv> 0"

section \<open>Operations\<close>

definition lf_new :: "nat \<Rightarrow> line_framer option" where
  "lf_new max_line_len =
     (if max_line_len > 0
      then Some \<lparr>lf_buffer = [], lf_max_line_len = max_line_len, lf_reject_nul = False,
             lf_poisoned = False, lf_overflowed = False\<rparr>
      else None)"

definition reject_embedded_nul :: "line_framer \<Rightarrow> line_framer" where
  "reject_embedded_nul c = c\<lparr>lf_reject_nul := True\<rparr>"

definition ends_with :: "u8 \<Rightarrow> bytes \<Rightarrow> bool" where
  "ends_with b bs \<longleftrightarrow> bs \<noteq> [] \<and> last bs = b"

definition lf_feed :: "bytes \<Rightarrow> line_framer \<Rightarrow> nat \<times> line_framer" where
  "lf_feed chunk c =
     (if lf_poisoned c \<or> lf_overflowed c then (0, c)
      else if chunk = [] then (0, c)
      else if ends_with NL (lf_buffer c) then (0, c)
      else
        let room = sat_add_usize (lf_max_line_len c) 2 - length (lf_buffer c);
            through_newline =
              (case position (\<lambda>b. b = NL) chunk of None \<Rightarrow> length chunk | Some i \<Rightarrow> i + 1);
            consumed = min room through_newline;
            buffer = lf_buffer c @ take consumed chunk
        in (consumed,
            c\<lparr>lf_buffer := buffer,
              lf_overflowed := (consumed = room \<and> \<not> ends_with NL buffer) \<or> lf_overflowed c\<rparr>))"

definition lf_next :: "line_framer \<Rightarrow> line_decision \<times> line_framer" where
  "lf_next c =
     (if lf_poisoned c then (Malformed EmbeddedNul, c)
      else
        let nul_abs = position (\<lambda>b. b = NUL) (lf_buffer c);
            nl_abs = position (\<lambda>b. b = NL) (lf_buffer c)
        in
        if lf_buffer c \<noteq> [] \<and> lf_reject_nul c
           \<and> (case nul_abs of None \<Rightarrow> False
              | Some a \<Rightarrow> (case nl_abs of None \<Rightarrow> True | Some nl \<Rightarrow> a < nl))
        then (Malformed EmbeddedNul, c\<lparr>lf_poisoned := True\<rparr>)
        else case nl_abs of
          Some nl \<Rightarrow>
            let body_end = (if nl > 0 \<and> lf_buffer c ! (nl - 1) = CR then nl - 1 else nl) in
            if body_end > lf_max_line_len c then (Full, c\<lparr>lf_overflowed := True\<rparr>)
            else (Frame (take body_end (lf_buffer c)), c\<lparr>lf_buffer := []\<rparr>)
        | None \<Rightarrow> (if lf_overflowed c then Full else NeedMore, c))"

definition lf_finish :: "bool \<Rightarrow> line_framer \<Rightarrow> line_decision \<times> line_framer" where
  "lf_finish allow_unterminated_final c =
     (if lf_poisoned c then (Malformed EmbeddedNul, c)
      else if lf_overflowed c then (Full, c)
      else if lf_buffer c = [] then (NeedMore, c)
      else
        let body_end = (if ends_with CR (lf_buffer c) then length (lf_buffer c) - 1
                        else length (lf_buffer c)) in
        if body_end > lf_max_line_len c then (Full, c\<lparr>lf_overflowed := True\<rparr>)
        else if allow_unterminated_final
        then (Frame (take body_end (lf_buffer c)), c\<lparr>lf_buffer := []\<rparr>)
        else (Malformed UnterminatedFinalLine, c))"

definition lf_buffered :: "line_framer \<Rightarrow> nat" where
  "lf_buffered c = length (lf_buffer c)"



section \<open>Reference decoding of a whole stream\<close>

definition strip_cr :: "bytes \<Rightarrow> bytes" where
  "strip_cr l = (if ends_with CR l then butlast l else l)"

abbreviation first_line :: "bytes \<Rightarrow> bytes" where
  "first_line bs \<equiv> takeWhile (\<lambda>b. b \<noteq> NL) bs"

text \<open>
  The stream is cut at the newlines. A line is refused for a NUL, when NULs are refused, among
  the bytes the framer can hold, and for its length otherwise.
\<close>

function line_spec :: "nat \<Rightarrow> bool \<Rightarrow> bytes \<Rightarrow> bytes list \<times> malformed_line decode_status" where
  "line_spec cap rej bs =
     (let lim = sat_add_usize cap 2; l = first_line bs in
      if rej \<and> NUL \<in> set (take lim l) then ([], StMalformed EmbeddedNul)
      else if NL \<notin> set bs then ([], if length l < lim then StNeedMore else StFull)
      else if lim \<le> length l \<or> cap < length (strip_cr l) then ([], StFull)
      else case line_spec cap rej (drop (length l + 1) bs) of (fs, st) \<Rightarrow> (strip_cr l # fs, st))"
  by pat_completeness auto
termination
proof (relation "measure (\<lambda>(cap, rej, bs). length bs)", goal_cases)
  case (2 cap rej bs x xa)
  then show ?case by (cases bs) auto
qed simp

declare line_spec.simps [simp del]

section \<open>Positions and lines\<close>

lemma position_takeWhile:
  "position (\<lambda>b. b = x) xs = (if x \<in> set xs then Some (length (takeWhile (\<lambda>b. b \<noteq> x) xs)) else None)"
  by (induction xs) auto

lemma nul_before_newline:
  "(case position (\<lambda>b. b = NUL) xs of None \<Rightarrow> False
    | Some a \<Rightarrow> (case position (\<lambda>b. b = NL) xs of None \<Rightarrow> True | Some nl \<Rightarrow> a < nl))
   \<longleftrightarrow> NUL \<in> set (first_line xs)"
  by (induction xs) (auto split: option.splits if_splits simp: position_takeWhile)

lemma first_line_prefix: "n \<le> length (first_line bs) \<Longrightarrow> take n bs = take n (first_line bs)"
  by (induction bs arbitrary: n) (auto simp: take_Cons' split: if_splits)

lemma NL_first_line: "NL \<notin> set (take n (first_line bs))"
  by (auto dest: in_set_takeD set_takeWhileD)

text \<open>\<open>next_frame\<close> in terms of the first line in the buffer.\<close>

lemma lf_next_eq:
  "lf_next c =
     (if lf_poisoned c then (Malformed EmbeddedNul, c)
      else if lf_reject_nul c \<and> NUL \<in> set (first_line (lf_buffer c))
      then (Malformed EmbeddedNul, c\<lparr>lf_poisoned := True\<rparr>)
      else if NL \<in> set (lf_buffer c)
      then (if length (strip_cr (first_line (lf_buffer c))) > lf_max_line_len c
            then (Full, c\<lparr>lf_overflowed := True\<rparr>)
            else (Frame (strip_cr (first_line (lf_buffer c))), c\<lparr>lf_buffer := []\<rparr>))
      else (if lf_overflowed c then Full else NeedMore, c))"
proof -
  let ?l = "first_line (lf_buffer c)"
  have body: "take (if 0 < length ?l \<and> lf_buffer c ! (length ?l - 1) = CR then length ?l - 1 else length ?l) (lf_buffer c)
      = strip_cr ?l" if "NL \<in> set (lf_buffer c)"
  proof -
    have "lf_buffer c ! (length ?l - 1) = last ?l" if "?l \<noteq> []"
      using that by (metis last_conv_nth takeWhile_nth diff_less length_greater_0_conv less_numeral_extra(1))
    then show ?thesis
      using first_line_prefix [of "length ?l" "lf_buffer c"]
        first_line_prefix [of "length ?l - 1" "lf_buffer c"]
      by (auto simp: strip_cr_def ends_with_def butlast_conv_take)
  qed
  have len: "(if 0 < length ?l \<and> lf_buffer c ! (length ?l - 1) = CR then length ?l - 1 else length ?l)
      = length (strip_cr ?l)" if "NL \<in> set (lf_buffer c)"
    by (subst body [OF that, symmetric]) (use length_takeWhile_le [of "\<lambda>b. b \<noteq> NL" "lf_buffer c"] in simp)
  show ?thesis
    unfolding lf_next_def Let_def nul_before_newline
    using body len by (auto simp: position_takeWhile)
qed

section \<open>The invariant and the codec contract\<close>

definition lf_limit :: "line_framer \<Rightarrow> nat" where
  "lf_limit c = sat_add_usize (lf_max_line_len c) 2"

definition lf_inv :: "line_framer \<Rightarrow> bool" where
  "lf_inv c \<longleftrightarrow> 0 < lf_max_line_len c \<and> length (lf_buffer c) \<le> lf_limit c
     \<and> NL \<notin> set (butlast (lf_buffer c))
     \<and> (length (lf_buffer c) = lf_limit c \<longrightarrow>
          lf_overflowed c \<or> lf_poisoned c \<or> NL \<in> set (lf_buffer c))"

lemma first_line_all: "NL \<notin> set xs \<Longrightarrow> first_line xs = xs"
  by (induction xs) auto

lemma first_line_append: "NL \<notin> set xs \<Longrightarrow> first_line (xs @ ys) = xs @ first_line ys"
  by (induction xs) auto

text \<open>The bytes \<open>feed\<close> would take if it had room.\<close>

definition through :: "bytes \<Rightarrow> nat" where
  "through bs = length (first_line bs) + (if NL \<in> set bs then 1 else 0)"

lemma through_simps [simp]: "through [] = 0" "through (b # bs) = (if b = NL then 1 else Suc (through bs))"
  by (auto simp: through_def)

lemma through_le: "through bs \<le> length bs"
  by (induction bs) auto

lemma NL_take_through: "NL \<notin> set (butlast (take k (take (through bs) bs)))"
proof (induction bs arbitrary: k)
  case (Cons b bs)
  then show ?case
    by (cases k) (auto simp: take_Cons' dest: in_set_takeD)
qed simp

lemma limit_pos: "0 < lf_max_line_len c \<Longrightarrow> 0 < lf_limit c"
  by (simp add: lf_limit_def sat_add_usize_def usize_max_def)

lemma lf_settled:
  assumes "lf_next c = (NeedMore, c')"
  shows "c' = c" and "\<not> lf_poisoned c" and "\<not> lf_overflowed c" and "NL \<notin> set (lf_buffer c)"
    and "lf_reject_nul c \<Longrightarrow> NUL \<notin> set (lf_buffer c)"
proof -
  show base: "c' = c" "\<not> lf_poisoned c" "\<not> lf_overflowed c" "NL \<notin> set (lf_buffer c)"
    using assms by (auto simp: lf_next_eq split: if_splits)
  then show "lf_reject_nul c \<Longrightarrow> NUL \<notin> set (lf_buffer c)"
    using assms by (auto simp: lf_next_eq first_line_all split: if_splits)
qed

lemma not_ends: "x \<notin> set xs \<Longrightarrow> \<not> ends_with x xs"
  by (auto simp: ends_with_def)

text \<open>The framer after taking bytes into a settled buffer.\<close>

definition lf_take :: "bytes \<Rightarrow> line_framer \<Rightarrow> line_framer" where
  "lf_take xs c = c\<lparr>lf_buffer := lf_buffer c @ xs,
     lf_overflowed := length (lf_buffer c @ xs) = lf_limit c \<and> \<not> ends_with NL (lf_buffer c @ xs)\<rparr>"

definition lf_open :: "line_framer \<Rightarrow> bool" where
  "lf_open c \<longleftrightarrow> \<not> lf_poisoned c \<and> \<not> lf_overflowed c \<and> NL \<notin> set (lf_buffer c)"

lemma lf_settled_open: "lf_next c = (NeedMore, c') \<Longrightarrow> lf_open c"
  using lf_settled [of c c'] by (simp add: lf_open_def)

lemma lf_feed_open:
  assumes "lf_inv c" and "lf_open c" and "bs \<noteq> []"
  defines "k \<equiv> min (lf_limit c - length (lf_buffer c)) (through bs)"
  shows "lf_feed bs c = (k, lf_take (take k bs) c)" and "0 < k" and "k \<le> length bs"
proof -
  note s = assms(2) [unfolded lf_open_def]
  have room: "length (lf_buffer c) < lf_limit c"
    using assms(1) s unfolding lf_inv_def by (auto simp: le_less)
  have thr: "(case position (\<lambda>b. b = NL) bs of None \<Rightarrow> length bs | Some i \<Rightarrow> i + 1) = through bs"
    by (auto simp: position_takeWhile through_def first_line_all)
  show "0 < k" using room assms(3) by (cases bs) (auto simp: k_def)
  show kl: "k \<le> length bs" using through_le [of bs] by (simp add: k_def)
  have lim: "length (lf_buffer c @ take k bs) = lf_limit c \<longleftrightarrow> k = lf_limit c - length (lf_buffer c)"
    using kl room by (auto simp: min_def)
  show "lf_feed bs c = (k, lf_take (take k bs) c)"
    using s assms(3) not_ends [of NL "lf_buffer c"]
    unfolding lf_feed_def Let_def thr lf_take_def lim
    by (simp add: k_def lf_limit_def)
qed

lemma lf_feed_shut: "lf_inv c \<Longrightarrow> \<not> lf_open c \<or> bs = [] \<Longrightarrow> lf_feed bs c = (0, c)"
proof -
  assume "lf_inv c" and *: "\<not> lf_open c \<or> bs = []"
  then have "NL \<in> set (lf_buffer c) \<longleftrightarrow> ends_with NL (lf_buffer c)"
    by (cases "lf_buffer c" rule: rev_cases) (auto simp: lf_inv_def ends_with_def)
  with * show ?thesis by (auto simp: lf_feed_def lf_open_def)
qed

lemma lf_take_inv:
  assumes "lf_inv c" and "lf_open c"
    and "length (lf_buffer c) + length xs \<le> lf_limit c" and "NL \<notin> set (butlast xs)"
  shows "lf_inv (lf_take xs c)"
proof -
  have "NL \<notin> set (butlast (lf_buffer c @ xs))"
    using assms(2,4) by (auto simp: butlast_append lf_open_def dest: in_set_butlastD)
  moreover have "ends_with NL (lf_buffer c @ xs) \<Longrightarrow> NL \<in> set (lf_buffer c @ xs)"
    by (metis ends_with_def last_in_set)
  ultimately show ?thesis
    using assms(1,3) by (auto simp: lf_inv_def lf_take_def lf_limit_def)
qed

lemma lf_feed_inv: "lf_inv c \<Longrightarrow> lf_inv (snd (lf_feed bs c))"
proof (cases "lf_open c \<and> bs \<noteq> []")
  case True
  assume inv: "lf_inv c"
  let ?k = "min (lf_limit c - length (lf_buffer c)) (through bs)"
  have "take ?k bs = take ?k (take (through bs) bs)" by (simp add: min_def)
  then have "NL \<notin> set (butlast (take ?k bs))" by (metis NL_take_through)
  moreover have "length (lf_buffer c) \<le> lf_limit c" using inv by (simp add: lf_inv_def)
  ultimately show ?thesis
    using lf_feed_open(1) [OF inv, of bs] True lf_take_inv [OF inv, of "take ?k bs"] by simp
qed (simp add: lf_feed_shut)

lemma lf_next_inv: "lf_inv c \<Longrightarrow> lf_next c = (d, c') \<Longrightarrow> lf_inv c'"
  using limit_pos [of c] by (auto simp: lf_inv_def lf_next_eq lf_limit_def split: if_splits)


text \<open>The law \<open>split\<close>: one byte and then the rest, unless the byte is a refused NUL.\<close>

lemma lf_split:
  assumes inv: "lf_inv c" and settled: "lf_next c = (NeedMore, c)" and f: "lf_feed (b # bs) c = (k, c')"
  shows "\<exists>c1. lf_feed [b] c = (1, c1) \<and> (k = 1 \<and> c' = c1
      \<or> lf_next c1 = (NeedMore, c1) \<and> bs \<noteq> [] \<and> lf_feed bs c1 = (k - 1, c')
      \<or> \<not> is_need_more (fst (lf_next c1)) \<and> \<not> is_frame (fst (lf_next c1))
        \<and> fst (lf_next c') = fst (lf_next c1))"
proof -
  let ?room = "lf_limit c - length (lf_buffer c)" and ?c1 = "lf_take [b] c"
  note op = lf_settled_open [OF settled]
  note s = lf_settled [OF settled]
  have room: "0 < ?room" using lf_feed_open(2) [OF inv op, of "[b]"] by simp
  have "min ?room (through [b]) = 1" using room by (auto simp: min_def)
  then have one: "lf_feed [b] c = (1, ?c1)" using lf_feed_open(1) [OF inv op, of "[b]"] by simp
  have kc: "k = min ?room (through (b # bs))" "c' = lf_take (take k (b # bs)) c"
    using f lf_feed_open(1) [OF inv op, of "b # bs"] by auto
  have inv1: "lf_inv ?c1" using lf_feed_inv [OF inv, of "[b]"] one by simp
  have "0 < k" using kc(1) lf_feed_open(2) [OF inv op, of "b # bs"] by simp
  then consider "k = 1" | "1 < k" "lf_reject_nul c \<and> b = NUL" | "1 < k" "\<not> (lf_reject_nul c \<and> b = NUL)"
    by linarith
  then show ?thesis
  proof cases
    case 1
    then have "c' = ?c1" using kc(2) by simp
    with one 1 show ?thesis by blast
  next
    case 2
    have nul: "fst (lf_next (lf_take (NUL # ys) c)) = Malformed EmbeddedNul" for ys
      using s 2(2) by (simp add: lf_next_eq lf_take_def first_line_append)
    have "take k (b # bs) = NUL # take (k - 1) bs" using 2 by (cases k) simp_all
    then have c': "c' = lf_take (NUL # take (k - 1) bs) c" using kc(2) by simp
    have "fst (lf_next ?c1) = Malformed EmbeddedNul" using nul [of "[]"] 2(2) by simp
    moreover have "fst (lf_next c') = Malformed EmbeddedNul" unfolding c' by (rule nul)
    ultimately show ?thesis by (intro exI [of _ ?c1] conjI one disjI2) simp_all
  next
    case 3
    then have b: "b \<noteq> NL" and bs: "bs \<noteq> []" "0 < through bs" and r: "1 < ?room"
      using kc(1) by (auto split: if_splits)
    have n: "lf_next ?c1 = (NeedMore, ?c1)"
      using s b r 3(2) by (auto simp: lf_next_eq lf_take_def first_line_all)
    have tt: "take k (b # bs) = b # take (k - 1) bs" using 3 by (cases k) simp_all
    have k1: "k - 1 = min (lf_limit ?c1 - length (lf_buffer ?c1)) (through bs)"
      using kc(1) b r by (auto simp: lf_take_def lf_limit_def min_def)
    have "lf_feed bs ?c1 = (k - 1, lf_take (take (k - 1) bs) ?c1)"
      using lf_feed_open(1) [OF inv1 lf_settled_open [OF n] bs(1)] k1 by simp
    moreover have "lf_take (take (k - 1) bs) ?c1 = c'"
      unfolding kc(2) tt by (simp add: lf_take_def lf_limit_def)
    ultimately show ?thesis using one n bs(1) by blast
  qed
qed

interpretation lfc: sync_codec lf_feed lf_next lf_inv lf_buffered
proof unfold_locales
  fix c :: line_framer and bs :: bytes
  assume "lf_inv c" "lf_next c = (NeedMore, c)" "bs \<noteq> []"
  then show "0 < fst (lf_feed bs c) \<and> fst (lf_feed bs c) \<le> length bs"
    using lf_feed_open [OF _ lf_settled_open, of c c bs] by simp
next
  fix c c' f
  assume "lf_next c = (Frame f, c')"
  then show "lf_buffered c' < lf_buffered c"
    by (auto simp: lf_next_eq lf_buffered_def split: if_splits)
qed (auto dest: lf_next_inv lf_settled(1) lf_split intro: lf_feed_inv)

section \<open>Equivalence with the reference decoding\<close>

definition lf_idle :: "nat \<Rightarrow> bool \<Rightarrow> line_framer" where
  "lf_idle cap rej = \<lparr>lf_buffer = [], lf_max_line_len = cap, lf_reject_nul = rej,
     lf_poisoned = False, lf_overflowed = False\<rparr>"

lemma lf_idle_facts:
  assumes "0 < cap"
  shows "lf_inv (lf_idle cap rej)" and "lf_next (lf_idle cap rej) = (NeedMore, lf_idle cap rej)"
    and "lf_limit (lf_idle cap rej) = sat_add_usize cap 2"
  using assms limit_pos [of "lf_idle cap rej"]
  by (auto simp: lf_inv_def lf_idle_def lf_next_eq lf_limit_def)

lemma line_parts: "NL \<in> set bs \<Longrightarrow> first_line bs @ NL # drop (length (first_line bs) + 1) bs = bs"
  by (induction bs) auto

lemma first_line_take: "first_line (take k bs) = take k (first_line bs)"
  by (induction bs arbitrary: k) (auto simp: take_Cons')

text \<open>What \<open>next_frame\<close> decides on a buffer that was filled from an idle framer.\<close>

lemma lf_next_filled:
  assumes "0 < cap" and "c = lf_take xs (lf_idle cap rej)"
  shows "lf_next c =
     (if rej \<and> NUL \<in> set (first_line xs) then (Malformed EmbeddedNul, c\<lparr>lf_poisoned := True\<rparr>)
      else if NL \<in> set xs
      then (if length (strip_cr (first_line xs)) > cap then (Full, c\<lparr>lf_overflowed := True\<rparr>)
            else (Frame (strip_cr (first_line xs)), c\<lparr>lf_buffer := []\<rparr>))
      else (if length xs = sat_add_usize cap 2 then Full else NeedMore, c))"
  using assms not_ends [of NL xs] by (simp add: lf_next_eq lf_take_def lf_idle_def lf_limit_def)

lemma line_chunk_spec:
  "0 < cap \<Longrightarrow> \<exists>c'. decode_chunk lf_feed lf_next (lf_idle cap rej) bs
     = Some (fst (line_spec cap rej bs), Finished (snd (line_spec cap rej bs)), c')"
proof (induction cap rej bs rule: line_spec.induct)
  case (1 cap rej bs)
  let ?c = "lf_idle cap rej" and ?lim = "sat_add_usize cap 2" and ?l = "first_line bs"
    and ?dec = "decode_chunk lf_feed lf_next"
  note c = lf_idle_facts [OF "1.prems", of rej]
  let ?k = "min ?lim (through bs)"
  let ?c1 = "lf_take (take ?k bs) ?c"
  have lim: "0 < ?lim" using limit_pos [of ?c] "1.prems" c(3) by (simp add: lf_idle_def)
  have feed: "?dec ?c bs = ?dec ?c1 (drop ?k bs)" if "bs \<noteq> []"
    using lfc.chunk_feed [OF c(1,2) that lf_feed_open(1) [OF c(1) lf_settled_open [OF c(2)] that]] c(3)
    by (simp add: lf_idle_def)
  note next1 = lf_next_filled [OF "1.prems" refl, of "take ?k bs" rej, unfolded first_line_take]
  consider "bs = []" | "bs \<noteq> []" "?lim \<le> length ?l" | "bs \<noteq> []" "length ?l < ?lim" "NL \<notin> set bs"
    | "length ?l < ?lim" "NL \<in> set bs"
    by linarith
  then show ?case
  proof cases
    case 1
    then show ?thesis using lfc.chunk_nil [OF c(2)] lim by (subst (1 2) line_spec.simps) simp
  next
    case 2
    then have k: "?k = ?lim" by (simp add: through_def)
    have nl: "NL \<notin> set (take ?lim bs)"
      unfolding first_line_prefix [OF 2(2)] by (rule NL_first_line)
    have len: "length (take ?lim bs) = ?lim"
      using 2(2) length_takeWhile_le [of "\<lambda>b. b \<noteq> NL" bs] by simp
    have n: "lf_next ?c1 = (if rej \<and> NUL \<in> set (take ?lim ?l) then (Malformed EmbeddedNul, ?c1\<lparr>lf_poisoned := True\<rparr>)
        else (Full, ?c1))"
      using next1 nl len unfolding k by simp
    show ?thesis
    proof (cases "rej \<and> NUL \<in> set (take ?lim ?l)")
      case True
      with n have "lf_next ?c1 = (Malformed EmbeddedNul, ?c1\<lparr>lf_poisoned := True\<rparr>)" by simp
      from lfc.chunk_malformed [OF this] feed 2 True show ?thesis
        by (subst (1 2) line_spec.simps) (simp add: Let_def)
    next
      case False
      with n have "lf_next ?c1 = (Full, ?c1)" by simp
      from lfc.chunk_full [OF this] feed 2 False show ?thesis
        by (subst (1 2) line_spec.simps) (auto simp: Let_def)
    qed
  next
    case 3
    then have k: "?k = length bs" by (simp add: through_def first_line_all)
    have n: "lf_next ?c1 = (if rej \<and> NUL \<in> set bs then (Malformed EmbeddedNul, ?c1\<lparr>lf_poisoned := True\<rparr>)
        else (NeedMore, ?c1))"
      using next1 3 unfolding k by (simp add: first_line_all)
    show ?thesis
    proof (cases "rej \<and> NUL \<in> set bs")
      case True
      with n have "lf_next ?c1 = (Malformed EmbeddedNul, ?c1\<lparr>lf_poisoned := True\<rparr>)" by simp
      from lfc.chunk_malformed [OF this] feed 3 True show ?thesis
        by (subst (1 2) line_spec.simps) (simp add: Let_def first_line_all)
    next
      case False
      with n have "lf_next ?c1 = (NeedMore, ?c1)" by simp
      from lfc.chunk_nil [OF this] feed 3 False k show ?thesis
        by (subst (1 2) line_spec.simps) (auto simp: Let_def first_line_all)
    qed
  next
    case 4
    let ?rest = "drop (length ?l + 1) bs"
    have ne: "bs \<noteq> []" using 4(2) by auto
    have k: "?k = length ?l + 1" using 4 by (simp add: through_def min_def)
    have pre: "take (length ?l + 1) bs = ?l @ [NL]"
      by (subst (2) line_parts [OF 4(2), symmetric]) simp
    have tk: "take ?k bs = ?l @ [NL]" unfolding k by (rule pre)
    have fl: "first_line (?l @ [NL]) = ?l" using NL_first_line [of "length ?l" bs] by (simp add: first_line_append)
    have idle: "?c1\<lparr>lf_buffer := []\<rparr> = ?c" unfolding tk by (simp add: lf_take_def lf_idle_def ends_with_def)
    have n: "lf_next ?c1 = (if rej \<and> NUL \<in> set ?l then (Malformed EmbeddedNul, ?c1\<lparr>lf_poisoned := True\<rparr>)
        else if length (strip_cr ?l) > cap then (Full, ?c1\<lparr>lf_overflowed := True\<rparr>)
        else (Frame (strip_cr ?l), ?c))"
      using lf_next_filled [OF "1.prems" refl, of "take ?k bs" rej] idle unfolding tk fl by simp
    consider "rej \<and> NUL \<in> set ?l" | "\<not> (rej \<and> NUL \<in> set ?l)" "length (strip_cr ?l) > cap"
      | "\<not> (rej \<and> NUL \<in> set ?l)" "\<not> length (strip_cr ?l) > cap" by blast
    then show ?thesis
    proof cases
      case a: 1
      with n have "lf_next ?c1 = (Malformed EmbeddedNul, ?c1\<lparr>lf_poisoned := True\<rparr>)" by simp
      from lfc.chunk_malformed [OF this] feed ne 4 a show ?thesis
        by (subst (1 2) line_spec.simps) (simp add: Let_def)
    next
      case a: 2
      with n have "lf_next ?c1 = (Full, ?c1\<lparr>lf_overflowed := True\<rparr>)" by auto
      from lfc.chunk_full [OF this] feed ne 4 a show ?thesis
        by (subst (1 2) line_spec.simps) (auto simp: Let_def)
    next
      case a: 3
      with n have "lf_next ?c1 = (Frame (strip_cr ?l), ?c)" by auto
      from lfc.chunk_frame [OF this, of ?rest] feed ne k 4 a "1.IH" [OF refl refl _ _ _ "1.prems"] show ?thesis
        by (subst (1 2) line_spec.simps) (auto simp: Let_def split: prod.splits)
    qed
  qed
qed

lemma line_reads_spec:
  assumes "0 < cap"
  shows "\<exists>c'. decode_reads lf_feed lf_next (lf_idle cap rej) (r # rs)
     = Some (fst (line_spec cap rej (concat (r # rs))), Finished (snd (line_spec cap rej (concat (r # rs)))), c')"
proof -
  note inv = lf_idle_facts(1) [OF assms, of rej]
  obtain c' where ch: "decode_chunk lf_feed lf_next (lf_idle cap rej) (concat (r # rs))
      = Some (fst (line_spec cap rej (concat (r # rs))), Finished (snd (line_spec cap rej (concat (r # rs)))), c')"
    using line_chunk_spec [OF assms] by blast
  obtain fs st e where re: "decode_reads lf_feed lf_next (lf_idle cap rej) (r # rs) = Some (fs, st, e)"
    using lfc.reads_return [OF inv] by blast
  show ?thesis using lfc.partition_invariant [OF inv, of r rs] unfolding ch re by simp
qed

lemma lf_new_idle: "lf_new cap = Some c \<Longrightarrow> 0 < cap \<and> c = lf_idle cap False"
  by (auto simp: lf_new_def lf_idle_def split: if_splits)

lemma lf_configured: "reject_embedded_nul (lf_idle cap rej) = lf_idle cap True"
  by (simp add: reject_embedded_nul_def lf_idle_def)

section \<open>Any sequence of calls\<close>







section \<open>Properties\<close>

text \<open>
  (C16) The line framer decodes every byte stream as the reference definition, with and without
  NUL rejection, however the transport cuts the stream into reads: the driver returns, its
  assertion never fails, and the frames and the final status are those of \<open>line_spec\<close> on the
  whole stream.
\<close>

theorem line_decodes_reference:
  assumes "lf_new cap = Some c" and "c' = (if rej then reject_embedded_nul c else c)"
  shows "\<exists>c''. decode_reads lf_feed lf_next c' (r # rs)
    = Some (fst (line_spec cap rej (concat (r # rs))), Finished (snd (line_spec cap rej (concat (r # rs)))), c'')"
  using line_reads_spec [of cap rej r rs] lf_new_idle [OF assms(1)] assms(2)
  by (cases rej) (simp_all add: lf_configured)

theorem line_decodes_reference_witness:
  "\<exists>c c'. lf_new 2 = Some c \<and> decode_reads lf_feed lf_next (reject_embedded_nul c) [[104, 105, CR], [NL, NL, 0]]
    = Some ([[104, 105], []], Finished (StMalformed EmbeddedNul), c')"
proof -
  obtain c where c: "lf_new 2 = Some c" by (simp add: lf_new_def)
  have "line_spec 2 True [104, 105, CR, NL, NL, 0] = ([[104, 105], []], StMalformed EmbeddedNul)"
    by (subst line_spec.simps, simp add: Let_def sat_add_usize_def usize_max_def strip_cr_def ends_with_def,
        subst line_spec.simps, simp add: Let_def sat_add_usize_def usize_max_def strip_cr_def ends_with_def,
        subst line_spec.simps, simp add: Let_def sat_add_usize_def usize_max_def)
  with c line_decodes_reference [OF c, of _ True "[104, 105, CR]" "[[NL, NL, 0]]"] show ?thesis by simp
qed



text \<open>
  \<open>finish\<close> is the exception: it can answer \<open>Malformed\<close> without recording it, although the
  documentation of \<open>feed\<close> says that bytes after a \<open>Malformed\<close> outcome are ignored.
\<close>

lemma line_finish_malformed_not_sticky:
  "\<exists>c. fst (lf_finish False c) = Malformed UnterminatedFinalLine
    \<and> fst (lf_feed [NL] (snd (lf_finish False c))) = 1
    \<and> fst (lf_next (snd (lf_feed [NL] (snd (lf_finish False c))))) = Frame [65]"
proof -
  have "sat_add_usize 4 2 = 6" by (simp add: sat_add_usize_def usize_max_def)
  then show ?thesis
    by (intro exI [of _ "(lf_idle 4 False)\<lparr>lf_buffer := [65]\<rparr>"])
      (simp add: lf_idle_def lf_feed_def lf_finish_def lf_next_def ends_with_def)
qed

end
