(* ===== verification/Timers.thy ===== *)
theory Timers
  imports Bytes_Be
begin

text \<open>
  The replay-safe timer helpers of \<open>tina/src/time.rs\<close>, \<open>Backoff\<close> and \<open>RecurringTick\<close>, and the
  \<open>Deadline\<close> of \<open>tina/src/context.rs\<close> they build on.

  A \<open>Duration\<close> is its number of nanoseconds, at most \<open>duration_max\<close>; an \<open>Instant\<close> is the number
  of nanoseconds since the clock's origin, at most \<open>instant_max\<close> (64-bit signed seconds, as on
  Linux). Counters are words of their width.
\<close>

section \<open>Instants, durations and deadlines\<close>

type_synonym duration = nat
type_synonym instant = nat

definition nanos_per_sec :: nat where
  "nanos_per_sec = 1000000000"

definition duration_max :: duration where
  "duration_max = (2 ^ 64 - 1) * nanos_per_sec + 999999999"

definition instant_max :: instant where
  "instant_max = (2 ^ 63 - 1) * nanos_per_sec + 999999999"

definition checked_add_instant :: "instant \<Rightarrow> duration \<Rightarrow> instant option" where
  "checked_add_instant t d = (if t + d \<le> instant_max then Some (t + d) else None)"

record deadline =
  dl_deadline :: instant

definition deadline_saturation_ceiling :: duration where
  "deadline_saturation_ceiling = 60 * 60 * 24 * 365 * 100 * nanos_per_sec"

definition from_instant :: "instant \<Rightarrow> duration \<Rightarrow> deadline" where
  "from_instant now after =
     \<lparr>dl_deadline =
        (case checked_add_instant now after of Some t \<Rightarrow> t
         | None \<Rightarrow> (case checked_add_instant now deadline_saturation_ceiling of
                      Some t \<Rightarrow> t | None \<Rightarrow> now))\<rparr>"

definition remaining :: "deadline \<Rightarrow> instant \<Rightarrow> duration option" where
  "remaining d now = (if now \<le> dl_deadline d then Some (dl_deadline d - now) else None)"

definition remaining_or_zero :: "deadline \<Rightarrow> instant \<Rightarrow> duration" where
  "remaining_or_zero d now = (case remaining d now of Some r \<Rightarrow> r | None \<Rightarrow> 0)"

definition expired :: "deadline \<Rightarrow> instant \<Rightarrow> bool" where
  "expired d now \<longleftrightarrow> now \<ge> dl_deadline d"

definition duration_mul_saturating :: "duration \<Rightarrow> nat \<Rightarrow> duration" where
  "duration_mul_saturating d factor =
     (let nanos = min (d * factor) (2 ^ 128 - 1);
          secs = nanos div nanos_per_sec;
          sub_nanos = nanos mod nanos_per_sec
      in if secs > 2 ^ 64 - 1 then duration_max else secs * nanos_per_sec + sub_nanos)"

definition checked_add_or_max :: "instant \<Rightarrow> duration \<Rightarrow> instant" where
  "checked_add_or_max now after = dl_deadline (from_instant now after)"

definition elapsed_periods_saturating :: "duration \<Rightarrow> duration \<Rightarrow> u64" where
  "elapsed_periods_saturating overdue period =
     (if period = 0 then - 1
      else let periods = overdue div period in
        if periods + 1 \<le> 2 ^ 128 - 1 \<and> periods + 1 \<le> 2 ^ 64 - 1 then of_nat (periods + 1) else - 1)"

section \<open>Backoff\<close>

datatype timer_config_error =
  ZeroIntervalPeriod | ZeroBackoffDelay | MaxBackoffBelowInitial | ZeroBackoffMultiplier
  | ZeroMaxAttempts

datatype 'a timer_decision = Sleep 'a | DeadlineElapsed | Exhausted

fun timer_map :: "('a \<Rightarrow> 'b) \<Rightarrow> 'a timer_decision \<Rightarrow> 'b timer_decision" where
  "timer_map f (Sleep v) = Sleep (f v)"
| "timer_map f DeadlineElapsed = DeadlineElapsed"
| "timer_map f Exhausted = Exhausted"

record backoff_delay =
  bd_attempt :: u64
  bd_delay :: duration
  bd_deadline_capped :: bool

record backoff =
  bo_initial :: duration
  bo_max :: duration
  bo_multiplier :: u32
  bo_max_attempts :: u64
  bo_attempts_started :: u64
  bo_next :: duration

definition bo_new ::
    "duration \<Rightarrow> duration \<Rightarrow> u32 \<Rightarrow> u64 \<Rightarrow> timer_config_error + backoff" where
  "bo_new initial mx multiplier max_attempts =
     (if initial = 0 \<or> mx = 0 then Inl ZeroBackoffDelay
      else if mx < initial then Inl MaxBackoffBelowInitial
      else if multiplier = 0 then Inl ZeroBackoffMultiplier
      else if max_attempts = 0 then Inl ZeroMaxAttempts
      else Inr \<lparr>bo_initial = initial, bo_max = mx, bo_multiplier = multiplier,
             bo_max_attempts = max_attempts, bo_attempts_started = 0, bo_next = initial\<rparr>)"

definition bo_constant :: "duration \<Rightarrow> u64 \<Rightarrow> timer_config_error + backoff" where
  "bo_constant delay max_attempts = bo_new delay delay 1 max_attempts"

definition bo_exponential :: "duration \<Rightarrow> duration \<Rightarrow> u64 \<Rightarrow> timer_config_error + backoff" where
  "bo_exponential initial mx max_attempts = bo_new initial mx 2 max_attempts"

definition bo_peek :: "backoff \<Rightarrow> duration option" where
  "bo_peek b = (if bo_attempts_started b \<ge> bo_max_attempts b then None else Some (bo_next b))"

definition next_delay :: "backoff \<Rightarrow> backoff_delay timer_decision \<times> backoff" where
  "next_delay b =
     (if bo_attempts_started b \<ge> bo_max_attempts b then (Exhausted, b)
      else
        let started = sat_add (bo_attempts_started b) 1 in
        (Sleep \<lparr>bd_attempt = started, bd_delay = bo_next b, bd_deadline_capped = False\<rparr>,
         b\<lparr>bo_attempts_started := started,
           bo_next := min (duration_mul_saturating (bo_next b) (unat (bo_multiplier b))) (bo_max b)\<rparr>))"

definition next_delay_until ::
    "instant \<Rightarrow> deadline option \<Rightarrow> backoff \<Rightarrow> backoff_delay timer_decision \<times> backoff" where
  "next_delay_until now deadline b =
     (if bo_attempts_started b \<ge> bo_max_attempts b then (Exhausted, b)
      else
        case (case deadline of
                None \<Rightarrow> Some (bo_next b, False)
              | Some d \<Rightarrow>
                  let left = remaining_or_zero d now in
                  if left = 0 then None
                  else if bo_next b > left then Some (left, True)
                  else Some (bo_next b, False)) of
          None \<Rightarrow> (DeadlineElapsed, b)
        | Some (delay, capped) \<Rightarrow>
            let started = sat_add (bo_attempts_started b) 1 in
            (Sleep \<lparr>bd_attempt = started, bd_delay = delay, bd_deadline_capped = capped\<rparr>,
             b\<lparr>bo_attempts_started := started,
               bo_next := min (duration_mul_saturating (bo_next b) (unat (bo_multiplier b))) (bo_max b)\<rparr>))"

definition bo_reset :: "backoff \<Rightarrow> backoff" where
  "bo_reset b = b\<lparr>bo_attempts_started := 0, bo_next := bo_initial b\<rparr>"

text \<open>A retry loop asks for one delay after another.\<close>

fun next_delays :: "nat \<Rightarrow> backoff \<Rightarrow> backoff_delay timer_decision list" where
  "next_delays 0 b = []"
| "next_delays (Suc n) b = (case next_delay b of (d, b') \<Rightarrow> d # next_delays n b')"

fun next_delays_until ::
    "(instant \<times> deadline option) list \<Rightarrow> backoff \<Rightarrow> backoff_delay timer_decision list \<times> backoff" where
  "next_delays_until [] b = ([], b)"
| "next_delays_until ((now, dl) # calls) b =
     (case next_delay_until now dl b of (d, b') \<Rightarrow>
      case next_delays_until calls b' of (ds, b'') \<Rightarrow> (d # ds, b''))"

section \<open>Recurring ticks\<close>

datatype recurring_catch_up = CatchUpSkip | CatchUpBounded u32 | CatchUpDelay

type_synonym tick_token = u64

record tick_report =
  tr_tick_number :: u64
  tr_scheduled_at :: instant
  tr_observed_at :: instant
  tr_missed_ticks :: u64
  tr_catch_up_remaining :: u32

datatype tick_decision = TickSleep duration tick_token tick_report | TickSkip tick_report

datatype tick_stale = StaleOrdinal tick_token tick_token | Cleared tick_token

record recurring_tick =
  rt_period :: duration
  rt_catch_up :: recurring_catch_up
  rt_next_due :: "instant option"
  rt_next_tick_number :: u64
  rt_next_ordinal :: u64
  rt_armed_ordinal :: "u64 option"
  rt_catch_up_pending :: u32

definition tick_every :: "duration \<Rightarrow> timer_config_error + recurring_tick" where
  "tick_every period =
     (if period = 0 then Inl ZeroIntervalPeriod
      else Inr \<lparr>rt_period = period, rt_catch_up = CatchUpDelay, rt_next_due = None,
             rt_next_tick_number = 1, rt_next_ordinal = 1, rt_armed_ordinal = None,
             rt_catch_up_pending = 0\<rparr>)"

definition tick_catch_up :: "recurring_catch_up \<Rightarrow> recurring_tick \<Rightarrow> recurring_tick" where
  "tick_catch_up policy r = r\<lparr>rt_catch_up := policy\<rparr>"

definition tick_clear :: "recurring_tick \<Rightarrow> recurring_tick" where
  "tick_clear r = r\<lparr>rt_next_due := None, rt_armed_ordinal := None, rt_catch_up_pending := 0\<rparr>"

definition tick_validate :: "recurring_tick \<Rightarrow> tick_token \<Rightarrow> tick_stale + tick_token" where
  "tick_validate r token =
     (case rt_armed_ordinal r of
        Some expected \<Rightarrow> if expected = token then Inr token else Inl (StaleOrdinal token expected)
      | None \<Rightarrow> Inl (Cleared token))"

definition arm_sleep ::
    "duration \<Rightarrow> instant \<Rightarrow> instant \<Rightarrow> u64 \<Rightarrow> recurring_tick \<Rightarrow> tick_decision \<times> recurring_tick" where
  "arm_sleep delay scheduled_at observed_at missed_ticks r =
     (let ordinal = rt_next_ordinal r;
          tick_number = sat_add (rt_next_tick_number r) missed_ticks
      in (TickSleep delay ordinal
            \<lparr>tr_tick_number = tick_number, tr_scheduled_at = scheduled_at,
             tr_observed_at = observed_at, tr_missed_ticks = missed_ticks,
             tr_catch_up_remaining = rt_catch_up_pending r\<rparr>,
          r\<lparr>rt_next_ordinal := sat_add ordinal 1, rt_armed_ordinal := Some ordinal,
            rt_next_tick_number := sat_add tick_number 1\<rparr>))"

text \<open>The slot after an overdue burst, repeated in three places of \<open>next\<close>.\<close>

definition slot_past_burst :: "instant \<Rightarrow> instant \<Rightarrow> duration \<Rightarrow> u64 \<Rightarrow> instant" where
  "slot_past_burst now scheduled_at period elapsed_periods =
     (case checked_add_instant scheduled_at (duration_mul_saturating period (unat elapsed_periods)) of
        Some slot \<Rightarrow> if slot > now then slot else checked_add_or_max now period
      | None \<Rightarrow> checked_add_or_max now period)"

text \<open>The coalescing branch that \<open>Skip\<close> and a zero \<open>Bounded\<close> budget share.\<close>

definition tick_skip :: "instant \<Rightarrow> instant \<Rightarrow> u64 \<Rightarrow> recurring_tick \<Rightarrow> tick_decision \<times> recurring_tick" where
  "tick_skip now scheduled_at elapsed_periods r =
     (let missed = sat_sub elapsed_periods 1;
          tick_number = sat_add (rt_next_tick_number r) missed
      in (TickSkip \<lparr>tr_tick_number = tick_number, tr_scheduled_at = scheduled_at,
            tr_observed_at = now, tr_missed_ticks = missed, tr_catch_up_remaining = 0\<rparr>,
          r\<lparr>rt_next_due := Some (slot_past_burst now scheduled_at (rt_period r) elapsed_periods),
            rt_next_tick_number := sat_add tick_number 1, rt_armed_ordinal := None\<rparr>))"

text \<open>The overdue half of \<open>next\<close>, once the schedule is known to be due.\<close>

definition tick_overdue :: "instant \<Rightarrow> instant \<Rightarrow> recurring_tick \<Rightarrow> tick_decision \<times> recurring_tick" where
  "tick_overdue now scheduled_at r =
     (let elapsed_periods = elapsed_periods_saturating (now - scheduled_at) (rt_period r);
          drift = (let slot = checked_add_or_max now (rt_period r) in
                   arm_sleep (rt_period r) slot now 0 (r\<lparr>rt_next_due := Some slot\<rparr>))
      in case rt_catch_up r of
           CatchUpDelay \<Rightarrow> drift
         | CatchUpSkip \<Rightarrow>
             if sat_sub elapsed_periods 1 = 0 then drift
             else tick_skip now scheduled_at elapsed_periods r
         | CatchUpBounded budget \<Rightarrow>
             if budget = 0 then tick_skip now scheduled_at elapsed_periods r
             else
               let immediate = min (ucast budget) elapsed_periods;
                   skipped = elapsed_periods - immediate;
                   queued = sat_sub immediate 1
               in arm_sleep 0 scheduled_at now skipped
                    (r\<lparr>rt_catch_up_pending := (if unat queued \<le> 2 ^ 32 - 1 then ucast queued else - 1),
                      rt_next_due := Some (slot_past_burst now scheduled_at (rt_period r) elapsed_periods)\<rparr>))"

definition tick_next :: "instant \<Rightarrow> recurring_tick \<Rightarrow> tick_decision \<times> recurring_tick" where
  "tick_next now r =
     (if rt_catch_up_pending r > 0
      then arm_sleep 0 (case rt_next_due r of Some t \<Rightarrow> t | None \<Rightarrow> now) now 1
             (r\<lparr>rt_catch_up_pending := rt_catch_up_pending r - 1\<rparr>)
      else
        let (scheduled_at, r) =
          (case rt_next_due r of
             Some t \<Rightarrow> (t, r)
           | None \<Rightarrow> let t = checked_add_or_max now (rt_period r) in (t, r\<lparr>rt_next_due := Some t\<rparr>))
        in if scheduled_at > now then arm_sleep (scheduled_at - now) scheduled_at now 0 r
           else tick_overdue now scheduled_at r)"

text \<open>A service that arms, clears and re-arms its tick.\<close>

datatype tick_op = TickNext instant | TickClear

fun tick_run :: "tick_op list \<Rightarrow> recurring_tick \<Rightarrow> tick_decision option list \<times> recurring_tick" where
  "tick_run [] r = ([], r)"
| "tick_run (TickNext now # ops) r =
     (case tick_next now r of (d, r') \<Rightarrow> case tick_run ops r' of (ds, r'') \<Rightarrow> (Some d # ds, r''))"
| "tick_run (TickClear # ops) r = (case tick_run ops (tick_clear r) of (ds, r'') \<Rightarrow> (None # ds, r''))"

section \<open>Backoff delays\<close>

lemma duration_mul_saturating_eq: "duration_mul_saturating d f = min (d * f) duration_max"
proof -
  let ?n = "min (d * f) (2 ^ 128 - 1)"
  have max: "duration_max = 2 ^ 64 * nanos_per_sec - 1"
    by (simp add: duration_max_def nanos_per_sec_def)
  show ?thesis
  proof (cases "?n div nanos_per_sec > 2 ^ 64 - 1")
    case True
    then have "2 ^ 64 * nanos_per_sec \<le> ?n"
      by (simp add: nanos_per_sec_def less_eq_div_iff_mult_less_eq)
    then have "2 ^ 64 * nanos_per_sec \<le> d * f" by simp
    then have "duration_max \<le> d * f" unfolding max by (rule le_trans [OF diff_le_self])
    with True show ?thesis by (simp add: duration_mul_saturating_def Let_def)
  next
    case False
    then have "?n < 2 ^ 64 * nanos_per_sec"
      by (simp add: nanos_per_sec_def not_less div_less_iff_less_mult less_Suc_eq_le [symmetric])
    then have "d * f \<le> duration_max" "?n = d * f"
      unfolding max by (simp_all add: nanos_per_sec_def min_def split: if_splits)
    with False show ?thesis by (simp add: duration_mul_saturating_def Let_def)
  qed
qed

lemma backoff_grow:
  assumes "mx \<le> duration_max" and "0 < (m::nat)"
  shows "min (duration_mul_saturating (min mx (i * m ^ k)) m) mx = min mx (i * m ^ Suc k)"
proof (cases "mx \<le> i * m ^ k")
  case True
  then have "mx \<le> i * m ^ Suc k" and "mx \<le> mx * m"
    using assms(2) by (simp_all add: mult.left_commute trans_le_add1 le_trans [OF True])
  with True assms(1) show ?thesis by (simp add: duration_mul_saturating_eq)
next
  case False
  then show ?thesis using assms(1) by (simp add: duration_mul_saturating_eq algebra_simps)
qed

lemma unat_lt_u64: "unat (w :: u64) < 2 ^ 64"
  using unsigned_less [of w, where 'a = nat] by simp

lemma unat_of_nat_u64: "k < 2 ^ 64 \<Longrightarrow> unat (of_nat k :: u64) = k"
  by (simp only: unat_of_nat) simp

lemma sat_add_of_nat: "k + 1 < 2 ^ 64 \<Longrightarrow> sat_add (of_nat k :: u64) 1 = of_nat (k + 1)"
proof -
  assume "k + 1 < 2 ^ 64"
  then have "unat (of_nat k :: u64) + unat (1 :: u64) < 2 ^ LENGTH(64)"
    by (simp add: unat_of_nat_u64)
  then show ?thesis unfolding sat_add_def by (simp only: if_True) simp
qed

text \<open>The state after \<open>k\<close> delays have been handed out.\<close>

definition backoff_at :: "nat \<Rightarrow> backoff \<Rightarrow> bool" where
  "backoff_at k b \<longleftrightarrow> k \<le> unat (bo_max_attempts b) \<and> bo_attempts_started b = of_nat k
     \<and> bo_max b \<le> duration_max \<and> 0 < unat (bo_multiplier b)
     \<and> bo_next b = min (bo_max b) (bo_initial b * unat (bo_multiplier b) ^ k)"

lemma backoff_at_new:
  assumes "bo_new i mx m n = Inr b" and "mx \<le> duration_max"
  shows "backoff_at 0 b" and "bo_initial b = i" and "bo_max b = mx" and "bo_multiplier b = m"
    and "bo_max_attempts b = n"
  using assms by (auto simp: bo_new_def backoff_at_def unat_gt_0 split: if_splits)

lemma backoff_attempts: "backoff_at k b \<Longrightarrow> bo_attempts_started b \<ge> bo_max_attempts b \<longleftrightarrow> k = unat (bo_max_attempts b)"
proof -
  assume "backoff_at k b"
  then have "k \<le> unat (bo_max_attempts b)" "unat (bo_attempts_started b) = k"
    using unat_lt_u64 [of "bo_max_attempts b"] by (simp_all add: backoff_at_def unat_of_nat_u64)
  then show ?thesis by (auto simp: word_le_nat_alt)
qed

lemma backoff_step:
  assumes "backoff_at k b" and "k < unat (bo_max_attempts b)"
    and "b' = b\<lparr>bo_attempts_started := sat_add (bo_attempts_started b) 1,
      bo_next := min (duration_mul_saturating (bo_next b) (unat (bo_multiplier b))) (bo_max b)\<rparr>"
  shows "backoff_at (Suc k) b'" and "sat_add (bo_attempts_started b) 1 = of_nat (Suc k)"
proof -
  have "k + 1 < 2 ^ 64"
    using assms(2) unat_lt_u64 [of "bo_max_attempts b"] by simp
  then show "sat_add (bo_attempts_started b) 1 = of_nat (Suc k)"
    using assms(1) sat_add_of_nat [of k] by (simp add: backoff_at_def)
  then show "backoff_at (Suc k) b'"
    using assms backoff_grow [of "bo_max b" "unat (bo_multiplier b)" "bo_initial b" k]
    by (simp add: backoff_at_def)
qed

lemma next_delays_nth:
  assumes "backoff_at k b" and "i < n"
  shows "next_delays n b ! i =
    (if k + i < unat (bo_max_attempts b)
     then Sleep \<lparr>bd_attempt = of_nat (k + i + 1),
            bd_delay = min (bo_max b) (bo_initial b * unat (bo_multiplier b) ^ (k + i)),
            bd_deadline_capped = False\<rparr>
     else Exhausted)"
  using assms
proof (induction n arbitrary: b k i)
  case (Suc n)
  show ?case
  proof (cases "k = unat (bo_max_attempts b)")
    case True
    then have n: "next_delay b = (Exhausted, b)"
      using backoff_attempts [OF Suc.prems(1)] by (simp add: next_delay_def)
    show ?thesis
    proof (cases i)
      case (Suc j)
      then show ?thesis using Suc.IH [OF Suc.prems(1), of j] Suc.prems(2) True n by simp
    qed (use n True in simp)
  next
    case False
    then have k: "k < unat (bo_max_attempts b)" using Suc.prems(1) by (simp add: backoff_at_def)
    obtain b' where b': "b' = b\<lparr>bo_attempts_started := sat_add (bo_attempts_started b) 1,
      bo_next := min (duration_mul_saturating (bo_next b) (unat (bo_multiplier b))) (bo_max b)\<rparr>" by blast
    note st = backoff_step [OF Suc.prems(1) k b']
    have n: "next_delay b = (Sleep \<lparr>bd_attempt = of_nat (Suc k), bd_delay = bo_next b, bd_deadline_capped = False\<rparr>, b')"
      using backoff_attempts [OF Suc.prems(1)] False st(2) by (simp add: next_delay_def b' Let_def)
    have same: "bo_max b' = bo_max b" "bo_initial b' = bo_initial b" "bo_multiplier b' = bo_multiplier b"
      "bo_max_attempts b' = bo_max_attempts b" by (simp_all add: b')
    show ?thesis
    proof (cases i)
      case 0
      then show ?thesis using n k Suc.prems(1) by (simp add: backoff_at_def)
    next
      case (Suc j)
      then show ?thesis using Suc.IH [OF st(1), of j] Suc.prems(2) n same by simp
    qed
  qed
qed simp

fun is_sleep :: "'a timer_decision \<Rightarrow> bool" where
  "is_sleep (Sleep _) = True"
| "is_sleep _ = False"

text \<open>One call with a deadline: it sleeps within the deadline or leaves the state alone.\<close>

definition delay_ok :: "duration \<Rightarrow> instant \<times> deadline option \<Rightarrow> backoff_delay timer_decision \<Rightarrow> bool" where
  "delay_ok bound call d = (case d of
     Sleep s \<Rightarrow> bd_delay s \<le> bound \<and> (case snd call of None \<Rightarrow> \<not> bd_deadline_capped s
       | Some dl \<Rightarrow> fst call + bd_delay s \<le> dl_deadline dl)
   | DeadlineElapsed \<Rightarrow> (case snd call of None \<Rightarrow> False | Some dl \<Rightarrow> expired dl (fst call))
   | Exhausted \<Rightarrow> True)"

lemma remaining_or_zero_eq: "remaining_or_zero dl now = dl_deadline dl - now"
  by (simp add: remaining_or_zero_def remaining_def)

lemma next_delay_until_spec:
  assumes "backoff_at k b" and "next_delay_until now dl b = (d, b')"
  shows "backoff_at (if is_sleep d then Suc k else k) b' \<and> bo_max b' = bo_max b
    \<and> bo_max_attempts b' = bo_max_attempts b \<and> bo_initial b' = bo_initial b
    \<and> bo_multiplier b' = bo_multiplier b \<and> delay_ok (bo_max b) (now, dl) d
    \<and> (d = Exhausted \<longleftrightarrow> k = unat (bo_max_attempts b))"
proof (cases "k = unat (bo_max_attempts b)")
  case True
  then show ?thesis
    using assms backoff_attempts [OF assms(1)] by (auto simp: next_delay_until_def delay_ok_def)
next
  case False
  then have k: "k < unat (bo_max_attempts b)" using assms(1) by (simp add: backoff_at_def)
  note st = backoff_step(1) [OF assms(1) k refl]
  have le: "bo_next b \<le> bo_max b" using assms(1) by (simp add: backoff_at_def)
  show ?thesis
    using assms(2) st le False backoff_attempts [OF assms(1)] assms(1)
    by (auto simp: next_delay_until_def delay_ok_def Let_def remaining_or_zero_eq expired_def
        split: option.splits if_splits)
qed

lemma next_delays_until_spec:
  assumes "backoff_at k b" and "next_delays_until calls b = (ds, b')"
  shows "length ds = length calls \<and> backoff_at (k + length (filter is_sleep ds)) b'
    \<and> bo_max_attempts b' = bo_max_attempts b \<and> list_all2 (delay_ok (bo_max b)) calls ds"
  using assms
proof (induction calls arbitrary: k b ds)
  case (Cons call calls)
  obtain now dl where call: "call = (now, dl)" by fastforce
  obtain d b1 where d: "next_delay_until now dl b = (d, b1)" by fastforce
  obtain ds' where ds': "next_delays_until calls b1 = (ds', b')" "ds = d # ds'"
    using Cons.prems(2) d call by (auto split: prod.splits)
  note one = next_delay_until_spec [OF Cons.prems(1) d]
  show ?case
    using Cons.IH [OF conjunct1 [OF one] ds'(1)] one ds'(2) call by (cases d) auto
qed simp

section \<open>Recurring ticks\<close>

fun tick_token_of :: "tick_decision option \<Rightarrow> tick_token option" where
  "tick_token_of (Some (TickSleep _ token _)) = Some token"
| "tick_token_of _ = None"

definition issued :: "tick_decision option list \<Rightarrow> tick_token list" where
  "issued ds = List.map_filter tick_token_of ds"

text \<open>The token of the latest operation, if that operation armed a sleep.\<close>

definition live_token :: "tick_decision option list \<Rightarrow> tick_token option" where
  "live_token ds = (if ds = [] then None else tick_token_of (last ds))"

lemma issued_simps [simp]:
  "issued [] = []" "issued (d # ds) = (case tick_token_of d of None \<Rightarrow> [] | Some t \<Rightarrow> [t]) @ issued ds"
  by (auto simp: issued_def map_filter_simps split: option.splits)

lemmas tick_defs = tick_next_def tick_overdue_def tick_skip_def arm_sleep_def Let_def

lemma tick_next_token:
  assumes "tick_next now r = (d, r')"
  shows "rt_armed_ordinal r' = tick_token_of (Some d)"
    and "rt_next_ordinal r' = (if tick_token_of (Some d) = None then rt_next_ordinal r else sat_add (rt_next_ordinal r) 1)"
    and "tick_token_of (Some d) \<in> {None, Some (rt_next_ordinal r)}"
  using assms by (auto simp: tick_defs split: if_splits option.splits recurring_catch_up.splits)

lemma tick_run_nil: "tick_run ops r = ([], r') \<Longrightarrow> r' = r"
  by (induction ops r rule: tick_run.induct) (auto split: prod.splits)

text \<open>Tokens are issued from \<open>rt_next_ordinal\<close> upwards, one per sleep, while the counter lasts.\<close>

lemma tick_run_tokens:
  assumes "tick_run ops r = (ds, r')" and "unat (rt_next_ordinal r) + length ops < 2 ^ 64"
  shows "sorted_wrt (<) (issued ds) \<and> (\<forall>t \<in> set (issued ds). rt_next_ordinal r \<le> t)"
    and "ds \<noteq> [] \<Longrightarrow> rt_armed_ordinal r' = live_token ds"
proof -
  have "sorted_wrt (<) (issued ds) \<and> (\<forall>t \<in> set (issued ds). rt_next_ordinal r \<le> t)
      \<and> (ds \<noteq> [] \<longrightarrow> rt_armed_ordinal r' = live_token ds) \<and> (ds = [] \<longrightarrow> r' = r)"
    using assms
  proof (induction ops r arbitrary: ds rule: tick_run.induct)
    case (2 now ops r)
    obtain d r1 where d: "tick_next now r = (d, r1)" by fastforce
    obtain ds1 where ds1: "tick_run ops r1 = (ds1, r')" "ds = Some d # ds1"
      using "2.prems"(1) d by (auto split: prod.splits)
    note tok = tick_next_token [OF d]
    have lt: "rt_next_ordinal r \<noteq> - 1" using "2.prems"(2) by (auto simp: unat_neg_one)
    have "unat (rt_next_ordinal r1) \<le> unat (rt_next_ordinal r) + 1"
      by (auto simp: tok(2) unat_sat_add)
    with "2.prems"(2) have "unat (rt_next_ordinal r1) + length ops < 2 ^ 64" by simp
    note ih = "2.IH" [OF d [symmetric] ds1(1) this]
    show ?case
    proof (cases "tick_token_of (Some d)")
      case None
      then show ?thesis using ih tok ds1(2) by (auto simp: live_token_def)
    next
      case (Some t)
      then have t: "t = rt_next_ordinal r" "rt_next_ordinal r1 = sat_add (rt_next_ordinal r) 1"
        using tok(2,3) by auto
      have "t < u" if "u \<in> set (issued ds1)" for u
        using that ih sat_add_one_gt [OF lt] t by (metis less_le_trans)
      then show ?thesis using ih tok(1) ds1(2) Some t(1) by (auto simp: live_token_def intro: less_imp_le)
    qed
  next
    case (3 ops r)
    obtain ds1 where ds1: "tick_run ops (tick_clear r) = (ds1, r')" "ds = None # ds1"
      using "3.prems"(1) by (auto split: prod.splits)
    have "rt_next_ordinal (tick_clear r) = rt_next_ordinal r" by (simp add: tick_clear_def)
    then show ?case
      using "3.IH" [OF ds1(1)] "3.prems"(2) ds1(2)
      by (cases "ds1 = []") (auto simp: live_token_def tick_clear_def)
  qed simp
  then show "sorted_wrt (<) (issued ds) \<and> (\<forall>t \<in> set (issued ds). rt_next_ordinal r \<le> t)"
    and "ds \<noteq> [] \<Longrightarrow> rt_armed_ordinal r' = live_token ds" by blast+
qed

text \<open>The schedule moves into the window \<open>(now, now + period]\<close>.\<close>

lemma checked_add_or_max_eq: "now + p \<le> instant_max \<Longrightarrow> checked_add_or_max now p = now + p"
  by (simp add: checked_add_or_max_def from_instant_def checked_add_instant_def)






text \<open>A monotone clock keeps the schedule within one period of the latest call.\<close>

definition instants :: "tick_op list \<Rightarrow> instant list" where
  "instants ops = List.map_filter (\<lambda>op. case op of TickNext now \<Rightarrow> Some now | TickClear \<Rightarrow> None) ops"

lemma instants_simps [simp]:
  "instants [] = []" "instants (TickNext now # ops) = now # instants ops"
  "instants (TickClear # ops) = instants ops"
  by (simp_all add: instants_def map_filter_simps)








section \<open>Properties\<close>

text \<open>
  (C25) A backoff hands out exactly the documented delays. The \<open>i\<close>-th call sleeps for
  \<open>min max (initial * multiplier ^ i)\<close>, with no wrap-around for any multiplier and any number
  of attempts, and every call after \<open>max_attempts\<close> is refused.
\<close>

theorem backoff_delays:
  assumes "bo_new initial mx multiplier attempts = Inr b" and "mx \<le> duration_max" and "i < n"
  shows "next_delays n b ! i =
    (if i < unat attempts
     then Sleep \<lparr>bd_attempt = of_nat (i + 1), bd_delay = min mx (initial * unat multiplier ^ i),
            bd_deadline_capped = False\<rparr>
     else Exhausted)"
  using next_delays_nth [OF backoff_at_new(1) [OF assms(1,2)] assms(3)]
    backoff_at_new(2-5) [OF assms(1,2)]
  by simp

theorem backoff_delays_witness:
  "\<exists>b. bo_exponential 5 20 4 = Inr b
    \<and> next_delays 5 b ! 3 = Sleep \<lparr>bd_attempt = 4, bd_delay = 20, bd_deadline_capped = False\<rparr>
    \<and> next_delays 5 b ! 4 = Exhausted"
proof -
  obtain b where b: "bo_new 5 20 2 4 = Inr b" by (simp add: bo_new_def)
  have "(20::nat) \<le> duration_max" by (simp add: duration_max_def nanos_per_sec_def)
  from backoff_delays [OF b this, of 3 5] backoff_delays [OF b this, of 4 5] b
  show ?thesis by (simp add: bo_exponential_def)
qed

text \<open>
  (C26) Retrying under deadlines. Whatever instants and deadlines a caller passes, no delay exceeds
  the configured maximum, sleeping a returned delay never passes the deadline it was asked
  with, a refusal for an elapsed deadline is made only when the deadline has expired, and over
  the whole sequence at most \<open>max_attempts\<close> sleeps are granted; refusals cost no attempt.
\<close>

theorem backoff_respects_deadlines:
  assumes "bo_new initial mx multiplier attempts = Inr b" and "mx \<le> duration_max"
    and "next_delays_until calls b = (ds, b')"
  shows "length ds = length calls \<and> list_all2 (delay_ok mx) calls ds
    \<and> length (filter is_sleep ds) \<le> unat attempts
    \<and> unat (bo_attempts_started b') = length (filter is_sleep ds)"
proof -
  note run = next_delays_until_spec [OF backoff_at_new(1) [OF assms(1,2)] assms(3)]
  have same: "bo_max b = mx" "bo_max_attempts b = attempts" using backoff_at_new [OF assms(1,2)] by auto
  have "backoff_at (length (filter is_sleep ds)) b'" "bo_max_attempts b' = attempts" using run same by simp_all
  then have "length (filter is_sleep ds) \<le> unat attempts"
    and "unat (bo_attempts_started b') = length (filter is_sleep ds)"
    using unat_lt_u64 [of attempts] by (auto simp: backoff_at_def unat_of_nat_u64)
  with run same show ?thesis by simp
qed

theorem backoff_respects_deadlines_witness:
  "\<exists>b ds b'. bo_new 5 20 2 4 = Inr b
    \<and> next_delays_until [(100, Some \<lparr>dl_deadline = 103\<rparr>), (103, Some \<lparr>dl_deadline = 103\<rparr>), (103, None)] b = (ds, b')
    \<and> map is_sleep ds = [True, False, True] \<and> unat (bo_attempts_started b') = 2"
proof -
  obtain b where b: "bo_new 5 20 2 4 = Inr b" by (simp add: bo_new_def)
  obtain ds b' where r: "next_delays_until [(100, Some \<lparr>dl_deadline = 103\<rparr>),
      (103, Some \<lparr>dl_deadline = 103\<rparr>), (103, None)] b = (ds, b')" by fastforce
  then have ds: "map is_sleep ds = [True, False, True]"
    using b by (auto simp: bo_new_def next_delay_until_def remaining_or_zero_def remaining_def Let_def
        sat_add_def duration_mul_saturating_eq duration_max_def nanos_per_sec_def word_le_nat_alt)
  have "(20::nat) \<le> duration_max" by (simp add: duration_max_def nanos_per_sec_def)
  from backoff_respects_deadlines [OF b this r]
  have "unat (bo_attempts_started b') = length (filter is_sleep ds)" by blast
  also have "\<dots> = length (filter id (map is_sleep ds))" by (simp add: filter_map comp_def)
  finally have "unat (bo_attempts_started b') = 2" by (simp add: ds)
  then show ?thesis using b r ds by (intro exI conjI)
qed

text \<open>
  (C22) Stale ticks are detected. Over any sequence of arming and clearing a recurring tick, fewer
  than \<open>2 ^ 64 - 1\<close> operations long, every sleep gets a new, strictly larger token, and a token
  validates exactly if it belongs to the latest operation and that operation armed a sleep;
  every token from before a re-arm, a skip or a clear is refused.
\<close>

theorem tick_tokens_fresh:
  assumes "tick_every period = Inr r0" and "tick_run ops (tick_catch_up policy r0) = (ds, r)"
    and "length ops < 2 ^ 64 - 1"
  shows "sorted_wrt (<) (issued ds) \<and> (tick_validate r token = Inr token \<longleftrightarrow> live_token ds = Some token)"
proof -
  let ?r = "tick_catch_up policy r0"
  have r0: "rt_next_ordinal ?r = 1" "rt_armed_ordinal ?r = None"
    using assms(1) by (auto simp: tick_every_def tick_catch_up_def split: if_splits)
  have "unat (rt_next_ordinal ?r) + length ops < 2 ^ 64" using assms(3) r0 by simp
  note run = tick_run_tokens [OF assms(2) this]
  have nil: "r = ?r" if "ds = []"
    using assms(2) that tick_run_nil by simp
  have "rt_armed_ordinal r = live_token ds"
    using run(2) nil r0(2) by (cases "ds = []") (auto simp: live_token_def)
  then show ?thesis using run(1) by (auto simp: tick_validate_def split: option.splits)
qed

theorem tick_tokens_fresh_witness:
  "\<exists>r0 ds r. tick_every 10 = Inr r0 \<and> tick_run [TickNext 100, TickNext 105] (tick_catch_up CatchUpSkip r0) = (ds, r)
    \<and> sorted_wrt (<) (issued ds) \<and> issued ds = [1, 2] \<and> tick_validate r 1 \<noteq> Inr 1"
proof -
  obtain r0 where r0: "tick_every 10 = Inr r0" by (simp add: tick_every_def)
  obtain ds r where run: "tick_run [TickNext 100, TickNext 105] (tick_catch_up CatchUpSkip r0) = (ds, r)" by fastforce
  have "checked_add_or_max 100 10 = 110"
    by (simp add: checked_add_or_max_eq instant_max_def nanos_per_sec_def)
  then have "issued ds = [1, 2]" "live_token ds = Some 2"
    using run r0 by (auto simp: tick_every_def tick_catch_up_def tick_next_def arm_sleep_def Let_def
        sat_add_def live_token_def split: prod.splits)
  with tick_tokens_fresh [OF r0 run, of 1] run r0 show ?thesis by auto
qed





end
