(* ===== verification/Restart.thy ===== *)
theory Restart
  imports Timers
begin

text \<open>
  Supervision vocabulary: the restart policies and restart budgets of \<open>tina/src/isolate.rs\<close> and
  the configuration of \<open>tina-supervisor/src/lib.rs\<close>. Shown: which children each policy restarts,
  and how many restarts a budget can grant, over its lifetime or in any stretch of time.
\<close>

section \<open>Policies\<close>

datatype restart_policy = OneForOne | OneForAll | RestForOne

datatype child_relation = BeforeFailed | ChildFailed | AfterFailed

datatype restart_decision = DoRestart | KeepRunning

fun policy_decision :: "restart_policy \<Rightarrow> child_relation \<Rightarrow> restart_decision" where
  "policy_decision OneForOne ChildFailed = DoRestart"
| "policy_decision OneForOne BeforeFailed = KeepRunning"
| "policy_decision OneForOne AfterFailed = KeepRunning"
| "policy_decision OneForAll _ = DoRestart"
| "policy_decision RestForOne BeforeFailed = KeepRunning"
| "policy_decision RestForOne ChildFailed = DoRestart"
| "policy_decision RestForOne AfterFailed = DoRestart"

definition policy_restarts :: "restart_policy \<Rightarrow> child_relation \<Rightarrow> bool" where
  "policy_restarts p relation \<longleftrightarrow> policy_decision p relation = DoRestart"

definition from_ordinals :: "nat \<Rightarrow> nat \<Rightarrow> child_relation" where
  "from_ordinals child_ordinal failed_ordinal =
     (if child_ordinal < failed_ordinal then BeforeFailed
      else if child_ordinal = failed_ordinal then ChildFailed
      else AfterFailed)"

section \<open>Budgets\<close>

record restart_budget =
  rb_max_restarts :: u32
  rb_window :: "duration option"



definition budget_within :: "u32 \<Rightarrow> duration \<Rightarrow> restart_budget" where
  "budget_within max_restarts period = \<lparr>rb_max_restarts = max_restarts, rb_window = Some period\<rparr>"

record restart_budget_state =
  bs_budget :: restart_budget
  bs_restarts_used :: u32
  bs_window_started :: "instant option"

definition budget_tracker :: "restart_budget \<Rightarrow> restart_budget_state" where
  "budget_tracker b = \<lparr>bs_budget = b, bs_restarts_used = 0, bs_window_started = None\<rparr>"

record restart_budget_exceeded =
  be_attempted_restart :: u32
  be_max_restarts :: u32


definition is_exhausted :: "restart_budget_state \<Rightarrow> bool" where
  "is_exhausted s \<longleftrightarrow> bs_restarts_used s \<ge> rb_max_restarts (bs_budget s)"

text \<open>The first half of \<open>record_restart_at\<close>: opening or renewing the window.\<close>

definition budget_window_at :: "instant \<Rightarrow> restart_budget_state \<Rightarrow> restart_budget_state" where
  "budget_window_at now s =
     (case rb_window (bs_budget s) of
        None \<Rightarrow> s
      | Some period \<Rightarrow>
          (case bs_window_started s of
             Some started \<Rightarrow>
               if now - started \<ge> period
               then \<lparr>bs_budget = bs_budget s, bs_restarts_used = 0, bs_window_started = Some now\<rparr>
               else s
           | None \<Rightarrow> \<lparr>bs_budget = bs_budget s, bs_restarts_used = bs_restarts_used s,
                       bs_window_started = Some now\<rparr>))"

definition record_restart_at ::
    "instant \<Rightarrow> restart_budget_state \<Rightarrow> restart_budget_exceeded + restart_budget_state" where
  "record_restart_at now s0 =
     (let s = budget_window_at now s0 in
      if is_exhausted s
      then Inl \<lparr>be_attempted_restart = sat_add (bs_restarts_used s) 1,
             be_max_restarts = rb_max_restarts (bs_budget s)\<rparr>
      else Inr \<lparr>bs_budget = bs_budget s, bs_restarts_used = bs_restarts_used s + 1,
             bs_window_started = bs_window_started s\<rparr>)"

definition budget_reset :: "restart_budget_state \<Rightarrow> restart_budget_state" where
  "budget_reset s = \<lparr>bs_budget = bs_budget s, bs_restarts_used = 0, bs_window_started = None\<rparr>"

record supervisor_config =
  sc_policy :: restart_policy
  sc_budget :: restart_budget

definition supervisor_config_new :: "restart_policy \<Rightarrow> restart_budget \<Rightarrow> supervisor_config" where
  "supervisor_config_new policy budget = \<lparr>sc_policy = policy, sc_budget = budget\<rparr>"

text \<open>
  A supervisor asks its budget on every failure and keeps the old accounting state when it is
  refused. The run lists the granted restarts with the window they were counted in.
\<close>

fun restart_run ::
    "instant list \<Rightarrow> restart_budget_state \<Rightarrow> (instant \<times> instant option) list \<times> restart_budget_state" where
  "restart_run [] s = ([], s)"
| "restart_run (now # ts) s =
     (case record_restart_at now s of
        Inl _ \<Rightarrow> restart_run ts s
      | Inr s' \<Rightarrow> (case restart_run ts s' of (gs, s'') \<Rightarrow> ((now, bs_window_started s') # gs, s'')))"

section \<open>Accounting\<close>

abbreviation bs_max :: "restart_budget_state \<Rightarrow> nat" where
  "bs_max s \<equiv> unat (rb_max_restarts (bs_budget s))"

abbreviation bs_used :: "restart_budget_state \<Rightarrow> nat" where
  "bs_used s \<equiv> unat (bs_restarts_used s)"

lemma record_ok:
  assumes "record_restart_at now s = Inr s'"
  shows "bs_budget s' = bs_budget s" and "bs_window_started s' = bs_window_started (budget_window_at now s)"
    and "bs_used s' = bs_used (budget_window_at now s) + 1" and "bs_used s' \<le> bs_max s"
proof -
  let ?s = "budget_window_at now s"
  have b: "bs_budget ?s = bs_budget s" by (simp add: budget_window_at_def split: option.splits)
  have lt: "bs_used ?s < bs_max s" and s': "s' = \<lparr>bs_budget = bs_budget ?s,
      bs_restarts_used = bs_restarts_used ?s + 1, bs_window_started = bs_window_started ?s\<rparr>"
    using assms b by (auto simp: record_restart_at_def is_exhausted_def Let_def word_le_nat_alt split: if_splits)
  have "unat (bs_restarts_used ?s + 1) = bs_used ?s + 1"
    using lt unsigned_less [of "rb_max_restarts (bs_budget s)", where 'a = nat]
    by (simp add: unat_word_ariths)
  with s' b lt show "bs_budget s' = bs_budget s" "bs_window_started s' = bs_window_started ?s"
    "bs_used s' = bs_used ?s + 1" "bs_used s' \<le> bs_max s" by simp_all
qed

lemma lifetime_run:
  assumes "restart_run ts s = (gs, s')" and "rb_window (bs_budget s) = None" and "bs_used s \<le> bs_max s"
  shows "length gs + bs_used s \<le> bs_max s"
  using assms
proof (induction ts s arbitrary: gs rule: restart_run.induct)
  case (2 now ts s)
  show ?case
  proof (cases "record_restart_at now s")
    case (Inl e)
    with 2 show ?thesis by simp
  next
    case (Inr s1)
    note ok = record_ok [OF Inr]
    have "budget_window_at now s = s" using "2.prems"(2) by (simp add: budget_window_at_def)
    with ok have s1: "bs_used s1 = bs_used s + 1" by simp
    obtain gs1 where "restart_run ts s1 = (gs1, s')" "length gs = Suc (length gs1)"
      using "2.prems"(1) Inr by (auto split: prod.splits)
    with "2.IH"(2) [OF Inr] "2.prems"(2) ok s1 show ?thesis by fastforce
  qed
qed simp

text \<open>
  Grants of a windowed budget carry the start of their window: they fall inside it, each window
  has at most \<open>max_restarts\<close> of them, and the windows do not overlap.
\<close>

definition in_windows :: "duration \<Rightarrow> instant option \<Rightarrow> (instant \<times> instant option) list \<Rightarrow> bool" where
  "in_windows p w0 gs \<longleftrightarrow> (\<forall>(t, w) \<in> set gs. \<exists>x. w = Some x \<and> x \<le> t \<and> t < x + p
     \<and> (\<forall>y. w0 = Some y \<longrightarrow> x = y \<or> y + p \<le> x))"

definition windows_apart :: "duration \<Rightarrow> (instant \<times> instant option) list \<Rightarrow> bool" where
  "windows_apart p gs \<longleftrightarrow> (\<forall>(t, w) \<in> set gs. \<forall>(t', w') \<in> set gs. \<forall>x y.
     w = Some x \<longrightarrow> w' = Some y \<longrightarrow> x = y \<or> x + p \<le> y \<or> y + p \<le> x)"

definition window_count :: "instant \<Rightarrow> (instant \<times> instant option) list \<Rightarrow> nat" where
  "window_count x gs = length (filter (\<lambda>g. snd g = Some x) gs)"

lemma windowed_run:
  assumes "restart_run ts s = (gs, s')" and "rb_window (bs_budget s) = Some p" and "0 < p"
    and "sorted ts" and "\<forall>y. bs_window_started s = Some y \<longrightarrow> (\<forall>t \<in> set ts. y \<le> t)"
    and "bs_used s \<le> bs_max s" and "bs_window_started s = None \<longrightarrow> bs_used s = 0"
  shows "in_windows p (bs_window_started s) gs \<and> windows_apart p gs
    \<and> (\<forall>x. window_count x gs + (if bs_window_started s = Some x then bs_used s else 0) \<le> bs_max s)"
  using assms
proof (induction ts s arbitrary: gs rule: restart_run.induct)
  case (1 s)
  then show ?case by (auto simp: in_windows_def windows_apart_def window_count_def)
next
  case (2 now ts s)
  show ?case
  proof (cases "record_restart_at now s")
    case (Inl e)
    with 2 show ?thesis by simp
  next
    case (Inr s1)
    note ok = record_ok [OF Inr]
    obtain gs1 where gs1: "restart_run ts s1 = (gs1, s')" "gs = (now, bs_window_started s1) # gs1"
      using "2.prems"(1) Inr by (auto split: prod.splits)
    obtain w where w: "bs_window_started s1 = Some w" "w \<le> now" "now < w + p"
      and old: "bs_window_started s = Some w \<and> bs_used s1 = bs_used s + 1
        \<or> bs_used s1 = 1 \<and> w = now \<and> (\<forall>y. bs_window_started s = Some y \<longrightarrow> y + p \<le> w)"
      using ok(2,3) "2.prems"(2,3,5,7)
      by (auto simp: budget_window_at_def le_diff_conv2 add.commute split: option.splits if_splits)
    have ih: "in_windows p (Some w) gs1 \<and> windows_apart p gs1
        \<and> (\<forall>x. window_count x gs1 + (if w = x then bs_used s1 else 0) \<le> bs_max s)"
    proof -
      have "sorted ts" "\<forall>t \<in> set ts. w \<le> t" using "2.prems"(4) w(2) by (auto intro: order_trans)
      then show ?thesis
        using "2.IH"(2) [OF Inr gs1(1)] "2.prems"(2,3) ok(1,4) by (simp add: w(1) eq_commute [of w])
    qed
    have far: "x = y \<or> y + p \<le> x" if "bs_window_started s = Some y" "x = w \<or> w + p \<le> x" for x y
      using old that by auto
    have "in_windows p (bs_window_started s) gs"
      using ih w far unfolding gs1(2) in_windows_def by fastforce
    moreover have "windows_apart p gs"
      using ih w unfolding gs1(2) in_windows_def windows_apart_def by fastforce
    moreover have "window_count x gs + (if bs_window_started s = Some x then bs_used s else 0) \<le> bs_max s" for x
    proof (cases "x = w")
      case True
      then have "window_count x gs = window_count w gs1 + 1" by (simp add: gs1(2) w(1) window_count_def)
      moreover have "window_count w gs1 + bs_used s1 \<le> bs_max s" using ih by (metis (full_types))
      ultimately show ?thesis using True old "2.prems"(3) by auto
    next
      case False
      then have "window_count x gs = window_count x gs1" by (simp add: gs1(2) w(1) window_count_def)
      moreover have "window_count x gs1 \<le> bs_max s" using ih by (metis add_leD1)
      moreover have "window_count x gs1 = 0" if "bs_window_started s = Some x"
      proof -
        have "\<not> (\<exists>t. (t, Some x) \<in> set gs1)"
          using ih old that False "2.prems"(3) unfolding in_windows_def by fastforce
        then show ?thesis unfolding window_count_def by (auto simp: filter_empty_conv)
      qed
      ultimately show ?thesis using "2.prems"(6) by auto
    qed
    ultimately show ?thesis by blast
  qed
qed

lemma length_filter_imp:
  "(\<And>x. x \<in> set xs \<Longrightarrow> P x \<Longrightarrow> Q x) \<Longrightarrow> length (filter P xs) \<le> length (filter Q xs)"
  by (induction xs) auto

lemma length_two_filters:
  assumes "\<forall>x \<in> set xs. P x \<or> Q x"
  shows "length xs \<le> length (filter P xs) + length (filter Q xs)"
  using assms by (induction xs) auto

text \<open>A stretch of one period meets at most two windows.\<close>

lemma two_windows:
  assumes "in_windows p w0 gs" and "windows_apart p gs" and "\<forall>x. window_count x gs \<le> m"
  shows "length (filter (\<lambda>(t, w). a \<le> t \<and> t < a + p) gs) \<le> 2 * m"
proof -
  let ?hs = "filter (\<lambda>(t, w). a \<le> t \<and> t < a + p) gs"
  define S where "S = {x. \<exists>t. (t, Some x) \<in> set ?hs}"
  have S_img: "S \<subseteq> (\<lambda>g. the (snd g)) ` set ?hs" unfolding S_def by force
  then have fin: "finite S" by (rule finite_subset) simp
  show ?thesis
  proof (cases "?hs = []")
    case False
    have tagged: "\<exists>x. w = Some x \<and> x \<le> t \<and> t < x + p" if "(t, w) \<in> set ?hs" for t w
      using assms(1) that by (auto simp: in_windows_def)
    obtain t w where "(t, w) \<in> set ?hs" using False by (cases ?hs) auto
    with tagged have ne: "S \<noteq> {}" unfolding S_def by blast
    have close: "x < y \<Longrightarrow> y < x + 2 * p" if xy: "x \<in> S" "y \<in> S" for x y
    proof -
      obtain t1 t2 where "(t1, Some x) \<in> set ?hs" "(t2, Some y) \<in> set ?hs" using xy S_def by auto
      then show ?thesis using tagged [of t1 "Some x"] tagged [of t2 "Some y"] by auto
    qed
    have apart: "x + p \<le> y" if "x \<in> S" "y \<in> S" "x < y" for x y
      using that assms(2) unfolding S_def windows_apart_def by fastforce
    have two: "x = Min S \<or> x = Max S" if "x \<in> S" for x
    proof (rule ccontr)
      assume *: "\<not> (x = Min S \<or> x = Max S)"
      have mm: "Min S \<in> S" "Max S \<in> S" "Min S \<le> x" "x \<le> Max S" using fin ne that by simp_all
      with * have "Min S < x" "x < Max S" by auto
      then show False
        using apart [of "Min S" x] apart [of x "Max S"] close [of "Min S" "Max S"] mm that by simp
    qed
    have "length ?hs \<le> length (filter (\<lambda>g. snd g = Some (Min S)) ?hs) + length (filter (\<lambda>g. snd g = Some (Max S)) ?hs)"
      using tagged two unfolding S_def by (intro length_two_filters) fastforce
    moreover have "length (filter (\<lambda>g. snd g = Some x) ?hs) \<le> m" for x
    proof -
      have "length (filter (\<lambda>g. snd g = Some x) ?hs) \<le> window_count x gs"
        unfolding window_count_def filter_filter by (rule length_filter_imp) blast
      then show ?thesis using assms(3) order_trans by blast
    qed
    ultimately show ?thesis unfolding mult_2 by (meson add_mono order_trans)
  qed simp
qed

section \<open>Properties\<close>

text \<open>
  (C29) The policies restart exactly the documented children. When child \<open>failed\<close> of an ordered
  group fails, one-for-one restarts that child alone, one-for-all the whole group, and
  rest-for-one that child and those started after it.
\<close>

theorem policy_restart_sets:
  "{c. policy_restarts policy (from_ordinals c failed)} =
    (case policy of OneForOne \<Rightarrow> {failed} | OneForAll \<Rightarrow> UNIV | RestForOne \<Rightarrow> {failed..})"
  by (cases policy) (auto simp: policy_restarts_def from_ordinals_def)

text \<open>
  (C27) A restart budget bounds restart storms. Whatever the failure times of a clock that does
  not go back, a lifetime budget grants at most \<open>max_restarts\<close> restarts in total, and a budget
  of \<open>max_restarts\<close> within \<open>period\<close> grants at most \<open>max_restarts\<close> per window and at most twice
  that in any stretch of time as long as the period.
\<close>

theorem restart_budget_bounds:
  assumes "sorted ts" and "restart_run ts (budget_tracker budget) = (gs, s)"
  shows "(case rb_window budget of
      None \<Rightarrow> length gs \<le> unat (rb_max_restarts budget)
    | Some period \<Rightarrow> (0 < period \<longrightarrow> (\<forall>x. window_count x gs \<le> unat (rb_max_restarts budget)))
        \<and> length (filter (\<lambda>(t, w). a \<le> t \<and> t < a + period) gs) \<le> 2 * unat (rb_max_restarts budget))"
proof (cases "rb_window budget")
  case None
  then show ?thesis using lifetime_run [OF assms(2)] by (simp add: budget_tracker_def)
next
  case (Some p)
  show ?thesis
  proof (cases "0 < p")
    case True
    then have run: "in_windows p None gs" "windows_apart p gs" "\<forall>x. window_count x gs \<le> unat (rb_max_restarts budget)"
      using windowed_run [OF assms(2), of p] Some assms(1) by (auto simp: budget_tracker_def)
    with two_windows [OF run, of a] Some show ?thesis by simp
  next
    case False
    then show ?thesis using Some by (simp add: case_prod_beta)
  qed
qed

theorem restart_budget_bounds_witness:
  "\<exists>gs s. restart_run [0, 1, 2, 12] (budget_tracker (budget_within 2 10)) = (gs, s)
    \<and> map fst gs = [0, 1, 12] \<and> length (filter (\<lambda>(t, w). 1 \<le> t \<and> t < 1 + 10) gs) \<le> 2 * 2"
proof -
  obtain gs s where r: "restart_run [0, 1, 2, 12] (budget_tracker (budget_within 2 10)) = (gs, s)" by fastforce
  then have "map fst gs = [0, 1, 12]"
    by (simp add: budget_tracker_def budget_within_def record_restart_at_def budget_window_at_def
        is_exhausted_def Let_def word_le_nat_alt)
      (auto simp: word_le_nat_alt)
  moreover have "length (filter (\<lambda>(t, w). 1 \<le> t \<and> t < 1 + 10) gs) \<le> 2 * 2"
    using restart_budget_bounds [OF _ r, of 1] by (simp add: budget_within_def)
  ultimately show ?thesis using r by (intro exI conjI)
qed



end
