(* ===== verification/Pending_Calls.thy ===== *)
theory Pending_Calls
  imports Tina_Prelude
begin

text \<open>
  The bounded set of outstanding calls of \<open>tina/src/pending_call_set.rs\<close>. Handles are opaque;
  the state of the call behind a handle changes outside the set, so the one operation that
  reads it, \<open>sweep_terminal\<close>, takes the current states as an argument.

  The set is shown to refine a finite map from keys to handles.
\<close>

section \<open>Data\<close>

record ('k, 'h) pending_call_set =
  pc_entries :: "('k \<times> 'h) list"
  pc_capacity :: nat

datatype ('k, 'h) insert_error = InsertFull 'k 'h | DuplicateKey 'k 'h

section \<open>Operations\<close>

definition pc_with_capacity :: "nat \<Rightarrow> ('k, 'h) pending_call_set option" where
  "pc_with_capacity capacity =
     (if capacity > 0 then Some \<lparr>pc_entries = [], pc_capacity = capacity\<rparr> else None)"

definition pc_len :: "('k, 'h) pending_call_set \<Rightarrow> nat" where
  "pc_len s = length (pc_entries s)"

definition pc_is_empty :: "('k, 'h) pending_call_set \<Rightarrow> bool" where
  "pc_is_empty s \<longleftrightarrow> pc_entries s = []"

definition pc_is_full :: "('k, 'h) pending_call_set \<Rightarrow> bool" where
  "pc_is_full s \<longleftrightarrow> length (pc_entries s) \<ge> pc_capacity s"

definition pc_contains_key :: "'k \<Rightarrow> ('k, 'h) pending_call_set \<Rightarrow> bool" where
  "pc_contains_key key s \<longleftrightarrow> list_ex (\<lambda>(k, _). k = key) (pc_entries s)"

definition pc_insert ::
    "'k \<Rightarrow> 'h \<Rightarrow> ('k, 'h) pending_call_set
     \<Rightarrow> (('k, 'h) insert_error + unit) \<times> ('k, 'h) pending_call_set" where
  "pc_insert key handle s =
     (if pc_contains_key key s then (Inl (DuplicateKey key handle), s)
      else if pc_is_full s then (Inl (InsertFull key handle), s)
      else (Inr (), s\<lparr>pc_entries := pc_entries s @ [(key, handle)]\<rparr>))"

definition pc_remove :: "'k \<Rightarrow> ('k, 'h) pending_call_set \<Rightarrow> 'h option \<times> ('k, 'h) pending_call_set" where
  "pc_remove key s =
     (case position (\<lambda>(k, _). k = key) (pc_entries s) of
        None \<Rightarrow> (None, s)
      | Some pos \<Rightarrow> (Some (snd (pc_entries s ! pos)), s\<lparr>pc_entries := swap_remove pos (pc_entries s)\<rparr>))"

definition pc_drain :: "('k, 'h) pending_call_set \<Rightarrow> ('k \<times> 'h) list \<times> ('k, 'h) pending_call_set" where
  "pc_drain s = (pc_entries s, s\<lparr>pc_entries := []\<rparr>)"

definition pc_sweep_terminal ::
    "('h \<Rightarrow> call_handle_state) \<Rightarrow> ('k, 'h) pending_call_set \<Rightarrow> nat \<times> ('k, 'h) pending_call_set" where
  "pc_sweep_terminal state s =
     (let kept = filter (\<lambda>(_, h). state h = HandlePending) (pc_entries s) in
      (length (pc_entries s) - length kept, s\<lparr>pc_entries := kept\<rparr>))"

datatype ('k, 'h) pc_op = PcInsert 'k 'h | PcRemove 'k | PcDrain | PcSweep "'h \<Rightarrow> call_handle_state"

fun pc_step :: "('k, 'h) pc_op \<Rightarrow> ('k, 'h) pending_call_set \<Rightarrow> ('k, 'h) pending_call_set" where
  "pc_step (PcInsert k h) s = snd (pc_insert k h s)"
| "pc_step (PcRemove k) s = snd (pc_remove k s)"
| "pc_step PcDrain s = snd (pc_drain s)"
| "pc_step (PcSweep state) s = snd (pc_sweep_terminal state s)"

section \<open>The map of outstanding calls\<close>

definition pc_map :: "('k, 'h) pending_call_set \<Rightarrow> 'k \<Rightarrow> 'h option" where
  "pc_map s = map_of (pc_entries s)"

definition pc_inv :: "('k, 'h) pending_call_set \<Rightarrow> bool" where
  "pc_inv s \<longleftrightarrow> distinct (map fst (pc_entries s)) \<and> length (pc_entries s) \<le> pc_capacity s"

lemma map_of_mset_eq:
  assumes "distinct (map fst xs)" and "mset xs = mset ys"
  shows "map_of xs = map_of ys"
proof -
  have "mset (map fst xs) = mset (map fst ys)" using assms(2) by (metis mset_map)
  then have d: "distinct (map fst ys)" using assms(1) by (metis mset_eq_imp_distinct_iff)
  have "set xs = set ys" using assms(2) by (metis set_mset_mset)
  with assms(1) d show ?thesis by (metis map_of_inject_set)
qed

lemma remove_entry:
  assumes "distinct (map fst xs)" and "i < length xs" and "xs ! i = (k, h)"
  shows "map_of xs k = Some h" and "map_of (swap_remove i xs) = (map_of xs)(k := None)"
    and "distinct (map fst (swap_remove i xs))"
proof -
  have ms: "mset xs = mset ((k, h) # swap_remove i xs)"
    using mset_swap_remove [OF assms(2)] assms(3) by simp
  then have "mset (map fst xs) = mset (map fst ((k, h) # swap_remove i xs))" by (metis mset_map)
  then have d: "distinct (map fst ((k, h) # swap_remove i xs))"
    using assms(1) by (metis mset_eq_imp_distinct_iff)
  have m: "map_of xs = map_of ((k, h) # swap_remove i xs)"
    using map_of_mset_eq [OF assms(1) ms] .
  show "map_of xs k = Some h" by (simp add: m)
  have "map_of (swap_remove i xs) k = None" using d by (simp add: map_of_eq_None_iff)
  then show "map_of (swap_remove i xs) = (map_of xs)(k := None)" by (auto simp: m fun_eq_iff)
  show "distinct (map fst (swap_remove i xs))" using d by simp
qed

lemma contains_key_iff: "pc_contains_key k s \<longleftrightarrow> pc_map s k \<noteq> None"
  by (force simp: pc_contains_key_def pc_map_def list_ex_iff map_of_eq_None_iff)

lemma map_of_filter_pending:
  "distinct (map fst xs) \<Longrightarrow>
    map_of (filter (\<lambda>(_, h). P h) xs) k = (case map_of xs k of None \<Rightarrow> None | Some h \<Rightarrow> if P h then Some h else None)"
proof (induction xs)
  case (Cons x xs)
  then show ?case by (cases x) (auto simp: map_of_eq_None_iff image_iff split: option.splits)
qed simp

lemma pc_remove_spec:
  assumes "pc_inv s"
  shows "fst (pc_remove k s) = pc_map s k" and "pc_map (snd (pc_remove k s)) = (pc_map s)(k := None)"
    and "pc_inv (snd (pc_remove k s))" and "pc_capacity (snd (pc_remove k s)) = pc_capacity s"
proof -
  have "fst (pc_remove k s) = pc_map s k \<and> pc_map (snd (pc_remove k s)) = (pc_map s)(k := None)
    \<and> pc_inv (snd (pc_remove k s)) \<and> pc_capacity (snd (pc_remove k s)) = pc_capacity s"
  proof (cases "position (\<lambda>(k', _). k' = k) (pc_entries s)")
    case None
    then have "pc_map s k = None"
      using position_None_iff [of "\<lambda>(k', _). k' = k" "pc_entries s"]
      by (force simp: pc_map_def map_of_eq_None_iff)
    with None assms show ?thesis by (auto simp: pc_remove_def)
  next
    case (Some i)
    then obtain h where i: "i < length (pc_entries s)" "pc_entries s ! i = (k, h)"
      by (auto simp: position_Some_iff case_prod_beta prod_eq_iff)
    have "distinct (map fst (pc_entries s))" using assms by (simp add: pc_inv_def)
    note rm = remove_entry [OF this i]
    show ?thesis
      using Some i rm assms by (auto simp: pc_remove_def pc_map_def pc_inv_def length_swap_remove)
  qed
  then show "fst (pc_remove k s) = pc_map s k" "pc_map (snd (pc_remove k s)) = (pc_map s)(k := None)"
    "pc_inv (snd (pc_remove k s))" "pc_capacity (snd (pc_remove k s)) = pc_capacity s" by blast+
qed

lemma pc_insert_cases:
  assumes "pc_inv s"
  obtains (Dup) "pc_map s k \<noteq> None" "pc_insert k h s = (Inl (DuplicateKey k h), s)"
  | (Full) "pc_map s k = None" "pc_len s = pc_capacity s" "pc_insert k h s = (Inl (InsertFull k h), s)"
  | (Ok) s' where "pc_map s k = None" "pc_len s < pc_capacity s" "pc_insert k h s = (Inr (), s')"
      "pc_map s' = (pc_map s)(k \<mapsto> h)" "pc_inv s'" "pc_capacity s' = pc_capacity s"
proof (cases "pc_contains_key k s")
  case True
  then show ?thesis using Dup by (simp add: pc_insert_def contains_key_iff)
next
  case False
  then have none: "pc_map s k = None" and fresh: "k \<notin> fst ` set (pc_entries s)"
    by (simp_all add: contains_key_iff pc_map_def map_of_eq_None_iff)
  show ?thesis
  proof (cases "pc_is_full s")
    case True
    with False none assms show ?thesis
      by (intro Full) (auto simp: pc_insert_def pc_is_full_def pc_len_def pc_inv_def)
  next
    case not_full: False
    let ?s = "s\<lparr>pc_entries := pc_entries s @ [(k, h)]\<rparr>"
    have "pc_map ?s = (pc_map s)(k \<mapsto> h)"
      using none by (auto simp: pc_map_def map_add_def fun_eq_iff split: option.splits)
    with False not_full none fresh assms show ?thesis
      by (intro Ok [of ?s]) (auto simp: pc_insert_def pc_is_full_def pc_len_def pc_inv_def)
  qed
qed

lemma pc_step_inv:
  assumes "pc_inv s"
  shows "pc_inv (pc_step op s) \<and> pc_capacity (pc_step op s) = pc_capacity s"
proof (cases op)
  case (PcInsert k h)
  from assms show ?thesis
    by (rule pc_insert_cases [where k = k and h = h]) (use PcInsert assms in simp_all)
next
  case (PcRemove k)
  then show ?thesis using pc_remove_spec [OF assms] by simp
next
  case PcDrain
  then show ?thesis by (simp add: pc_drain_def pc_inv_def)
next
  case (PcSweep state)
  then show ?thesis
    using assms le_trans [OF length_filter_le [of "\<lambda>(_, h). state h = HandlePending" "pc_entries s"]]
    by (simp add: pc_sweep_terminal_def Let_def pc_inv_def distinct_map_filter)
qed

lemma pc_run_inv: "pc_inv s \<Longrightarrow> pc_inv (fold pc_step ops s) \<and> pc_capacity (fold pc_step ops s) = pc_capacity s"
  by (induction ops arbitrary: s) (simp_all add: pc_step_inv)

section \<open>Properties\<close>

text \<open>
  (C30) The set keeps its invariant and behaves as a bounded map under every operation. Over any
  sequence of calls on a fresh set the keys stay distinct and the number of entries within the
  capacity. An insert stores the handle under a new key, and otherwise changes nothing and hands
  the key and handle back with the documented reason; a remove returns the handle that is stored
  and frees only that key; a drain returns every pair and empties the set; a sweep drops
  exactly the calls that are over.
\<close>

theorem pending_calls_refine_map:
  assumes "pc_with_capacity cap = Some s0" and "s = fold pc_step ops s0"
  shows "distinct (map fst (pc_entries s)) \<and> pc_len s \<le> cap
    \<and> (case pc_insert k h s of
         (Inr _, s') \<Rightarrow> pc_map s k = None \<and> pc_len s < cap \<and> pc_map s' = (pc_map s)(k \<mapsto> h)
       | (Inl (DuplicateKey k' h'), s') \<Rightarrow> (k', h') = (k, h) \<and> pc_map s k \<noteq> None \<and> s' = s
       | (Inl (InsertFull k' h'), s') \<Rightarrow> (k', h') = (k, h) \<and> pc_map s k = None \<and> pc_len s = cap \<and> s' = s)
    \<and> fst (pc_remove k s) = pc_map s k \<and> pc_map (snd (pc_remove k s)) = (pc_map s)(k := None)
    \<and> map_of (fst (pc_drain s)) = pc_map s \<and> pc_is_empty (snd (pc_drain s))
    \<and> pc_map (snd (pc_sweep_terminal state s)) = (\<lambda>k. case pc_map s k of None \<Rightarrow> None
         | Some h \<Rightarrow> if state h = HandlePending then Some h else None)"
proof -
  have s0: "pc_inv s0" "pc_capacity s0 = cap"
    using assms(1) by (auto simp: pc_with_capacity_def pc_inv_def split: if_splits)
  have inv: "pc_inv s" and cap: "pc_capacity s = cap"
    using pc_run_inv [OF s0(1), of ops] assms(2) s0(2) by auto
  have ins: "case pc_insert k h s of
         (Inr _, s') \<Rightarrow> pc_map s k = None \<and> pc_len s < cap \<and> pc_map s' = (pc_map s)(k \<mapsto> h)
       | (Inl (DuplicateKey k' h'), s') \<Rightarrow> (k', h') = (k, h) \<and> pc_map s k \<noteq> None \<and> s' = s
       | (Inl (InsertFull k' h'), s') \<Rightarrow> (k', h') = (k, h) \<and> pc_map s k = None \<and> pc_len s = cap \<and> s' = s"
    by (rule pc_insert_cases [OF inv, of k h]) (simp_all add: cap)
  have sweep: "pc_map (snd (pc_sweep_terminal state s)) = (\<lambda>k. case pc_map s k of None \<Rightarrow> None
         | Some h \<Rightarrow> if state h = HandlePending then Some h else None)"
    using inv by (auto simp: pc_sweep_terminal_def Let_def pc_map_def pc_inv_def map_of_filter_pending)
  have drain: "map_of (fst (pc_drain s)) = pc_map s" "pc_is_empty (snd (pc_drain s))"
    by (simp_all add: pc_drain_def pc_map_def pc_is_empty_def)
  have wf: "distinct (map fst (pc_entries s))" "pc_len s \<le> cap"
    using inv cap by (simp_all add: pc_inv_def pc_len_def)
  show ?thesis
    by (intro conjI wf ins sweep drain pc_remove_spec(1,2) [OF inv])
qed

theorem pending_calls_refine_map_witness:
  "\<exists>s0. pc_with_capacity 2 = Some s0
    \<and> (let s = fold pc_step [PcInsert 1 ''a'', PcInsert 2 ''b'', PcInsert 3 ''c'', PcRemove (1::nat)] s0 in
        distinct (map fst (pc_entries s)) \<and> fst (pc_remove 2 s) = Some ''b'')"
proof -
  let ?ops = "[PcInsert 1 ''a'', PcInsert 2 ''b'', PcInsert 3 ''c'', PcRemove (1::nat)]"
  let ?s0 = "\<lparr>pc_entries = [], pc_capacity = 2\<rparr> :: (nat, string) pending_call_set"
  have s0: "pc_with_capacity 2 = Some ?s0"
    by (simp add: pc_with_capacity_def)
  have m: "pc_map (fold pc_step ?ops ?s0) 2 = Some ''b''"
    by code_simp
  show ?thesis
    unfolding Let_def
    using s0 pending_calls_refine_map [OF s0 refl, of ?ops 2 _ "\<lambda>_. HandlePending"] m
    by (intro exI [of _ ?s0] conjI) (simp_all only:)
qed

end
