(* ===== verification/Gates.thy ===== *)
theory Gates
  imports Tina_Prelude
begin

text \<open>
  The isolate-local admission helpers of \<open>tina-runtime\<close>: \<open>LocalPermitGate\<close> with its move-only
  \<open>Permit\<close> (\<open>local_permit.rs\<close>), \<open>SingleCallGate\<close> (\<open>single_call_gate.rs\<close>) and \<open>DrainState\<close>
  (\<open>drain_state.rs\<close>). None of them owns the work it counts, so each is paired with the client
  protocol its documentation prescribes: who holds which permit, and how many timers are in flight.
\<close>

section \<open>Local permit gate\<close>

record permit_inner =
  permit_id :: u64
  permit_generation :: u64

type_synonym permit = "permit_inner option"

record local_permit_report =
  lpr_name :: "string option"
  lpr_capacity :: nat
  lpr_current :: nat
  lpr_full_count :: u64
  lpr_high_water :: nat
  lpr_retired_count :: u64
  lpr_completed_count :: u64
  lpr_invalid_release_count :: u64

definition lpr_is_idle :: "local_permit_report \<Rightarrow> bool" where
  "lpr_is_idle r \<longleftrightarrow> lpr_current r = 0"

definition lpr_is_full :: "local_permit_report \<Rightarrow> bool" where
  "lpr_is_full r \<longleftrightarrow> lpr_current r \<ge> lpr_capacity r"

datatype local_permit_full = LocalPermitFull (permit_full_report: local_permit_report)

datatype local_permit_release_error = StaleOrUnknown u64 u64 u64

record local_permit_gate =
  lp_name :: "string option"
  lp_capacity :: nat
  lp_current :: nat
  lp_full_count :: u64
  lp_high_water :: nat
  lp_retired_count :: u64
  lp_completed_count :: u64
  lp_invalid_release_count :: u64
  lp_next_permit_id :: u64
  lp_generation :: u64

definition lp_with_capacity :: "nat \<Rightarrow> local_permit_gate option" where
  "lp_with_capacity capacity =
     (if capacity > 0 then
        Some \<lparr>lp_name = None, lp_capacity = capacity, lp_current = 0, lp_full_count = 0,
          lp_high_water = 0, lp_retired_count = 0, lp_completed_count = 0,
          lp_invalid_release_count = 0, lp_next_permit_id = 0, lp_generation = 0\<rparr>
      else None)"

definition lp_named :: "string \<Rightarrow> local_permit_gate \<Rightarrow> local_permit_gate" where
  "lp_named name g = g\<lparr>lp_name := Some name\<rparr>"

definition lp_is_idle :: "local_permit_gate \<Rightarrow> bool" where
  "lp_is_idle g \<longleftrightarrow> lp_current g = 0"

definition lp_is_full :: "local_permit_gate \<Rightarrow> bool" where
  "lp_is_full g \<longleftrightarrow> lp_current g \<ge> lp_capacity g"

definition lp_report :: "local_permit_gate \<Rightarrow> local_permit_report" where
  "lp_report g = \<lparr>lpr_name = lp_name g, lpr_capacity = lp_capacity g, lpr_current = lp_current g,
     lpr_full_count = lp_full_count g, lpr_high_water = lp_high_water g,
     lpr_retired_count = lp_retired_count g, lpr_completed_count = lp_completed_count g,
     lpr_invalid_release_count = lp_invalid_release_count g\<rparr>"

definition lp_reset :: "local_permit_gate \<Rightarrow> local_permit_gate" where
  "lp_reset g = g\<lparr>lp_generation := sat_add (lp_generation g) 1, lp_current := 0,
     lp_full_count := 0, lp_high_water := 0, lp_retired_count := 0, lp_completed_count := 0,
     lp_invalid_release_count := 0\<rparr>"

definition try_admit :: "local_permit_gate \<Rightarrow> (local_permit_full + permit) \<times> local_permit_gate" where
  "try_admit g =
     (if lp_current g \<ge> lp_capacity g then
        let g1 = g\<lparr>lp_full_count := sat_add (lp_full_count g) 1\<rparr>
        in (Inl (LocalPermitFull (lp_report g1)), g1)
      else
        let g1 = g\<lparr>lp_next_permit_id := sat_add (lp_next_permit_id g) 1,
                   lp_current := lp_current g + 1\<rparr>;
            g2 = (if lp_current g1 > lp_high_water g1
                  then g1\<lparr>lp_high_water := lp_current g1\<rparr> else g1)
        in (Inr (Some \<lparr>permit_id = lp_next_permit_id g2, permit_generation = lp_generation g2\<rparr>), g2))"

text \<open>
  \<open>release\<close> and \<open>retire\<close> take the permit by value; a permit already consumed would be a panic
  (\<open>None\<close>), which the move-only type rules out for callers.
\<close>

definition lp_stale ::
    "permit_inner \<Rightarrow> local_permit_gate
     \<Rightarrow> (local_permit_release_error + local_permit_report) \<times> local_permit_gate" where
  "lp_stale inner g =
     (Inl (StaleOrUnknown (permit_id inner) (permit_generation inner) (lp_generation g)),
      g\<lparr>lp_invalid_release_count := sat_add (lp_invalid_release_count g) 1\<rparr>)"

definition lp_release ::
    "permit \<Rightarrow> local_permit_gate
     \<Rightarrow> ((local_permit_release_error + local_permit_report) \<times> local_permit_gate) option" where
  "lp_release permit g = (case permit of None \<Rightarrow> None | Some inner \<Rightarrow> Some (
     if permit_generation inner \<noteq> lp_generation g then lp_stale inner g
     else
       let g1 = g\<lparr>lp_current := lp_current g - 1,
                  lp_completed_count := sat_add (lp_completed_count g) 1\<rparr>
       in (Inr (lp_report g1), g1)))"

definition lp_retire ::
    "permit \<Rightarrow> local_permit_gate
     \<Rightarrow> ((local_permit_release_error + local_permit_report) \<times> local_permit_gate) option" where
  "lp_retire permit g = (case permit of None \<Rightarrow> None | Some inner \<Rightarrow> Some (
     if permit_generation inner \<noteq> lp_generation g then lp_stale inner g
     else
       let g1 = g\<lparr>lp_current := lp_current g - 1,
                  lp_retired_count := sat_add (lp_retired_count g) 1\<rparr>
       in (Inr (lp_report g1), g1)))"

definition permit_drop :: "permit \<Rightarrow> u64 \<Rightarrow> u64" where
  "permit_drop permit dropped_permit_count =
     (if permit \<noteq> None then dropped_permit_count + 1 else dropped_permit_count)"

subsection \<open>A client that holds permits\<close>

text \<open>
  The permits issued by one gate are in the hands of the client: \<open>lc_held\<close> lists the permits not
  yet consumed, \<open>lc_leaked\<close> counts those of the current generation that were dropped.
\<close>

record permit_client =
  lc_gate :: local_permit_gate
  lc_held :: "permit_inner list"
  lc_leaked :: nat
  lc_dropped :: u64

datatype permit_op = PAdmit | PRelease nat | PRetire nat | PDrop nat | PReset

definition remove_nth :: "nat \<Rightarrow> 'a list \<Rightarrow> 'a list" where
  "remove_nth i xs = take i xs @ drop (Suc i) xs"

definition lc_take ::
    "(permit \<Rightarrow> local_permit_gate
      \<Rightarrow> ((local_permit_release_error + local_permit_report) \<times> local_permit_gate) option)
     \<Rightarrow> nat \<Rightarrow> permit_client \<Rightarrow> permit_client" where
  "lc_take f i c =
     (if i < length (lc_held c) then
        case f (Some (lc_held c ! i)) (lc_gate c) of
          None \<Rightarrow> c
        | Some (_, g) \<Rightarrow> c\<lparr>lc_gate := g, lc_held := remove_nth i (lc_held c)\<rparr>
      else c)"

fun permit_step :: "permit_op \<Rightarrow> permit_client \<Rightarrow> permit_client" where
  "permit_step PAdmit c = (case try_admit (lc_gate c) of
     (Inr (Some p), g) \<Rightarrow> c\<lparr>lc_gate := g, lc_held := lc_held c @ [p]\<rparr>
   | (_, g) \<Rightarrow> c\<lparr>lc_gate := g\<rparr>)"
| "permit_step (PRelease i) c = lc_take lp_release i c"
| "permit_step (PRetire i) c = lc_take lp_retire i c"
| "permit_step (PDrop i) c =
     (if i < length (lc_held c) then
        c\<lparr>lc_held := remove_nth i (lc_held c),
          lc_leaked := lc_leaked c
            + (if permit_generation (lc_held c ! i) = lp_generation (lc_gate c) then 1 else 0),
          lc_dropped := permit_drop (Some (lc_held c ! i)) (lc_dropped c)\<rparr>
      else c)"
| "permit_step PReset c = c\<lparr>lc_gate := lp_reset (lc_gate c), lc_leaked := 0\<rparr>"

definition live_permits :: "permit_client \<Rightarrow> nat" where
  "live_permits c =
     length (filter (\<lambda>p. permit_generation p = lp_generation (lc_gate c)) (lc_held c))"

definition permit_client_new :: "local_permit_gate \<Rightarrow> permit_client" where
  "permit_client_new g = \<lparr>lc_gate = g, lc_held = [], lc_leaked = 0, lc_dropped = 0\<rparr>"

section \<open>Single call gate\<close>

record single_call_gate =
  scg_pending :: u32

definition scg_new :: single_call_gate where
  "scg_new = \<lparr>scg_pending = 0\<rparr>"

definition scg_is_idle :: "single_call_gate \<Rightarrow> bool" where
  "scg_is_idle g \<longleftrightarrow> scg_pending g = 0"

definition scg_submit :: "single_call_gate \<Rightarrow> bool \<times> single_call_gate" where
  "scg_submit g = (let was_idle = (scg_pending g = 0)
     in (was_idle, g\<lparr>scg_pending := scg_pending g + 1\<rparr>))"

definition scg_complete :: "single_call_gate \<Rightarrow> (bool \<times> single_call_gate) option" where
  "scg_complete g =
     (if scg_pending g > 0 then
        let g1 = g\<lparr>scg_pending := scg_pending g - 1\<rparr> in Some (scg_pending g1 > 0, g1)
      else None)"

definition cancel_in_flight :: "single_call_gate \<Rightarrow> single_call_gate" where
  "cancel_in_flight g = g\<lparr>scg_pending := sat_sub (scg_pending g) 1\<rparr>"

text \<open>
  The worker schedules a timer when the gate tells it to. \<open>sw_timers\<close> counts the timers in
  flight: a timer can only fire, or come back cancelled, when one is.
\<close>

record sleep_worker =
  sw_gate :: single_call_gate
  sw_timers :: nat

datatype worker_event = WSubmit | WTick | WCancelled

definition worker_new :: sleep_worker where
  "worker_new = \<lparr>sw_gate = scg_new, sw_timers = 0\<rparr>"

fun worker_step :: "worker_event \<Rightarrow> sleep_worker \<Rightarrow> sleep_worker option" where
  "worker_step WSubmit w = (case scg_submit (sw_gate w) of
     (schedule, g) \<Rightarrow> Some \<lparr>sw_gate = g, sw_timers = sw_timers w + (if schedule then 1 else 0)\<rparr>)"
| "worker_step WTick w =
     (if sw_timers w > 0 then
        case scg_complete (sw_gate w) of
          None \<Rightarrow> None
        | Some (again, g) \<Rightarrow> Some \<lparr>sw_gate = g, sw_timers = sw_timers w - 1 + (if again then 1 else 0)\<rparr>
      else Some w)"
| "worker_step WCancelled w =
     (if sw_timers w > 0
      then Some \<lparr>sw_gate = cancel_in_flight (sw_gate w), sw_timers = sw_timers w - 1\<rparr> else Some w)"

fun worker_run :: "worker_event list \<Rightarrow> sleep_worker \<Rightarrow> sleep_worker option" where
  "worker_run [] w = Some w"
| "worker_run (e # es) w = (case worker_step e w of None \<Rightarrow> None | Some w' \<Rightarrow> worker_run es w')"

section \<open>Drain state\<close>

datatype drain_stage = DrainOpen | Draining | DrainStopped

record drain_report =
  drr_stage :: drain_stage
  drr_admitted :: u64
  drr_completed :: u64
  drr_cancelled_or_retired :: u64
  drr_dropped :: u64
  drr_full :: u64
  drr_admits_after_drain :: u64
  drr_late_completions :: u64

record drain_state =
  dr_stage :: drain_stage
  dr_admitted :: u64
  dr_completed :: u64
  dr_cancelled_or_retired :: u64
  dr_dropped :: u64
  dr_full :: u64
  dr_admits_after_drain :: u64
  dr_late_completions :: u64

datatype admit_decision = DrainAccept | DrainStopping

definition ready_to_stop :: "u64 \<Rightarrow> drain_report \<Rightarrow> bool" where
  "ready_to_stop outstanding r \<longleftrightarrow> drr_stage r = Draining \<and> outstanding = 0"

definition drain_new :: drain_state where
  "drain_new = \<lparr>dr_stage = DrainOpen, dr_admitted = 0, dr_completed = 0,
     dr_cancelled_or_retired = 0, dr_dropped = 0, dr_full = 0, dr_admits_after_drain = 0,
     dr_late_completions = 0\<rparr>"

definition drain_is_open :: "drain_state \<Rightarrow> bool" where
  "drain_is_open d \<longleftrightarrow> dr_stage d = DrainOpen"

definition drain_is_draining :: "drain_state \<Rightarrow> bool" where
  "drain_is_draining d \<longleftrightarrow> dr_stage d = Draining"

definition drain_is_stopped :: "drain_state \<Rightarrow> bool" where
  "drain_is_stopped d \<longleftrightarrow> dr_stage d = DrainStopped"

definition drain_report_of :: "drain_state \<Rightarrow> drain_report" where
  "drain_report_of d = \<lparr>drr_stage = dr_stage d, drr_admitted = dr_admitted d,
     drr_completed = dr_completed d, drr_cancelled_or_retired = dr_cancelled_or_retired d,
     drr_dropped = dr_dropped d, drr_full = dr_full d,
     drr_admits_after_drain = dr_admits_after_drain d,
     drr_late_completions = dr_late_completions d\<rparr>"

definition drain_admit :: "drain_state \<Rightarrow> admit_decision \<times> drain_state" where
  "drain_admit d =
     (if drain_is_open d then (DrainAccept, d\<lparr>dr_admitted := sat_add (dr_admitted d) 1\<rparr>)
      else (DrainStopping, d\<lparr>dr_admits_after_drain := sat_add (dr_admits_after_drain d) 1\<rparr>))"

definition record_complete :: "drain_state \<Rightarrow> drain_state" where
  "record_complete d =
     (if drain_is_stopped d then d\<lparr>dr_late_completions := sat_add (dr_late_completions d) 1\<rparr>
      else d\<lparr>dr_completed := sat_add (dr_completed d) 1\<rparr>)"

definition record_cancelled_or_retired :: "drain_state \<Rightarrow> drain_state" where
  "record_cancelled_or_retired d =
     (if drain_is_stopped d then d\<lparr>dr_late_completions := sat_add (dr_late_completions d) 1\<rparr>
      else d\<lparr>dr_cancelled_or_retired := sat_add (dr_cancelled_or_retired d) 1\<rparr>)"

definition record_dropped :: "drain_state \<Rightarrow> drain_state" where
  "record_dropped d =
     (if drain_is_stopped d then d\<lparr>dr_late_completions := sat_add (dr_late_completions d) 1\<rparr>
      else d\<lparr>dr_dropped := sat_add (dr_dropped d) 1\<rparr>)"

definition record_full :: "drain_state \<Rightarrow> drain_state" where
  "record_full d = d\<lparr>dr_full := sat_add (dr_full d) 1\<rparr>"

definition drain_begin :: "drain_state \<Rightarrow> drain_state" where
  "drain_begin d = (if dr_stage d = DrainOpen then d\<lparr>dr_stage := Draining\<rparr> else d)"

definition can_stop :: "u64 \<Rightarrow> drain_state \<Rightarrow> bool" where
  "can_stop outstanding d \<longleftrightarrow> dr_stage d = Draining \<and> outstanding = 0"

definition drain_finish :: "drain_state \<Rightarrow> drain_report \<times> drain_state" where
  "drain_finish d =
     (let d1 = (if \<not> drain_is_stopped d then d\<lparr>dr_stage := DrainStopped\<rparr> else d)
      in (drain_report_of d1, d1))"

datatype drain_op = DAdmit | DComplete | DCancel | DDropped | DFull | DBegin | DFinish

fun drain_step :: "drain_op \<Rightarrow> drain_state \<Rightarrow> drain_state" where
  "drain_step DAdmit d = snd (drain_admit d)"
| "drain_step DComplete d = record_complete d"
| "drain_step DCancel d = record_cancelled_or_retired d"
| "drain_step DDropped d = record_dropped d"
| "drain_step DFull d = record_full d"
| "drain_step DBegin d = drain_begin d"
| "drain_step DFinish d = snd (drain_finish d)"

section \<open>Permit accounting\<close>

lemma remove_nth_split:
  assumes "i < length xs"
  obtains ys zs where "xs = ys @ xs ! i # zs" and "remove_nth i xs = ys @ zs"
  using assms id_take_nth_drop [of i xs] by (auto simp: remove_nth_def)

definition lc_inv :: "nat \<Rightarrow> permit_client \<Rightarrow> bool" where
  "lc_inv n c \<longleftrightarrow> (let g = lc_gate c in
     lp_current g = live_permits c + lc_leaked c \<and> lp_current g \<le> lp_high_water g
     \<and> lp_high_water g \<le> lp_capacity g
     \<and> (\<forall>p \<in> set (lc_held c). permit_generation p \<le> lp_generation g \<and> permit_id p \<le> lp_next_permit_id g)
     \<and> distinct (map permit_id (lc_held c))
     \<and> unat (lp_generation g) \<le> n \<and> unat (lp_next_permit_id g) \<le> n)"

lemma sat_add_one_bounds:
  assumes "unat (a :: u64) \<le> n" and "n < 2 ^ 64 - 1"
  shows "a < sat_add a 1" and "unat (sat_add a 1) \<le> Suc n"
proof -
  have "a \<noteq> - 1" using assms by (auto simp: unat_neg_one)
  then show "a < sat_add a 1" by (rule sat_add_one_gt)
  show "unat (sat_add a 1) \<le> Suc n" using assms by (simp add: unat_sat_add)
qed

lemma permit_admit_inv:
  assumes "lc_inv n c" and "n < 2 ^ 64 - 1"
  shows "lc_inv (Suc n) (permit_step PAdmit c)"
proof (cases "lp_current (lc_gate c) \<ge> lp_capacity (lc_gate c)")
  case True
  then show ?thesis
    using assms(1) by (simp add: try_admit_def Let_def lc_inv_def live_permits_def)
next
  case False
  let ?id = "lp_next_permit_id (lc_gate c)"
  have "unat ?id \<le> n" using assms(1) by (simp add: lc_inv_def Let_def)
  note fresh = sat_add_one_bounds [OF this assms(2)]
  have "permit_id p < sat_add ?id 1" if "p \<in> set (lc_held c)" for p
    using assms(1) that fresh(1) by (auto simp: lc_inv_def Let_def intro: le_less_trans)
  then have "sat_add ?id 1 \<notin> permit_id ` set (lc_held c)"
    and "\<forall>p \<in> set (lc_held c). permit_id p \<le> sat_add ?id 1"
    by force+
  then show ?thesis
    using assms(1) False fresh(2)
    by (simp add: try_admit_def Let_def lc_inv_def live_permits_def)
qed

lemma permit_take_inv:
  assumes "lc_inv n c" and i: "i < length (lc_held c)"
    and gate: "lp_capacity g = lp_capacity (lc_gate c)" "lp_high_water g = lp_high_water (lc_gate c)"
      "lp_generation g = lp_generation (lc_gate c)" "lp_next_permit_id g = lp_next_permit_id (lc_gate c)"
    and count: "lp_current g + (if permit_generation (lc_held c ! i) = lp_generation g then 1 else 0)
      = lp_current (lc_gate c) + k"
    and l: "l = lc_leaked c + k" "lp_current g \<le> lp_current (lc_gate c)"
  shows "lc_inv (Suc n) (c\<lparr>lc_gate := g, lc_held := remove_nth i (lc_held c), lc_leaked := l, lc_dropped := d\<rparr>)"
proof -
  obtain ys zs where held: "lc_held c = ys @ lc_held c ! i # zs" "remove_nth i (lc_held c) = ys @ zs"
    using i by (rule remove_nth_split)
  have "live_permits c = (if permit_generation (lc_held c ! i) = lp_generation g then 1 else 0)
      + length (filter (\<lambda>p. permit_generation p = lp_generation g) (remove_nth i (lc_held c)))"
    unfolding live_permits_def by (subst held(1)) (simp add: held(2) gate)
  moreover have "set (remove_nth i (lc_held c)) \<subseteq> set (lc_held c)"
    by (subst (2) held(1)) (auto simp: held(2))
  moreover have "distinct (map permit_id (lc_held c)) \<Longrightarrow> distinct (map permit_id (remove_nth i (lc_held c)))"
    by (subst (asm) held(1)) (simp add: held(2))
  ultimately show "lc_inv (Suc n) (c\<lparr>lc_gate := g, lc_held := remove_nth i (lc_held c), lc_leaked := l, lc_dropped := d\<rparr>)"
    using assms(1) gate count l by (auto simp: lc_inv_def Let_def live_permits_def)
qed

lemma permit_current_pos:
  assumes "lc_inv n c" and "p \<in> set (lc_held c)" and "permit_generation p = lp_generation (lc_gate c)"
  shows "0 < lp_current (lc_gate c)"
proof -
  have "filter (\<lambda>p. permit_generation p = lp_generation (lc_gate c)) (lc_held c) \<noteq> []"
    using assms(2,3) by (auto simp: filter_empty_conv)
  then show ?thesis
    using assms(1) by (simp add: lc_inv_def Let_def live_permits_def)
qed

lemma permit_settle:
  assumes "f \<in> {lp_release, lp_retire}" and "lc_inv n c" and "p \<in> set (lc_held c)"
  obtains (Live) r g where "f (Some p) (lc_gate c) = Some (Inr r, g)"
      "permit_generation p = lp_generation (lc_gate c)" "lp_current g + 1 = lp_current (lc_gate c)"
      "lp_capacity g = lp_capacity (lc_gate c)" "lp_high_water g = lp_high_water (lc_gate c)"
      "lp_generation g = lp_generation (lc_gate c)" "lp_next_permit_id g = lp_next_permit_id (lc_gate c)"
  | (Stale) g where "f (Some p) (lc_gate c)
        = Some (Inl (StaleOrUnknown (permit_id p) (permit_generation p) (lp_generation (lc_gate c))), g)"
      "permit_generation p \<noteq> lp_generation (lc_gate c)" "lp_current g = lp_current (lc_gate c)"
      "lp_capacity g = lp_capacity (lc_gate c)" "lp_high_water g = lp_high_water (lc_gate c)"
      "lp_generation g = lp_generation (lc_gate c)" "lp_next_permit_id g = lp_next_permit_id (lc_gate c)"
proof (cases "permit_generation p = lp_generation (lc_gate c)")
  case True
  obtain r g where fg: "f (Some p) (lc_gate c) = Some (Inr r, g)"
    using assms(1) True by (auto simp: lp_release_def lp_retire_def Let_def)
  show ?thesis
    by (rule Live [OF fg True])
      (use assms(1) True fg permit_current_pos [OF assms(2,3) True] in
        \<open>auto simp: lp_release_def lp_retire_def Let_def\<close>)
next
  case False
  then have "f (Some p) (lc_gate c) = Some (lp_stale p (lc_gate c))"
    using assms(1) by (auto simp: lp_release_def lp_retire_def)
  then show ?thesis
    by (intro Stale [of "snd (lp_stale p (lc_gate c))", OF _ False]) (simp_all add: lp_stale_def)
qed

lemma permit_lc_take_inv:
  assumes "f \<in> {lp_release, lp_retire}" and "lc_inv n c"
  shows "lc_inv (Suc n) (lc_take f i c)"
proof (cases "i < length (lc_held c)")
  case True
  then have "lc_held c ! i \<in> set (lc_held c)" by simp
  with assms show ?thesis
  proof (rule permit_settle)
  qed (use permit_take_inv [OF assms(2) True, of _ 0 "lc_leaked c" "lc_dropped c"] True in
      \<open>force simp: lc_take_def\<close>)+
next
  case False
  with assms(2) show ?thesis by (simp add: lc_take_def lc_inv_def Let_def le_SucI)
qed

lemma permit_step_inv:
  assumes "lc_inv n c" and "n < 2 ^ 64 - 1"
  shows "lc_inv (Suc n) (permit_step op c)"
proof (cases op)
  case PAdmit
  then show ?thesis using permit_admit_inv [OF assms] by simp
next
  case (PDrop i)
  show ?thesis
  proof (cases "i < length (lc_held c)")
    case True
    then show ?thesis
      using permit_take_inv [OF assms(1) True, of "lc_gate c"] PDrop by simp
  next
    case False
    with assms(1) PDrop show ?thesis by (simp add: lc_inv_def Let_def le_SucI)
  qed
next
  case PReset
  let ?gen = "lp_generation (lc_gate c)"
  have "unat ?gen \<le> n" using assms(1) by (simp add: lc_inv_def Let_def)
  note fresh = sat_add_one_bounds [OF this assms(2)]
  have "permit_generation p < sat_add ?gen 1" if "p \<in> set (lc_held c)" for p
    using assms(1) that fresh(1) by (auto simp: lc_inv_def Let_def intro: le_less_trans)
  then have "\<forall>p \<in> set (lc_held c). permit_generation p \<le> sat_add ?gen 1"
    and "filter (\<lambda>p. permit_generation p = sat_add ?gen 1) (lc_held c) = []"
    by (force simp: filter_empty_conv)+
  with fresh(2) assms(1) PReset show ?thesis
    by (simp add: lc_inv_def Let_def live_permits_def lp_reset_def)
qed (use permit_lc_take_inv [OF _ assms(1)] in simp_all)

lemma permit_step_capacity: "lp_capacity (lc_gate (permit_step op c)) = lp_capacity (lc_gate c)"
  by (cases op) (auto simp: try_admit_def Let_def lc_take_def lp_release_def lp_retire_def lp_stale_def
      lp_reset_def)

lemma permit_run_inv:
  "lc_inv n c \<Longrightarrow> n + length ops \<le> 2 ^ 64 - 1
    \<Longrightarrow> lc_inv (n + length ops) (fold permit_step ops c)
      \<and> lp_capacity (lc_gate (fold permit_step ops c)) = lp_capacity (lc_gate c)"
proof (induction ops arbitrary: n c)
  case (Cons op ops)
  then have "lc_inv (Suc n) (permit_step op c)" by (intro permit_step_inv) auto
  from Cons.IH [OF this] Cons.prems(2) show ?case by (simp add: permit_step_capacity)
qed simp

section \<open>The single call gate\<close>

definition worker_inv :: "nat \<Rightarrow> sleep_worker \<Rightarrow> bool" where
  "worker_inv n w \<longleftrightarrow> sw_timers w = (if scg_pending (sw_gate w) = 0 then 0 else 1)
     \<and> unat (scg_pending (sw_gate w)) = n"

lemma worker_submit_inv:
  assumes "worker_inv n w" and "Suc n < 2 ^ 32"
  shows "\<exists>w'. worker_step WSubmit w = Some w' \<and> worker_inv (Suc n) w'"
proof -
  have "unat (scg_pending (sw_gate w) + 1) = Suc n"
    using assms by (simp add: worker_inv_def unat_word_ariths)
  moreover from this have "scg_pending (sw_gate w) + 1 \<noteq> 0"
    by (metis unat_0 Zero_not_Suc)
  ultimately show ?thesis
    using assms(1) by (auto simp: scg_submit_def worker_inv_def)
qed

lemma worker_tick_inv:
  assumes "worker_inv n w"
  shows "\<exists>w'. worker_step WTick w = Some w' \<and> worker_inv (n - 1) w'"
proof (cases "scg_pending (sw_gate w) = 0")
  case True
  with assms show ?thesis by (auto simp: worker_inv_def)
next
  case False
  let ?p = "scg_pending (sw_gate w)"
  have pos: "0 < ?p" using False by (simp add: word_neq_0_conv)
  have "unat ?p \<noteq> 0" using False by (simp add: unat_eq_0)
  then have "unat (?p - 1) = n - 1"
    using assms unat_sub [of 1 ?p] by (simp add: worker_inv_def word_le_nat_alt)
  moreover have "0 < ?p - 1 \<longleftrightarrow> ?p - 1 \<noteq> 0" by (rule word_neq_0_conv [symmetric])
  ultimately show ?thesis
    using assms False pos by (simp add: scg_complete_def worker_inv_def Let_def)
qed

fun worker_backlog :: "worker_event list \<Rightarrow> nat \<Rightarrow> nat" where
  "worker_backlog [] n = n"
| "worker_backlog (WSubmit # es) n = worker_backlog es (Suc n)"
| "worker_backlog (WTick # es) n = worker_backlog es (n - 1)"
| "worker_backlog (WCancelled # es) n = worker_backlog es n"

lemma worker_run_inv:
  "\<lbrakk>worker_inv n w; set es \<subseteq> {WSubmit, WTick}; n + count_list es WSubmit < 2 ^ 32\<rbrakk>
    \<Longrightarrow> \<exists>w'. worker_run es w = Some w' \<and> worker_inv (worker_backlog es n) w'"
proof (induction es arbitrary: n w)
  case (Cons e es)
  then have e: "e = WSubmit \<or> e = WTick" and es: "set es \<subseteq> {WSubmit, WTick}" by auto
  show ?case
  proof (cases "e = WSubmit")
    case True
    obtain w1 where "worker_step WSubmit w = Some w1" "worker_inv (Suc n) w1"
      using worker_submit_inv [OF Cons.prems(1)] Cons.prems(3) True by auto
    with Cons.IH [OF _ es, of "Suc n" w1] Cons.prems(3) True show ?thesis by simp
  next
    case False
    with e have tick: "e = WTick" by simp
    obtain w1 where "worker_step WTick w = Some w1" "worker_inv (n - 1) w1"
      using worker_tick_inv [OF Cons.prems(1)] by auto
    with Cons.IH [OF _ es, of "n - 1" w1] Cons.prems(3) tick show ?thesis by simp
  qed
qed simp

lemma worker_run_append:
  "worker_run (es @ es') w = (case worker_run es w of None \<Rightarrow> None | Some w' \<Rightarrow> worker_run es' w')"
  by (induction es arbitrary: w) (auto split: option.splits)

lemma worker_backlog_ticks: "worker_backlog (replicate k WTick) n = n - k"
  by (induction k arbitrary: n) auto

lemma worker_backlog_le: "worker_backlog es n \<le> n + count_list es WSubmit"
proof (induction es n rule: worker_backlog.induct)
  case (3 es n)
  then show ?case by simp
qed simp_all

lemma worker_stranded:
  "\<lbrakk>sw_timers w = 0; 0 < unat (scg_pending (sw_gate w));
    unat (scg_pending (sw_gate w)) + count_list es WSubmit < 2 ^ 32\<rbrakk>
    \<Longrightarrow> \<exists>w'. worker_run es w = Some w' \<and> sw_timers w' = 0 \<and> \<not> scg_is_idle (sw_gate w')"
proof (induction es arbitrary: w)
  case Nil
  then show ?case by (auto simp: scg_is_idle_def)
next
  case (Cons e es)
  show ?case
  proof (cases e)
    case WSubmit
    let ?p = "scg_pending (sw_gate w)"
    have p: "unat (?p + 1) = Suc (unat ?p)"
      using Cons.prems(3) WSubmit by (simp add: unat_word_ariths)
    have "\<not> ?p = 0" using Cons.prems(2) by auto
    with Cons.IH [of "\<lparr>sw_gate = (sw_gate w)\<lparr>scg_pending := ?p + 1\<rparr>, sw_timers = 0\<rparr>"] p Cons.prems WSubmit
    show ?thesis by (simp add: scg_submit_def)
  qed (use Cons in auto)
qed

section \<open>Drain counters\<close>

definition before_drain :: "drain_op list \<Rightarrow> drain_op list" where
  "before_drain ops = takeWhile (\<lambda>x. x \<noteq> DBegin \<and> x \<noteq> DFinish) ops"

definition before_stop :: "drain_op list \<Rightarrow> drain_op list" where
  "before_stop ops = takeWhile (\<lambda>x. x \<noteq> DFinish) ops"

definition from_drain :: "drain_op list \<Rightarrow> drain_op list" where
  "from_drain ops = dropWhile (\<lambda>x. x \<noteq> DBegin \<and> x \<noteq> DFinish) ops"

definition from_stop :: "drain_op list \<Rightarrow> drain_op list" where
  "from_stop ops = dropWhile (\<lambda>x. x \<noteq> DFinish) ops"

definition settled :: "drain_op \<Rightarrow> bool" where
  "settled x \<longleftrightarrow> x = DComplete \<or> x = DCancel \<or> x = DDropped"

definition sat_count :: "('a \<Rightarrow> bool) \<Rightarrow> 'a list \<Rightarrow> nat" where
  "sat_count P xs = min (length (filter P xs)) (2 ^ 64 - 1)"

definition drain_expected_stage :: "drain_op list \<Rightarrow> drain_stage" where
  "drain_expected_stage ops =
     (if DFinish \<in> set ops then DrainStopped else if DBegin \<in> set ops then Draining else DrainOpen)"

lemma before_drain_snoc:
  "before_drain (ops @ [x]) = before_drain ops
     @ (if DBegin \<notin> set ops \<and> DFinish \<notin> set ops \<and> x \<noteq> DBegin \<and> x \<noteq> DFinish then [x] else [])"
  unfolding before_drain_def by (induction ops) auto

lemma before_stop_snoc:
  "before_stop (ops @ [x]) = before_stop ops @ (if DFinish \<notin> set ops \<and> x \<noteq> DFinish then [x] else [])"
  unfolding before_stop_def by (induction ops) auto

lemma sat_count_snoc:
  "sat_count P (xs @ [x]) = (if P x then min (sat_count P xs + 1) (2 ^ 64 - 1) else sat_count P xs)"
  by (auto simp: sat_count_def)

lemma sat_count_le: "sat_count P xs \<le> 2 ^ 64 - 1"
  by (simp add: sat_count_def)

lemma from_drain_snoc:
  "from_drain (ops @ [x]) = from_drain ops
     @ (if DBegin \<notin> set ops \<and> DFinish \<notin> set ops \<and> x \<noteq> DBegin \<and> x \<noteq> DFinish then [] else [x])"
  unfolding from_drain_def by (induction ops) auto

lemma from_stop_snoc:
  "from_stop (ops @ [x]) = from_stop ops @ (if DFinish \<notin> set ops \<and> x \<noteq> DFinish then [] else [x])"
  unfolding from_stop_def by (induction ops) auto

lemmas drain_snoc = before_drain_snoc before_stop_snoc from_drain_snoc from_stop_snoc
  sat_count_snoc

lemma drain_stage_run: "dr_stage (fold drain_step ops drain_new) = drain_expected_stage ops"
proof (induction ops rule: rev_induct)
  case Nil
  then show ?case by (simp add: drain_new_def drain_expected_stage_def)
next
  case (snoc x ops)
  then show ?case
    by (cases x) (auto simp: drain_admit_def record_complete_def record_cancelled_or_retired_def
        record_dropped_def record_full_def drain_begin_def drain_finish_def drain_is_open_def
        drain_is_stopped_def drain_expected_stage_def Let_def)
qed

lemmas drain_op_defs = drain_admit_def record_complete_def record_cancelled_or_retired_def
  record_dropped_def record_full_def drain_begin_def drain_finish_def drain_is_open_def
  drain_is_stopped_def Let_def

lemma drain_stage_cases:
  "drain_expected_stage ops = DrainOpen \<longleftrightarrow> DBegin \<notin> set ops \<and> DFinish \<notin> set ops"
  "drain_expected_stage ops = DrainStopped \<longleftrightarrow> DFinish \<in> set ops"
  by (auto simp: drain_expected_stage_def)

lemma drain_counters_run:
  "unat (dr_admitted (fold drain_step ops drain_new)) = sat_count (\<lambda>x. x = DAdmit) (before_drain ops)
    \<and> unat (dr_admits_after_drain (fold drain_step ops drain_new))
        = sat_count (\<lambda>x. x = DAdmit) (from_drain ops)
    \<and> unat (dr_completed (fold drain_step ops drain_new)) = sat_count (\<lambda>x. x = DComplete) (before_stop ops)
    \<and> unat (dr_cancelled_or_retired (fold drain_step ops drain_new))
        = sat_count (\<lambda>x. x = DCancel) (before_stop ops)
    \<and> unat (dr_dropped (fold drain_step ops drain_new)) = sat_count (\<lambda>x. x = DDropped) (before_stop ops)
    \<and> unat (dr_late_completions (fold drain_step ops drain_new))
        = sat_count settled (from_stop ops)
    \<and> unat (dr_full (fold drain_step ops drain_new)) = sat_count (\<lambda>x. x = DFull) ops"
proof (induction ops rule: rev_induct)
  case Nil
  then show ?case by (simp add: drain_new_def sat_count_def before_drain_def before_stop_def
      from_drain_def from_stop_def)
next
  case (snoc x ops)
  then show ?case
    using drain_stage_run [of ops] drain_stage_cases [of ops]
    by (cases x) (simp_all add: drain_snoc drain_op_defs settled_def unat_sat_add min_def)
qed

section \<open>Properties\<close>

text \<open>
  (C31) Permit accounting. After any sequence of fewer than \<open>2^64 - 1\<close> admissions, releases,
  retirements, drops and resets of a gate of capacity \<open>cap\<close>, the gate's \<open>current\<close> is the number
  of held permits of its generation plus the dropped ones, never above \<open>cap\<close>; the permits held
  have distinct ids; an admission succeeds exactly below capacity and then issues a permit with a
  fresh id; and releasing or retiring a held permit gives back exactly one slot when the permit is
  of the current generation, and is refused with \<open>current\<close> unchanged when a reset made it stale.
\<close>

theorem permit_gate_accounting:
  assumes "lp_with_capacity cap = Some g0" and "c = fold permit_step ops (permit_client_new g0)"
    and "length ops < 2 ^ 64 - 1"
  shows "lp_current (lc_gate c) = live_permits c + lc_leaked c \<and> lp_current (lc_gate c) \<le> cap
    \<and> lp_current (lc_gate c) \<le> lp_high_water (lc_gate c) \<and> lp_high_water (lc_gate c) \<le> cap
    \<and> distinct (map permit_id (lc_held c))
    \<and> (case try_admit (lc_gate c) of
         (Inr p, g) \<Rightarrow> live_permits c + lc_leaked c < cap \<and> lp_current g = lp_current (lc_gate c) + 1
           \<and> (\<exists>q. p = Some q \<and> permit_generation q = lp_generation g
                \<and> permit_id q \<notin> permit_id ` set (lc_held c))
       | (Inl _, g) \<Rightarrow> live_permits c + lc_leaked c = cap \<and> lp_current g = cap)
    \<and> (\<forall>f \<in> {lp_release, lp_retire}. \<forall>p \<in> set (lc_held c).
         \<exists>r g. f (Some p) (lc_gate c) = Some (r, g)
           \<and> (if permit_generation p = lp_generation (lc_gate c)
              then r \<in> range Inr \<and> lp_current g + 1 = lp_current (lc_gate c)
              else r = Inl (StaleOrUnknown (permit_id p) (permit_generation p) (lp_generation (lc_gate c)))
                \<and> lp_current g = lp_current (lc_gate c)))"
proof -
  have new: "lc_inv 0 (permit_client_new g0)" "lp_capacity g0 = cap"
    using assms(1) by (auto simp: lp_with_capacity_def lc_inv_def permit_client_new_def
        live_permits_def split: if_splits)
  have inv: "lc_inv (length ops) c" and cap: "lp_capacity (lc_gate c) = cap"
    using permit_run_inv [OF new(1), of ops] assms(2,3) new(2) by (simp_all add: permit_client_new_def)
  have counts: "lp_current (lc_gate c) = live_permits c + lc_leaked c"
    "lp_current (lc_gate c) \<le> lp_high_water (lc_gate c)" "lp_high_water (lc_gate c) \<le> cap"
    "distinct (map permit_id (lc_held c))" "unat (lp_next_permit_id (lc_gate c)) \<le> length ops"
    and ids: "\<forall>p \<in> set (lc_held c). permit_id p \<le> lp_next_permit_id (lc_gate c)"
    using inv cap by (auto simp: lc_inv_def Let_def)
  have fresh: "sat_add (lp_next_permit_id (lc_gate c)) 1 \<notin> permit_id ` set (lc_held c)"
    using sat_add_one_bounds(1) [OF counts(5) assms(3)] ids by force
  have admit: "case try_admit (lc_gate c) of
       (Inr p, g) \<Rightarrow> live_permits c + lc_leaked c < cap \<and> lp_current g = lp_current (lc_gate c) + 1
         \<and> (\<exists>q. p = Some q \<and> permit_generation q = lp_generation g
              \<and> permit_id q \<notin> permit_id ` set (lc_held c))
     | (Inl _, g) \<Rightarrow> live_permits c + lc_leaked c = cap \<and> lp_current g = cap"
    using counts fresh cap by (auto simp: try_admit_def Let_def)
  have settle: "\<forall>f \<in> {lp_release, lp_retire}. \<forall>p \<in> set (lc_held c).
       \<exists>r g. f (Some p) (lc_gate c) = Some (r, g)
         \<and> (if permit_generation p = lp_generation (lc_gate c)
            then r \<in> range Inr \<and> lp_current g + 1 = lp_current (lc_gate c)
            else r = Inl (StaleOrUnknown (permit_id p) (permit_generation p) (lp_generation (lc_gate c)))
              \<and> lp_current g = lp_current (lc_gate c))"
    by (intro ballI, erule (1) permit_settle [OF _ inv]) auto
  from counts admit settle show ?thesis
    by (intro conjI) (assumption | linarith)+
qed

theorem permit_gate_accounting_witness:
  "\<exists>g0 c. lp_with_capacity 2 = Some g0
    \<and> c = fold permit_step [PAdmit, PReset, PAdmit, PDrop 1] (permit_client_new g0)
    \<and> lc_leaked c = 1 \<and> length (lc_held c) = 1
    \<and> lp_current (lc_gate c) = live_permits c + lc_leaked c"
proof -
  let ?ops = "[PAdmit, PReset, PAdmit, PDrop 1]"
  let ?g0 = "the (lp_with_capacity 2)"
  let ?c = "fold permit_step ?ops (permit_client_new ?g0)"
  have g0: "lp_with_capacity 2 = Some ?g0" by (simp add: lp_with_capacity_def)
  have "lc_leaked ?c = 1 \<and> length (lc_held ?c) = 1"
    by (simp add: lp_with_capacity_def permit_client_new_def try_admit_def Let_def lp_reset_def
        remove_nth_def)
  with g0 permit_gate_accounting [OF g0 refl, of ?ops, THEN conjunct1] show ?thesis
    by (intro exI [of _ ?g0] exI [of _ ?c] conjI refl) simp_all
qed

text \<open>
  (C32) One timer in flight. However submits and timer ticks interleave, with fewer than \<open>2^32\<close>
  submits the worker never panics in \<open>complete\<close>, exactly one timer is in flight while work is
  pending and none when the gate is idle, the gate's counter is the backlog, and as many ticks as
  there is backlog bring the worker back to idle.
\<close>

theorem single_call_gate_one_in_flight:
  assumes "set es \<subseteq> {WSubmit, WTick}" and "count_list es WSubmit < 2 ^ 32"
  shows "\<exists>w. worker_run es worker_new = Some w
    \<and> sw_timers w = (if scg_is_idle (sw_gate w) then 0 else 1)
    \<and> unat (scg_pending (sw_gate w)) = worker_backlog es 0
    \<and> (\<exists>w'. worker_run (es @ replicate (unat (scg_pending (sw_gate w))) WTick) worker_new = Some w'
         \<and> scg_is_idle (sw_gate w') \<and> sw_timers w' = 0)"
proof -
  have "worker_inv 0 worker_new" by (simp add: worker_inv_def worker_new_def scg_new_def)
  then obtain w where w: "worker_run es worker_new = Some w" "worker_inv (worker_backlog es 0) w"
    using worker_run_inv [OF _ assms(1), of 0 worker_new] assms(2) by auto
  let ?n = "worker_backlog es 0"
  have n: "unat (scg_pending (sw_gate w)) = ?n" "?n < 2 ^ 32"
    using w(2) unsigned_less [of "scg_pending (sw_gate w)", where 'a = nat] by (auto simp: worker_inv_def)
  have ticks: "set (replicate ?n WTick) \<subseteq> {WSubmit, WTick}" by auto
  have "?n + count_list (replicate ?n WTick) WSubmit < 2 ^ 32" using n(2) by (simp add: count_list_0_iff)
  from worker_run_inv [OF w(2) ticks this]
  obtain w' where "worker_run (replicate ?n WTick) w = Some w'" "worker_inv 0 w'"
    by (auto simp: worker_backlog_ticks)
  then show ?thesis
    using w n(1) by (auto simp: worker_inv_def scg_is_idle_def worker_run_append unat_eq_0)
qed

theorem single_call_gate_one_in_flight_witness:
  "\<exists>w. worker_run [WSubmit, WSubmit, WTick] worker_new = Some w
    \<and> unat (scg_pending (sw_gate w)) = 1 \<and> sw_timers w = (if scg_is_idle (sw_gate w) then 0 else 1)"
  using single_call_gate_one_in_flight [of "[WSubmit, WSubmit, WTick]"] by auto

text \<open>
  (C33) A cancelled timer strands its backlog. If the timer in flight comes back cancelled and the
  worker calls \<open>cancel_in_flight\<close> while more than one submit is pending, then, whatever happens
  next (with fewer than \<open>2^32\<close> submits in all), no timer is ever scheduled again although the
  gate is not idle: every later \<open>submit\<close> reports a timer in flight that does not exist.
\<close>

theorem single_call_gate_cancel_strands:
  assumes "set es \<subseteq> {WSubmit, WTick}" and "worker_run es worker_new = Some w"
    and "1 < unat (scg_pending (sw_gate w))" and "count_list (es @ es') WSubmit < 2 ^ 32"
  shows "\<exists>w'. worker_run (es @ WCancelled # es') worker_new = Some w'
    \<and> sw_timers w' = 0 \<and> \<not> scg_is_idle (sw_gate w')"
proof -
  have "worker_inv 0 worker_new" by (simp add: worker_inv_def worker_new_def scg_new_def)
  then have inv: "worker_inv (worker_backlog es 0) w"
    using worker_run_inv [OF _ assms(1), of 0 worker_new] assms(2,4) by auto
  then have "sw_timers w = 1" using assms(3) by (auto simp: worker_inv_def)
  moreover have "unat (scg_pending (sw_gate w)) + count_list es' WSubmit < 2 ^ 32"
    using inv worker_backlog_le [of es 0] assms(4) by (simp add: worker_inv_def)
  moreover have "unat (sat_sub (scg_pending (sw_gate w)) 1) = unat (scg_pending (sw_gate w)) - 1"
    by (simp add: unat_sat_sub)
  ultimately show ?thesis
    using worker_stranded [of "\<lparr>sw_gate = cancel_in_flight (sw_gate w), sw_timers = 0\<rparr>" es'] assms(2,3)
    by (simp add: worker_run_append cancel_in_flight_def)
qed

theorem single_call_gate_cancel_strands_witness:
  "\<exists>w'. worker_run ([WSubmit, WSubmit] @ WCancelled # [WSubmit, WTick]) worker_new = Some w'
    \<and> sw_timers w' = 0 \<and> \<not> scg_is_idle (sw_gate w')"
proof -
  have "worker_run [WSubmit, WSubmit] worker_new = Some \<lparr>sw_gate = \<lparr>scg_pending = 2\<rparr>, sw_timers = 1\<rparr>"
    by code_simp
  from single_call_gate_cancel_strands [OF _ this, of "[WSubmit, WTick]"] show ?thesis by simp
qed

text \<open>
  (C38) Drain. After any sequence of drain operations the stage is \<open>Stopped\<close> if \<open>finish\<close> was
  called, else \<open>Draining\<close> if \<open>begin\<close> was, else \<open>Open\<close>, so it never moves back; an admission is
  accepted exactly while the service is open; and every counter of the report is the (saturating)
  number of events of its kind on its side of \<open>begin\<close> and \<open>finish\<close>, completions after \<open>finish\<close>
  being counted as late and nowhere else.
\<close>

theorem drain_state_report:
  "let d = fold drain_step ops drain_new; r = drain_report_of d in
     drr_stage r = drain_expected_stage ops
     \<and> (fst (drain_admit d) = DrainAccept \<longleftrightarrow> DBegin \<notin> set ops \<and> DFinish \<notin> set ops)
     \<and> (can_stop outstanding d \<longleftrightarrow> DBegin \<in> set ops \<and> DFinish \<notin> set ops \<and> outstanding = 0)
     \<and> unat (drr_admitted r) = sat_count (\<lambda>x. x = DAdmit) (before_drain ops)
     \<and> unat (drr_admits_after_drain r) = sat_count (\<lambda>x. x = DAdmit) (from_drain ops)
     \<and> unat (drr_completed r) = sat_count (\<lambda>x. x = DComplete) (before_stop ops)
     \<and> unat (drr_cancelled_or_retired r) = sat_count (\<lambda>x. x = DCancel) (before_stop ops)
     \<and> unat (drr_dropped r) = sat_count (\<lambda>x. x = DDropped) (before_stop ops)
     \<and> unat (drr_late_completions r) = sat_count settled (from_stop ops)
     \<and> unat (drr_full r) = sat_count (\<lambda>x. x = DFull) ops"
  using drain_counters_run [of ops] drain_stage_run [of ops]
  by (simp add: Let_def drain_report_of_def drain_admit_def drain_is_open_def can_stop_def
      drain_expected_stage_def)

end
