(* ===== verification/Capacity.thy ===== *)
theory Capacity
  imports Tina_Prelude
begin

text \<open>
  The capacity vocabulary of \<open>tina/src/capacity.rs\<close> (modes, deployment policy and its validation,
  surface reports) and the lifecycle states of deferred reply slots of \<open>tina/src/context.rs\<close>,
  which the bounded helpers of \<open>tina-runtime\<close> share.

  A \<open>SystemTime\<close> is a \<open>nat\<close> of nanoseconds; the clock that \<open>validate_mode\<close> reads is an argument.
  A \<open>String\<close> is a list of code points below 256.
\<close>

section \<open>Modes and policy\<close>

datatype capacity_mode =
    Fixed
  | Tuning
  | UnboundedForNow string nat
  | UnboundedWithoutExpiryIKnowThisIsBad string




definition unbounded_without_expiry_i_know_this_is_bad :: "string \<Rightarrow> capacity_mode" where
  "unbounded_without_expiry_i_know_this_is_bad reason = UnboundedWithoutExpiryIKnowThisIsBad reason"







section \<open>Surface reports\<close>

record capacity_surface_report =
  csr_name :: string
  csr_mode :: capacity_mode
  csr_max_messages :: "nat option"
  csr_current_messages :: nat
  csr_high_water_messages :: nat
  csr_full_count :: u64
  csr_max_weight :: "nat option"
  csr_current_weight :: "nat option"
  csr_high_water_weight :: "nat option"
  csr_weight_full_count :: u64
  csr_weight_unit :: "string option"
  csr_shared_scope :: "string option"
  csr_shared_max_weight :: "nat option"
  csr_shared_current_weight :: "nat option"
  csr_shared_high_water_weight :: "nat option"
  csr_shared_weight_full_count :: u64

definition csr_count ::
    "string \<Rightarrow> capacity_mode \<Rightarrow> nat \<Rightarrow> nat \<Rightarrow> nat \<Rightarrow> u64 \<Rightarrow> capacity_surface_report" where
  "csr_count name mode max_messages current high_water full_count =
     \<lparr>csr_name = name, csr_mode = mode, csr_max_messages = Some max_messages,
      csr_current_messages = current, csr_high_water_messages = high_water,
      csr_full_count = full_count, csr_max_weight = None, csr_current_weight = None,
      csr_high_water_weight = None, csr_weight_full_count = 0, csr_weight_unit = None,
      csr_shared_scope = None, csr_shared_max_weight = None, csr_shared_current_weight = None,
      csr_shared_high_water_weight = None, csr_shared_weight_full_count = 0\<rparr>"

definition csr_weighted ::
    "string \<Rightarrow> capacity_mode \<Rightarrow> nat \<Rightarrow> nat \<Rightarrow> nat \<Rightarrow> u64 \<Rightarrow> string \<Rightarrow> capacity_surface_report" where
  "csr_weighted name mode max_weight current_weight high_water_weight weight_full_count weight_unit =
     \<lparr>csr_name = name, csr_mode = mode, csr_max_messages = None, csr_current_messages = 0,
      csr_high_water_messages = 0, csr_full_count = 0, csr_max_weight = Some max_weight,
      csr_current_weight = Some current_weight, csr_high_water_weight = Some high_water_weight,
      csr_weight_full_count = weight_full_count, csr_weight_unit = Some weight_unit,
      csr_shared_scope = None, csr_shared_max_weight = None, csr_shared_current_weight = None,
      csr_shared_high_water_weight = None, csr_shared_weight_full_count = 0\<rparr>"

definition csr_with_shared_scope ::
    "string \<Rightarrow> nat \<Rightarrow> nat \<Rightarrow> nat \<Rightarrow> u64 \<Rightarrow> capacity_surface_report \<Rightarrow> capacity_surface_report" where
  "csr_with_shared_scope scope max_weight current_weight high_water_weight weight_full_count r =
     r\<lparr>csr_shared_scope := Some scope, csr_shared_max_weight := Some max_weight,
       csr_shared_current_weight := Some current_weight,
       csr_shared_high_water_weight := Some high_water_weight,
       csr_shared_weight_full_count := weight_full_count\<rparr>"

definition ever_full :: "capacity_surface_report \<Rightarrow> bool" where
  "ever_full r \<longleftrightarrow> csr_full_count r > 0 \<or> csr_weight_full_count r > 0
     \<or> csr_shared_weight_full_count r > 0"

section \<open>Deferred reply slots\<close>

datatype deferred_slot_state = SlotOpen | SlotReplied | SlotClosed

definition slot_state_byte :: "deferred_slot_state \<Rightarrow> u8" where
  "slot_state_byte s = (case s of SlotOpen \<Rightarrow> 0 | SlotReplied \<Rightarrow> 1 | SlotClosed \<Rightarrow> 2)"

definition slot_state_of_byte :: "u8 \<Rightarrow> deferred_slot_state option" where
  "slot_state_of_byte b =
     (if b = 0 then Some SlotOpen else if b = 1 then Some SlotReplied
      else if b = 2 then Some SlotClosed else None)"

datatype take_reply_slot_error = NoCaller | CrossShardUnsupported

lemma slot_state_roundtrip: "slot_state_of_byte (slot_state_byte s) = Some s"
  by (cases s) (simp_all add: slot_state_of_byte_def slot_state_byte_def)

section \<open>Validation\<close>




end
