(* ===== verification/Wait_List.thy ===== *)
theory Wait_List
  imports Capacity "HOL-Library.Monad_Syntax"
begin

text \<open>
  The many-callers-per-key parking lot of \<open>tina-runtime/src/wait_list.rs\<close>: a slab of waiters with
  per-slot generations, a free-slot stack, a global capacity and an optional per-key limit.

  A parked caller is a deferred reply of type \<open>'r\<close>. Its lifecycle state lives in the runtime's
  shared cell, which only the shard thread that runs the isolate writes; every operation below
  therefore reads one snapshot \<open>st :: 'r \<Rightarrow> deferred_slot_state\<close> of those cells. An operation that
  panics returns \<open>None\<close>; the reply effects it emits are pairs of the deferred reply and the value.
  \<open>free_slots\<close> keeps the order of the vector, its last element being the one popped next.
\<close>

section \<open>Data\<close>

record wait_ticket =
  ticket_slot :: nat
  ticket_generation :: u64

record ('k, 'r) wait_entry =
  we_key :: 'k
  we_reply :: 'r
  we_seq :: u64

record 'k wait_snapshot =
  ws_key :: 'k
  ws_waiters :: nat

record ('k, 'r) wait_list =
  wl_capacity :: nat
  wl_per_key_limit :: "nat option"
  wl_slots :: "('k, 'r) wait_entry option list"
  wl_generations :: "u64 list"
  wl_free_slots :: "nat list"
  wl_current :: nat
  wl_next_seq :: u64
  wl_high_water :: nat
  wl_full_rejects :: u64
  wl_key_full_rejects :: u64
  wl_reclaimed :: u64
  wl_capacity_name :: string
  wl_capacity_mode :: capacity_mode

datatype ('k, 'c) wait_error = WaitFull 'k 'c | WaitKeyFull 'k 'c

datatype ('k, 'c) wait_call_error =
    WaitCallNoCaller 'k 'c
  | WaitCallCrossShardUnsupported 'k 'c
  | WaitCallFull 'k 'c
  | WaitCallKeyFull 'k 'c

datatype 'v wait_reply_error = ReplyMissing 'v | ReplyStaleTicket 'v

section \<open>Construction and reports\<close>

definition wl_build :: "string \<Rightarrow> nat \<Rightarrow> nat option \<Rightarrow> ('k, 'r) wait_list option" where
  "wl_build name capacity per_key_limit =
     (if capacity > 0 then
        Some \<lparr>wl_capacity = capacity, wl_per_key_limit = per_key_limit,
          wl_slots = replicate capacity None, wl_generations = replicate capacity 0,
          wl_free_slots = rev [0..<capacity], wl_current = 0, wl_next_seq = 0, wl_high_water = 0,
          wl_full_rejects = 0, wl_key_full_rejects = 0, wl_reclaimed = 0,
          wl_capacity_name = name, wl_capacity_mode = Fixed\<rparr>
      else None)"

definition wl_with_capacity :: "string \<Rightarrow> nat \<Rightarrow> ('k, 'r) wait_list option" where
  "wl_with_capacity name capacity = wl_build name capacity None"

definition wl_with_key_limit :: "string \<Rightarrow> nat \<Rightarrow> nat \<Rightarrow> ('k, 'r) wait_list option" where
  "wl_with_key_limit name capacity per_key =
     (if per_key > 0 then wl_build name capacity (Some per_key) else None)"

definition wl_named :: "string \<Rightarrow> ('k, 'r) wait_list \<Rightarrow> ('k, 'r) wait_list" where
  "wl_named name w = w\<lparr>wl_capacity_name := name\<rparr>"

definition wl_with_capacity_mode :: "capacity_mode \<Rightarrow> ('k, 'r) wait_list \<Rightarrow> ('k, 'r) wait_list" where
  "wl_with_capacity_mode mode w = w\<lparr>wl_capacity_mode := mode\<rparr>"

definition wl_is_empty :: "('k, 'r) wait_list \<Rightarrow> bool" where
  "wl_is_empty w \<longleftrightarrow> wl_current w = 0"

definition is_open_entry :: "('r \<Rightarrow> deferred_slot_state) \<Rightarrow> ('k, 'r) wait_entry option \<Rightarrow> bool" where
  "is_open_entry st s = (case s of None \<Rightarrow> False | Some e \<Rightarrow> st (we_reply e) = SlotOpen)"

definition wl_live_len :: "('r \<Rightarrow> deferred_slot_state) \<Rightarrow> ('k, 'r) wait_list \<Rightarrow> nat" where
  "wl_live_len st w = length (filter (is_open_entry st) (wl_slots w))"

definition wl_capacity_report ::
    "('r \<Rightarrow> deferred_slot_state) \<Rightarrow> ('k, 'r) wait_list \<Rightarrow> capacity_surface_report" where
  "wl_capacity_report st w = csr_count (wl_capacity_name w) (wl_capacity_mode w) (wl_capacity w)
     (wl_live_len st w) (wl_high_water w) (wl_full_rejects w)"

section \<open>Slots\<close>

definition wl_remove_slot ::
    "nat \<Rightarrow> ('k, 'r) wait_list \<Rightarrow> (('k, 'r) wait_entry option \<times> ('k, 'r) wait_list) option" where
  "wl_remove_slot idx w =
     (if idx < length (wl_slots w) then
        case wl_slots w ! idx of
          None \<Rightarrow> Some (None, w)
        | Some entry \<Rightarrow>
            if wl_current w = 0 then None
            else Some (Some entry, w\<lparr>wl_slots := (wl_slots w)[idx := None],
                   wl_current := wl_current w - 1, wl_free_slots := wl_free_slots w @ [idx]\<rparr>)
      else None)"

definition wl_store_entry ::
    "'k \<Rightarrow> 'r \<Rightarrow> ('k, 'r) wait_list \<Rightarrow> (wait_ticket \<times> ('k, 'r) wait_list) option" where
  "wl_store_entry key reply w =
     (if wl_free_slots w = [] then None
      else
        let idx = last (wl_free_slots w);
            generation = wl_generations w ! idx + 1;
            seq = wl_next_seq w + 1;
            w1 = w\<lparr>wl_free_slots := butlast (wl_free_slots w),
                   wl_generations := (wl_generations w)[idx := generation],
                   wl_next_seq := seq,
                   wl_slots := (wl_slots w)[idx := Some \<lparr>we_key = key, we_reply = reply, we_seq = seq\<rparr>],
                   wl_current := wl_current w + 1\<rparr>;
            w2 = (if wl_current w1 > wl_high_water w1 then w1\<lparr>wl_high_water := wl_current w1\<rparr> else w1)
        in Some (\<lparr>ticket_slot = idx, ticket_generation = generation\<rparr>, w2))"

definition wl_count_for_key :: "('r \<Rightarrow> deferred_slot_state) \<Rightarrow> 'k \<Rightarrow> ('k, 'r) wait_list \<Rightarrow> nat" where
  "wl_count_for_key st key w =
     length (filter (\<lambda>s. case s of None \<Rightarrow> False
       | Some e \<Rightarrow> we_key e = key \<and> st (we_reply e) = SlotOpen) (wl_slots w))"

fun wl_sweep_loop ::
    "('r \<Rightarrow> deferred_slot_state) \<Rightarrow> nat list \<Rightarrow> nat \<Rightarrow> ('k, 'r) wait_list
     \<Rightarrow> (nat \<times> ('k, 'r) wait_list) option" where
  "wl_sweep_loop st [] reclaimed w = Some (reclaimed, w)"
| "wl_sweep_loop st (idx # idxs) reclaimed w =
     (if map_option (\<lambda>e. st (we_reply e)) (wl_slots w ! idx) = Some SlotClosed then
        do {
          (removed, w1) \<leftarrow> wl_remove_slot idx w;
          (case removed of
             Some _ \<Rightarrow> wl_sweep_loop st idxs (reclaimed + 1) (w1\<lparr>wl_reclaimed := wl_reclaimed w1 + 1\<rparr>)
           | None \<Rightarrow> wl_sweep_loop st idxs reclaimed w1)
        }
      else wl_sweep_loop st idxs reclaimed w)"

definition wl_sweep ::
    "('r \<Rightarrow> deferred_slot_state) \<Rightarrow> ('k, 'r) wait_list \<Rightarrow> (nat \<times> ('k, 'r) wait_list) option" where
  "wl_sweep st w = wl_sweep_loop st [0..<length (wl_slots w)] 0 w"

section \<open>Parking\<close>

definition wl_sweep_if_needed ::
    "('r \<Rightarrow> deferred_slot_state) \<Rightarrow> ('k, 'r) wait_list \<Rightarrow> ('k, 'r) wait_list option" where
  "wl_sweep_if_needed st w =
     (if wl_free_slots w = [] \<or> wl_per_key_limit w \<noteq> None then map_option snd (wl_sweep st w)
      else Some w)"

text \<open>
  \<open>park\<close> consumes a request call, which always carries a caller; a call is represented by the
  deferred reply that \<open>into_deferred\<close> makes of it. \<open>park_call\<close> consumes a call context, which
  \<open>try_into_request_context\<close> may give back with an error.
\<close>

definition wl_park ::
    "('r \<Rightarrow> deferred_slot_state) \<Rightarrow> 'k \<Rightarrow> 'r \<Rightarrow> ('k, 'r) wait_list
     \<Rightarrow> ((('k, 'r) wait_error + wait_ticket) \<times> ('k, 'r) wait_list) option" where
  "wl_park st key call w = do {
     w1 \<leftarrow> wl_sweep_if_needed st w;
     if (case wl_per_key_limit w1 of None \<Rightarrow> False | Some limit \<Rightarrow> wl_count_for_key st key w1 \<ge> limit)
     then Some (Inl (WaitKeyFull key call), w1\<lparr>wl_key_full_rejects := wl_key_full_rejects w1 + 1\<rparr>)
     else if wl_free_slots w1 = []
     then Some (Inl (WaitFull key call), w1\<lparr>wl_full_rejects := wl_full_rejects w1 + 1\<rparr>)
     else do {
       (ticket, w2) \<leftarrow> wl_store_entry key call w1;
       Some (Inr ticket, w2)
     }
   }"

definition wl_park_call ::
    "('r \<Rightarrow> deferred_slot_state) \<Rightarrow> 'k \<Rightarrow> take_reply_slot_error + 'r \<Rightarrow> ('k, 'r) wait_list
     \<Rightarrow> ((('k, take_reply_slot_error + 'r) wait_call_error + wait_ticket) \<times> ('k, 'r) wait_list) option"
  where
  "wl_park_call st key call w = do {
     w1 \<leftarrow> wl_sweep_if_needed st w;
     if (case wl_per_key_limit w1 of None \<Rightarrow> False | Some limit \<Rightarrow> wl_count_for_key st key w1 \<ge> limit)
     then Some (Inl (WaitCallKeyFull key call), w1\<lparr>wl_key_full_rejects := wl_key_full_rejects w1 + 1\<rparr>)
     else if wl_free_slots w1 = []
     then Some (Inl (WaitCallFull key call), w1\<lparr>wl_full_rejects := wl_full_rejects w1 + 1\<rparr>)
     else (case call of
         Inr reply \<Rightarrow> do {
           (ticket, w2) \<leftarrow> wl_store_entry key reply w1;
           Some (Inr ticket, w2)
         }
       | Inl NoCaller \<Rightarrow> Some (Inl (WaitCallNoCaller key call), w1)
       | Inl CrossShardUnsupported \<Rightarrow> Some (Inl (WaitCallCrossShardUnsupported key call), w1))
   }"

section \<open>Settling\<close>

definition wl_reply_one ::
    "wait_ticket \<Rightarrow> 'v \<Rightarrow> ('k, 'r) wait_list
     \<Rightarrow> (('v wait_reply_error + 'r \<times> 'v) \<times> ('k, 'r) wait_list) option" where
  "wl_reply_one ticket reply w =
     (if ticket_slot ticket \<ge> length (wl_slots w)
         \<or> wl_generations w ! ticket_slot ticket \<noteq> ticket_generation ticket
      then Some (Inl (ReplyStaleTicket reply), w)
      else do {
        (removed, w1) \<leftarrow> wl_remove_slot (ticket_slot ticket) w;
        Some (case removed of
            None \<Rightarrow> (Inl (ReplyMissing reply), w1)
          | Some entry \<Rightarrow> (Inr (we_reply entry, reply), w1))
      })"

fun wl_scan ::
    "('r \<Rightarrow> deferred_slot_state) \<Rightarrow> 'k \<Rightarrow> nat list \<Rightarrow> (nat \<times> u64) option \<Rightarrow> ('k, 'r) wait_list
     \<Rightarrow> ((nat \<times> u64) option \<times> ('k, 'r) wait_list) option" where
  "wl_scan st key [] oldest w = Some (oldest, w)"
| "wl_scan st key (idx # idxs) oldest w =
     (case wl_slots w ! idx of
        Some entry \<Rightarrow>
          if we_key entry = key then
            (case st (we_reply entry) of
               SlotOpen \<Rightarrow>
                 wl_scan st key idxs
                   (if (case oldest of None \<Rightarrow> True | Some (_, oldest_seq) \<Rightarrow> we_seq entry < oldest_seq)
                    then Some (idx, we_seq entry) else oldest) w
             | SlotClosed \<Rightarrow> do {
                 (removed, w1) \<leftarrow> wl_remove_slot idx w;
                 _ \<leftarrow> removed;
                 wl_scan st key idxs oldest (w1\<lparr>wl_reclaimed := wl_reclaimed w1 + 1\<rparr>)
               }
             | SlotReplied \<Rightarrow> do {
                 (removed, w1) \<leftarrow> wl_remove_slot idx w;
                 _ \<leftarrow> removed;
                 wl_scan st key idxs oldest w1
               })
          else wl_scan st key idxs oldest w
      | None \<Rightarrow> wl_scan st key idxs oldest w)"

partial_function (option) wl_take_next ::
    "('r \<Rightarrow> deferred_slot_state) \<Rightarrow> 'k \<Rightarrow> ('k, 'r) wait_list \<Rightarrow> ('r option \<times> ('k, 'r) wait_list) option"
  where
  "wl_take_next st key w = do {
     (oldest_open, w1) \<leftarrow> wl_scan st key [0..<length (wl_slots w)] None w;
     (case oldest_open of
        None \<Rightarrow> Some (None, w1)
      | Some (oldest, _) \<Rightarrow> do {
          (removed, w2) \<leftarrow> wl_remove_slot oldest w1;
          entry \<leftarrow> removed;
          (case st (we_reply entry) of
             SlotOpen \<Rightarrow> Some (Some (we_reply entry), w2)
           | SlotClosed \<Rightarrow> wl_take_next st key (w2\<lparr>wl_reclaimed := wl_reclaimed w2 + 1\<rparr>)
           | SlotReplied \<Rightarrow> wl_take_next st key w2)
        })
   }"

fun wl_drain_loop ::
    "(('k, 'r) wait_entry \<Rightarrow> bool) \<Rightarrow> nat list \<Rightarrow> ('k, 'r) wait_entry list \<Rightarrow> ('k, 'r) wait_list
     \<Rightarrow> (('k, 'r) wait_entry list \<times> ('k, 'r) wait_list) option" where
  "wl_drain_loop P [] entries w = Some (entries, w)"
| "wl_drain_loop P (idx # idxs) entries w =
     (if (case wl_slots w ! idx of None \<Rightarrow> False | Some e \<Rightarrow> P e) then
        do {
          (removed, w1) \<leftarrow> wl_remove_slot idx w;
          (case removed of
             Some entry \<Rightarrow> wl_drain_loop P idxs (entries @ [entry]) w1
           | None \<Rightarrow> wl_drain_loop P idxs entries w1)
        }
      else wl_drain_loop P idxs entries w)"

definition wl_drain_for_key ::
    "'k \<Rightarrow> ('k, 'r) wait_list \<Rightarrow> (('k, 'r) wait_entry list \<times> ('k, 'r) wait_list) option" where
  "wl_drain_for_key key w = do {
     (entries, w1) \<leftarrow> wl_drain_loop (\<lambda>e. we_key e = key) [0..<length (wl_slots w)] [] w;
     Some (sort_key we_seq entries, w1)
   }"

definition wl_reply_all_clone ::
    "'k \<Rightarrow> 'v \<Rightarrow> ('k, 'r) wait_list \<Rightarrow> (('r \<times> 'v) list \<times> ('k, 'r) wait_list) option" where
  "wl_reply_all_clone key reply w = do {
     (drained, w1) \<leftarrow> wl_drain_for_key key w;
     Some (map (\<lambda>entry. (we_reply entry, reply)) drained, w1)
   }"

text \<open>A \<open>FnMut\<close> factory threads its captured state from one reply to the next.\<close>

fun build_replies ::
    "('f \<Rightarrow> 'v \<times> 'f) \<Rightarrow> ('k, 'r) wait_entry list \<Rightarrow> 'f \<Rightarrow> ('r \<times> 'v) list \<times> 'f" where
  "build_replies factory [] f = ([], f)"
| "build_replies factory (entry # entries) f =
     (let (v, f1) = factory f; (out, f2) = build_replies factory entries f1
      in ((we_reply entry, v) # out, f2))"

definition wl_reply_all_with ::
    "'k \<Rightarrow> ('f \<Rightarrow> 'v \<times> 'f) \<Rightarrow> 'f \<Rightarrow> ('k, 'r) wait_list
     \<Rightarrow> (('r \<times> 'v) list \<times> 'f \<times> ('k, 'r) wait_list) option" where
  "wl_reply_all_with key factory f w = do {
     (drained, w1) \<leftarrow> wl_drain_for_key key w;
     (let (out, f1) = build_replies factory drained f in Some (out, f1, w1))
   }"

definition wl_close_all_clone ::
    "'k \<Rightarrow> 'v \<Rightarrow> ('k, 'r) wait_list \<Rightarrow> (('r \<times> 'v) list \<times> ('k, 'r) wait_list) option" where
  "wl_close_all_clone key reply w = wl_reply_all_clone key reply w"

definition wl_close_all_with ::
    "'k \<Rightarrow> ('f \<Rightarrow> 'v \<times> 'f) \<Rightarrow> 'f \<Rightarrow> ('k, 'r) wait_list
     \<Rightarrow> (('r \<times> 'v) list \<times> 'f \<times> ('k, 'r) wait_list) option" where
  "wl_close_all_with key factory f w = wl_reply_all_with key factory f w"

definition wl_drain_all_with ::
    "('f \<Rightarrow> 'v \<times> 'f) \<Rightarrow> 'f \<Rightarrow> ('k, 'r) wait_list
     \<Rightarrow> (('r \<times> 'v) list \<times> 'f \<times> ('k, 'r) wait_list) option" where
  "wl_drain_all_with factory f w = do {
     (entries, w1) \<leftarrow> wl_drain_loop (\<lambda>_. True) [0..<length (wl_slots w)] [] w;
     (let (out, f1) = build_replies factory entries f in Some (out, f1, w1))
   }"

fun snapshot_bump :: "'k \<Rightarrow> 'k wait_snapshot list \<Rightarrow> 'k wait_snapshot list" where
  "snapshot_bump key [] = [\<lparr>ws_key = key, ws_waiters = 1\<rparr>]"
| "snapshot_bump key (row # rows) =
     (if ws_key row = key then row\<lparr>ws_waiters := ws_waiters row + 1\<rparr> # rows
      else row # snapshot_bump key rows)"

definition wl_snapshot ::
    "('r \<Rightarrow> deferred_slot_state) \<Rightarrow> ('k, 'r) wait_list \<Rightarrow> 'k wait_snapshot list" where
  "wl_snapshot st w = fold (\<lambda>slot out. case slot of None \<Rightarrow> out
     | Some entry \<Rightarrow> if st (we_reply entry) = SlotOpen then snapshot_bump (we_key entry) out else out)
     (wl_slots w) []"

end
