(* ===== verification/Slab.thy ===== *)
theory Slab
  imports Tina_Prelude
begin

text \<open>
  Generic facts about slabs (vectors of optional entries) read in index order and about stable
  sorting by a key without ties: how vacating or filling slots changes the list of occupied rows,
  and how that change shows in the rows sorted by arrival.
\<close>

section \<open>Rows of a slab\<close>

definition slab_rows :: "'a option list \<Rightarrow> (nat \<times> 'a) list" where
  "slab_rows xs = concat (map (\<lambda>i. case xs ! i of None \<Rightarrow> [] | Some x \<Rightarrow> [(i, x)]) [0..<length xs])"

definition vacate :: "nat list \<Rightarrow> 'a option list \<Rightarrow> 'a option list" where
  "vacate is xs = fold (\<lambda>i xs. xs[i := None]) is xs"

lemma set_slab_rows: "set (slab_rows xs) = {(i, x). i < length xs \<and> xs ! i = Some x}"
  by (auto simp: slab_rows_def split: option.splits)

lemma slab_rows_snoc:
  "slab_rows (xs @ [s]) = slab_rows xs @ (case s of None \<Rightarrow> [] | Some x \<Rightarrow> [(length xs, x)])"
proof -
  have "map (\<lambda>i. case (xs @ [s]) ! i of None \<Rightarrow> [] | Some x \<Rightarrow> [(i, x)]) [0..<length xs]
      = map (\<lambda>i. case xs ! i of None \<Rightarrow> [] | Some x \<Rightarrow> [(i, x)]) [0..<length xs]"
    by (intro map_cong refl) (simp add: nth_append)
  then show ?thesis by (simp add: slab_rows_def split: option.split del: map_eq_conv)
qed

lemma sorted_fst_slab_rows: "sorted_wrt (<) (map fst (slab_rows xs))"
proof (induction xs rule: rev_induct)
  case Nil
  then show ?case by (simp add: slab_rows_def)
next
  case (snoc s xs)
  then show ?case
    by (auto simp: slab_rows_snoc sorted_wrt_append set_slab_rows split: option.splits)
qed

lemma distinct_fst_slab_rows: "distinct (map fst (slab_rows xs))"
  using sorted_fst_slab_rows [of xs] by (simp add: strict_sorted_iff)

lemma distinct_slab_rows: "distinct (slab_rows xs)"
  using distinct_fst_slab_rows [of xs] by (simp add: distinct_map)

lemma length_slab_rows: "length (slab_rows xs) = card (occupied xs)"
proof -
  have "length (slab_rows xs) = card (set (map fst (slab_rows xs)))"
    using distinct_card [OF distinct_fst_slab_rows, of xs] by simp
  also have "set (map fst (slab_rows xs)) = occupied xs"
    by (force simp: set_slab_rows occupied_iff)
  finally show ?thesis .
qed

lemma slab_rows_replicate_None [slab_simps]: "slab_rows (replicate n None) = []"
proof -
  have "set (slab_rows (replicate n None)) = {}" by (auto simp: set_slab_rows)
  then show ?thesis by simp
qed

lemma sorted_rows_unique:
  assumes "sorted_wrt (<) (map fst rs)" and "set rs = set (slab_rows xs)"
  shows "rs = slab_rows xs"
proof -
  have "map fst rs = map fst (slab_rows xs)"
    using assms sorted_fst_slab_rows [of xs]
    by (metis (mono_tags) list.set_map strict_sorted_equal)
  moreover have "inj_on fst (set rs \<union> set (slab_rows xs))"
    using assms(2) distinct_fst_slab_rows [of xs] by (simp add: distinct_map)
  ultimately show ?thesis by (rule map_inj_on)
qed

lemma length_vacate [simp]: "length (vacate is xs) = length xs"
  by (induction "is" arbitrary: xs) (simp_all add: vacate_def)

lemma nth_vacate: "i < length xs \<Longrightarrow> vacate is xs ! i = (if i \<in> set is then None else xs ! i)"
  by (induction "is" arbitrary: xs) (auto simp: vacate_def nth_list_update)

lemma vacate_Nil [simp]: "vacate [] xs = xs"
  by (simp add: vacate_def)

lemma vacate_Cons: "vacate (i # is) xs = vacate is (xs[i := None])"
  by (simp add: vacate_def)

lemma slab_rows_vacate: "slab_rows (vacate is xs) = filter (\<lambda>r. fst r \<notin> set is) (slab_rows xs)"
proof (rule sorted_rows_unique [symmetric])
  show "sorted_wrt (<) (map fst (filter (\<lambda>r. fst r \<notin> set is) (slab_rows xs)))"
    using sorted_fst_slab_rows [of xs] by (auto simp: sorted_wrt_map intro: sorted_wrt_filter)
  show "set (filter (\<lambda>r. fst r \<notin> set is) (slab_rows xs)) = set (slab_rows (vacate is xs))"
    by (auto simp: set_slab_rows nth_vacate split: if_splits)
qed

lemma occupied_vacate: "occupied (vacate is xs) = occupied xs - set is"
  by (auto simp: occupied_def nth_vacate split: if_splits)

lemma vacant_vacate: "set is \<subseteq> {..<length xs} \<Longrightarrow> vacant (vacate is xs) = vacant xs \<union> set is"
  by (auto simp: vacant_def nth_vacate)

lemma mset_slab_rows_fill:
  assumes "i \<in> vacant xs"
  shows "mset (slab_rows (xs[i := Some x])) = add_mset (i, x) (mset (slab_rows xs))"
proof -
  have i: "i < length xs" "xs ! i = None" using assms by (auto simp: vacant_def)
  have "(i, x) \<notin> set (slab_rows xs)" using i by (simp add: set_slab_rows)
  moreover have "set (slab_rows (xs[i := Some x])) = insert (i, x) (set (slab_rows xs))"
    using i by (auto simp: set_slab_rows nth_list_update split: if_splits)
  ultimately show ?thesis
    using distinct_slab_rows [of xs] distinct_slab_rows [of "xs[i := Some x]"]
      set_eq_iff_mset_eq_distinct [of "slab_rows (xs[i := Some x])" "(i, x) # slab_rows xs"]
    by simp
qed

lemma filter_slab_rows:
  "filter (\<lambda>i. case xs ! i of None \<Rightarrow> False | Some x \<Rightarrow> P x) [0..<length xs]
    = map fst (filter (\<lambda>row. P (snd row)) (slab_rows xs))"
proof -
  have "filter (\<lambda>i. case xs ! i of None \<Rightarrow> False | Some x \<Rightarrow> P x) is
      = map fst (filter (\<lambda>row. P (snd row))
          (concat (map (\<lambda>i. case xs ! i of None \<Rightarrow> [] | Some x \<Rightarrow> [(i, x)]) is)))" for "is"
    by (induction "is") (auto split: option.splits)
  then show ?thesis by (simp add: slab_rows_def)
qed

lemma length_filter_slab:
  "length (filter (\<lambda>s. case s of None \<Rightarrow> False | Some x \<Rightarrow> P x) xs)
    = length (filter (\<lambda>row. P (snd row)) (slab_rows xs))"
proof (induction xs rule: rev_induct)
  case Nil
  then show ?case by (simp add: slab_rows_def)
next
  case (snoc s xs)
  then show ?case by (cases s) (simp_all add: slab_rows_snoc)
qed

section \<open>Sorting without ties\<close>

lemma insort_key_map: "insort_key g (f x) (map f xs) = map f (insort_key (\<lambda>x. g (f x)) x xs)"
  by (induction xs) auto

lemma sort_key_map: "sort_key g (map f xs) = map f (sort_key (\<lambda>x. g (f x)) xs)"
  by (induction xs) (simp_all add: insort_key_map)

lemma sort_key_unique:
  assumes "mset xs = mset ys" and "distinct (map f xs)"
  shows "sort_key f xs = sort_key f ys"
proof -
  have sets: "set xs = set ys" using assms(1) by (rule mset_eq_setD)
  have dist: "distinct (map f zs)" if "mset zs = mset xs" for zs
    using assms(2) mset_eq_imp_distinct_iff [of "map f zs" "map f xs"] that by simp
  have "map f (sort_key f xs) = map f (sort_key f ys)"
    by (rule sorted_distinct_set_unique) (simp_all add: dist assms(1) sets)
  moreover have "inj_on f (set (sort_key f xs) \<union> set (sort_key f ys))"
    using assms(2) sets by (simp add: distinct_map)
  ultimately show ?thesis by (rule map_inj_on)
qed

lemma sort_key_snoc_greatest:
  assumes "\<forall>y \<in> set xs. f y < f x"
  shows "sort_key f (xs @ [x]) = sort_key f xs @ [x]"
proof (rule properties_for_sort_key)
  show "filter (\<lambda>y. f k = f y) (sort_key f xs @ [x]) = filter (\<lambda>y. f k = f y) (xs @ [x])" for k
  proof -
    have "sorted (map f (filter (\<lambda>y. f k = f y) xs))"
      using sorted_map_same [of f "\<lambda>_. f k" xs] by (simp add: eq_commute)
    then show ?thesis by (simp add: filter_sort sort_key_id_if_sorted)
  qed
  show "sorted (map f (sort_key f xs @ [x]))"
    using assms by (auto simp: sorted_append intro: less_imp_le)
qed simp

lemma hd_sort_key:
  assumes "x \<in> set xs" and "\<And>y. y \<in> set xs \<Longrightarrow> y \<noteq> x \<Longrightarrow> f x < f y"
  shows "hd (sort_key f xs) = x"
proof -
  have ne: "sort_key f xs \<noteq> []" using assms(1) by (metis set_sort empty_iff list.set(1))
  then have h: "hd (sort_key f xs) \<in> set xs" using hd_in_set by fastforce
  have "f (hd (sort_key f xs)) \<le> f x"
    using ne assms(1) sorted_sort_key [of f xs] set_sort [of f xs]
    by (cases "sort_key f xs") (auto dest: equalityD2)
  then show ?thesis using assms(2) [OF h] by (meson leD)
qed

end
