(* ===== verification/Wait_Queue.thy ===== *)
theory Wait_Queue
  imports Wait_List Slab
begin

text \<open>
  What the wait list of \<open>Wait_List\<close> promises: the queue of waiters it represents, the effect of
  every operation on that queue, the invariant of slots, free list, generations and sequence
  numbers, and the properties of every run of a service that uses it.
\<close>

section \<open>The queue a wait list represents\<close>

text \<open>
  The waiters in order of arrival, each with the ticket that names it. This is the abstract state
  of the component: every operation is specified by what it does to this list.
\<close>

definition row_waiter ::
    "u64 list \<Rightarrow> nat \<times> ('k, 'r) wait_entry \<Rightarrow> wait_ticket \<times> 'k \<times> 'r" where
  "row_waiter gens row = (\<lparr>ticket_slot = fst row, ticket_generation = gens ! fst row\<rparr>,
     we_key (snd row), we_reply (snd row))"

definition wl_rows :: "('k, 'r) wait_list \<Rightarrow> (nat \<times> ('k, 'r) wait_entry) list" where
  "wl_rows w = sort_key (\<lambda>row. we_seq (snd row)) (slab_rows (wl_slots w))"

definition wl_queue :: "('k, 'r) wait_list \<Rightarrow> (wait_ticket \<times> 'k \<times> 'r) list" where
  "wl_queue w = map (row_waiter (wl_generations w)) (wl_rows w)"

definition wl_inv :: "nat \<Rightarrow> ('k, 'r) wait_list \<Rightarrow> bool" where
  "wl_inv n w \<longleftrightarrow> length (wl_slots w) = wl_capacity w \<and> length (wl_generations w) = wl_capacity w
     \<and> distinct (wl_free_slots w) \<and> set (wl_free_slots w) = vacant (wl_slots w)
     \<and> wl_current w = card (occupied (wl_slots w)) \<and> wl_current w \<le> wl_high_water w
     \<and> wl_high_water w \<le> wl_capacity w
     \<and> distinct (map (\<lambda>row. we_seq (snd row)) (slab_rows (wl_slots w)))
     \<and> (\<forall>row \<in> set (slab_rows (wl_slots w)). we_seq (snd row) \<le> wl_next_seq w)
     \<and> unat (wl_next_seq w) \<le> n \<and> (\<forall>g \<in> set (wl_generations w). unat g \<le> n)"

definition wl_vacate :: "nat list \<Rightarrow> ('k, 'r) wait_list \<Rightarrow> ('k, 'r) wait_list" where
  "wl_vacate hits w = w\<lparr>wl_slots := vacate hits (wl_slots w),
     wl_current := wl_current w - length hits, wl_free_slots := wl_free_slots w @ hits\<rparr>"

definition entry_hits ::
    "(('k, 'r) wait_entry \<Rightarrow> bool) \<Rightarrow> nat list \<Rightarrow> ('k, 'r) wait_list \<Rightarrow> nat list" where
  "entry_hits P idxs w = filter (\<lambda>i. case wl_slots w ! i of None \<Rightarrow> False | Some e \<Rightarrow> P e) idxs"

lemma length_wl_queue: "length (wl_queue w) = card (occupied (wl_slots w))"
  by (simp add: wl_queue_def wl_rows_def length_slab_rows)

lemma wl_vacate_Nil: "wl_vacate [] w = w"
  by (simp add: wl_vacate_def)

lemma wl_remove_occupied:
  assumes "i < length (wl_slots w)" and "wl_slots w ! i = Some e"
    and "wl_current w = card (occupied (wl_slots w))"
  shows "wl_remove_slot i w = Some (Some e, wl_vacate [i] w)"
proof -
  have "i \<in> occupied (wl_slots w)" using assms by (simp add: occupied_iff)
  then have "wl_current w \<noteq> 0" using assms(3) by (auto simp: card_gt_0_iff)
  then show ?thesis
    using assms by (simp add: wl_remove_slot_def wl_vacate_def vacate_Cons)
qed

lemma wl_vacate_counted:
  assumes "i < length (wl_slots w)" and "wl_slots w ! i = Some e"
    and "wl_current w = card (occupied (wl_slots w))"
  shows "wl_current (wl_vacate [i] w) = card (occupied (wl_slots (wl_vacate [i] w)))"
  using assms by (simp add: wl_vacate_def occupied_vacate occupied_iff)

lemma wl_vacate_Cons: "wl_vacate (i # is) w = wl_vacate is (wl_vacate [i] w)"
  by (simp add: wl_vacate_def vacate_Cons)

lemma wl_vacate_simps [simp]:
  "length (wl_slots (wl_vacate hits w)) = length (wl_slots w)"
  "wl_vacate hits (w\<lparr>wl_reclaimed := r\<rparr>) = (wl_vacate hits w)\<lparr>wl_reclaimed := r\<rparr>"
  "entry_hits P idxs (w\<lparr>wl_reclaimed := r\<rparr>) = entry_hits P idxs w"
  "wl_reclaimed (wl_vacate hits w) = wl_reclaimed w"
  "wl_capacity (wl_vacate hits w) = wl_capacity w"
  "wl_generations (wl_vacate hits w) = wl_generations w"
  "wl_per_key_limit (wl_vacate hits w) = wl_per_key_limit w"
  by (simp_all add: wl_vacate_def entry_hits_def)

lemma slots_vacate_other:
  "i \<notin> set idxs \<Longrightarrow> set idxs \<subseteq> {..<length (wl_slots w)} \<Longrightarrow> j \<in> set idxs
    \<Longrightarrow> wl_slots (wl_vacate [i] w) ! j = wl_slots w ! j"
  by (auto simp: wl_vacate_def nth_vacate subset_eq)

lemma entry_hits_vacate:
  "i \<notin> set idxs \<Longrightarrow> set idxs \<subseteq> {..<length (wl_slots w)}
    \<Longrightarrow> entry_hits P idxs (wl_vacate [i] w) = entry_hits P idxs w"
  unfolding entry_hits_def by (intro filter_cong refl) (simp add: slots_vacate_other)

lemma entry_hits_Cons:
  "entry_hits P (i # idxs) w =
     (case wl_slots w ! i of None \<Rightarrow> entry_hits P idxs w
      | Some e \<Rightarrow> if P e then i # entry_hits P idxs w else entry_hits P idxs w)"
  by (simp add: entry_hits_def split: option.splits)

lemma entry_hits_Nil [simp]: "entry_hits P [] w = []"
  by (simp add: entry_hits_def)

lemma wl_drain_loop_eq:
  "\<lbrakk>distinct idxs; set idxs \<subseteq> {..<length (wl_slots w)}; wl_current w = card (occupied (wl_slots w))\<rbrakk>
    \<Longrightarrow> wl_drain_loop P idxs acc w =
      Some (acc @ map (\<lambda>i. the (wl_slots w ! i)) (entry_hits P idxs w), wl_vacate (entry_hits P idxs w) w)"
proof (induction idxs arbitrary: acc w)
  case Nil
  then show ?case by (simp add: wl_vacate_Nil)
next
  case (Cons i idxs)
  then have i: "i < length (wl_slots w)" "i \<notin> set idxs" and sub: "set idxs \<subseteq> {..<length (wl_slots w)}"
    by auto
  show ?case
  proof (cases "\<exists>e. wl_slots w ! i = Some e \<and> P e")
    case True
    then obtain e where e: "wl_slots w ! i = Some e" "P e" by blast
    have "map (\<lambda>j. the (wl_slots (wl_vacate [i] w) ! j)) (entry_hits P idxs w)
        = map (\<lambda>j. the (wl_slots w ! j)) (entry_hits P idxs w)"
      using slots_vacate_other [OF i(2) sub] by (intro map_cong refl) (simp add: entry_hits_def)
    then show ?thesis
      using Cons.IH [of "wl_vacate [i] w"] Cons.prems i e sub
        wl_remove_occupied [OF i(1) e(1)] wl_vacate_counted [OF i(1) e(1)]
      by (simp add: entry_hits_Cons entry_hits_vacate wl_vacate_Cons [of i "entry_hits P idxs w"]
          del: map_eq_conv)
  next
    case False
    then show ?thesis
      using Cons.IH [of w] Cons.prems by (auto simp: entry_hits_Cons split: option.splits)
  qed
qed

abbreviation closed_entry :: "('r \<Rightarrow> deferred_slot_state) \<Rightarrow> ('k, 'r) wait_entry \<Rightarrow> bool" where
  "closed_entry st e \<equiv> st (we_reply e) = SlotClosed"

lemma wl_sweep_loop_eq:
  "\<lbrakk>distinct idxs; set idxs \<subseteq> {..<length (wl_slots w)}; wl_current w = card (occupied (wl_slots w))\<rbrakk>
    \<Longrightarrow> wl_sweep_loop st idxs n w = (let hits = entry_hits (closed_entry st) idxs w in
      Some (n + length hits,
        (wl_vacate hits w)\<lparr>wl_reclaimed := wl_reclaimed w + of_nat (length hits)\<rparr>))"
proof (induction idxs arbitrary: n w)
  case Nil
  then show ?case by (simp add: wl_vacate_Nil)
next
  case (Cons i idxs)
  then have i: "i < length (wl_slots w)" "i \<notin> set idxs" and sub: "set idxs \<subseteq> {..<length (wl_slots w)}"
    by auto
  show ?case
  proof (cases "\<exists>e. wl_slots w ! i = Some e \<and> closed_entry st e")
    case True
    then obtain e where e: "wl_slots w ! i = Some e" "closed_entry st e" by blast
    show ?thesis
      using Cons.IH [of "(wl_vacate [i] w)\<lparr>wl_reclaimed := wl_reclaimed w + 1\<rparr>"] Cons.prems i e sub
        wl_remove_occupied [OF i(1) e(1)] wl_vacate_counted [OF i(1) e(1)]
      by (simp add: entry_hits_Cons entry_hits_vacate Let_def algebra_simps
          wl_vacate_Cons [of i "entry_hits (closed_entry st) idxs w"])
  next
    case False
    then show ?thesis
      using Cons.IH [of w] Cons.prems by (auto simp: entry_hits_Cons split: option.splits)
  qed
qed

definition dead_for :: "('r \<Rightarrow> deferred_slot_state) \<Rightarrow> 'k \<Rightarrow> ('k, 'r) wait_entry \<Rightarrow> bool" where
  "dead_for st key e \<longleftrightarrow> we_key e = key \<and> st (we_reply e) \<noteq> SlotOpen"

definition live_for :: "('r \<Rightarrow> deferred_slot_state) \<Rightarrow> 'k \<Rightarrow> ('k, 'r) wait_entry \<Rightarrow> bool" where
  "live_for st key e \<longleftrightarrow> we_key e = key \<and> st (we_reply e) = SlotOpen"

definition seq_at :: "('k, 'r) wait_list \<Rightarrow> nat \<Rightarrow> u64" where
  "seq_at w i = we_seq (the (wl_slots w ! i))"

definition older :: "nat \<times> u64 \<Rightarrow> (nat \<times> u64) option \<Rightarrow> (nat \<times> u64) option" where
  "older cand oldest =
     (if (case oldest of None \<Rightarrow> True | Some (_, oldest_seq) \<Rightarrow> snd cand < oldest_seq)
      then Some cand else oldest)"

definition pick_oldest :: "('k, 'r) wait_list \<Rightarrow> nat list \<Rightarrow> (nat \<times> u64) option \<Rightarrow> (nat \<times> u64) option" where
  "pick_oldest w hits oldest = fold (\<lambda>i. older (i, seq_at w i)) hits oldest"

lemma pick_oldest_vacate:
  "i \<notin> set idxs \<Longrightarrow> set idxs \<subseteq> {..<length (wl_slots w)} \<Longrightarrow> set hits \<subseteq> set idxs
    \<Longrightarrow> pick_oldest (wl_vacate [i] w) hits oldest = pick_oldest w hits oldest"
  unfolding pick_oldest_def
  by (intro fold_cong refl) (simp add: seq_at_def slots_vacate_other subset_eq)

lemma entry_hits_subset: "set (entry_hits P idxs w) \<subseteq> set idxs"
  by (auto simp: entry_hits_def)

lemma pick_oldest_reclaimed [simp]: "pick_oldest (w\<lparr>wl_reclaimed := r\<rparr>) hits oldest = pick_oldest w hits oldest"
  by (simp add: pick_oldest_def seq_at_def)

lemma wl_scan_eq:
  "\<lbrakk>distinct idxs; set idxs \<subseteq> {..<length (wl_slots w)}; wl_current w = card (occupied (wl_slots w))\<rbrakk>
    \<Longrightarrow> \<exists>r. wl_scan st key idxs oldest w =
      Some (pick_oldest w (entry_hits (live_for st key) idxs w) oldest,
        (wl_vacate (entry_hits (dead_for st key) idxs w) w)\<lparr>wl_reclaimed := r\<rparr>)"
proof (induction idxs arbitrary: oldest w)
  case Nil
  show ?case by (intro exI [of _ "wl_reclaimed w"]) (simp add: wl_vacate_Nil pick_oldest_def)
next
  case (Cons i idxs)
  then have i: "i < length (wl_slots w)" "i \<notin> set idxs" and sub: "set idxs \<subseteq> {..<length (wl_slots w)}"
    and dist: "distinct idxs" by auto
  show ?case
  proof (cases "wl_slots w ! i")
    case None
    then show ?thesis using Cons.IH [OF dist sub Cons.prems(3)] by (simp add: entry_hits_Cons)
  next
    case (Some e)
    have rm: "wl_remove_slot i w = Some (Some e, wl_vacate [i] w)"
      by (rule wl_remove_occupied [OF i(1) Some Cons.prems(3)])
    have pick: "pick_oldest (wl_vacate [i] w) (entry_hits (live_for st key) idxs w) oldest
        = pick_oldest w (entry_hits (live_for st key) idxs w) oldest"
      by (rule pick_oldest_vacate [OF i(2) sub entry_hits_subset])
    have vac: "\<exists>r'. wl_scan st key idxs oldest ((wl_vacate [i] w)\<lparr>wl_reclaimed := r\<rparr>) =
        Some (pick_oldest w (entry_hits (live_for st key) idxs w) oldest,
          (wl_vacate (i # entry_hits (dead_for st key) idxs w) w)\<lparr>wl_reclaimed := r'\<rparr>)" for r
      using Cons.IH [of "(wl_vacate [i] w)\<lparr>wl_reclaimed := r\<rparr>" oldest] dist sub i
        wl_vacate_counted [OF i(1) Some Cons.prems(3)] pick
      by (simp add: entry_hits_vacate wl_vacate_Cons [of i "entry_hits (dead_for st key) idxs w"])
    have live: "live_for st key e \<longleftrightarrow> we_key e = key \<and> st (we_reply e) = SlotOpen"
      and dead: "dead_for st key e \<longleftrightarrow> we_key e = key \<and> st (we_reply e) \<noteq> SlotOpen"
      by (simp_all add: live_for_def dead_for_def)
    have cons: "pick_oldest w (i # hits) oldest = pick_oldest w hits (older (i, we_seq e) oldest)" for hits
      using Some by (simp add: pick_oldest_def seq_at_def)
    have upd: "(if (case oldest of None \<Rightarrow> True | Some (_, s) \<Rightarrow> we_seq e < s) then Some (i, we_seq e)
        else oldest) = older (i, we_seq e) oldest"
      by (cases oldest) (auto simp: older_def)
    have same: "(wl_vacate [i] w)\<lparr>wl_reclaimed := wl_reclaimed w\<rparr> = wl_vacate [i] w"
      by (simp add: wl_vacate_def)
    show ?thesis
      using rm vac [of "wl_reclaimed w", unfolded same] vac [of "wl_reclaimed w + 1"]
        Cons.IH [OF dist sub Cons.prems(3), of oldest]
        Cons.IH [OF dist sub Cons.prems(3), of "older (i, we_seq e) oldest"]
      by (cases "st (we_reply e)") (simp_all add: Some entry_hits_Cons live dead cons upd)
  qed
qed

section \<open>What removing and storing do to the queue\<close>

definition all_hits :: "(('k, 'r) wait_entry \<Rightarrow> bool) \<Rightarrow> ('k, 'r) wait_list \<Rightarrow> nat list" where
  "all_hits P w = entry_hits P [0..<length (wl_slots w)] w"

lemma all_hits_rows: "all_hits P w = map fst (filter (\<lambda>row. P (snd row)) (slab_rows (wl_slots w)))"
  by (simp add: all_hits_def entry_hits_def filter_slab_rows)

lemma the_all_hits:
  "map (\<lambda>i. the (wl_slots w ! i)) (all_hits P w) = map snd (filter (\<lambda>row. P (snd row)) (slab_rows (wl_slots w)))"
  unfolding all_hits_rows by (auto simp: set_slab_rows)

lemma all_hits_iff:
  assumes "row \<in> set (slab_rows (wl_slots w))"
  shows "fst row \<in> set (all_hits P w) \<longleftrightarrow> P (snd row)"
proof -
  obtain i e where row: "row = (i, e)" "i < length (wl_slots w)" "wl_slots w ! i = Some e"
    using assms by (auto simp: set_slab_rows)
  then show ?thesis by (simp add: all_hits_def entry_hits_def)
qed

lemma all_hits_occupied: "distinct (all_hits P w)" "set (all_hits P w) \<subseteq> occupied (wl_slots w)"
  by (auto simp: all_hits_def entry_hits_def occupied_def split: option.splits)

lemma wl_vacate_inv:
  assumes "wl_inv n w" and "distinct hits" and "set hits \<subseteq> occupied (wl_slots w)"
  shows "wl_inv n ((wl_vacate hits w)\<lparr>wl_reclaimed := r\<rparr>)"
proof -
  have "card (occupied (wl_slots w) - set hits) = card (occupied (wl_slots w)) - length hits"
    using assms(2,3) by (simp add: card_Diff_subset distinct_card)
  moreover have "set hits \<subseteq> {..<length (wl_slots w)}" "set hits \<inter> vacant (wl_slots w) = {}"
    using assms(3) by (auto simp: occupied_def vacant_def)
  moreover have "card (occupied (wl_slots w)) - length hits \<le> wl_high_water w"
    using assms(1) unfolding wl_inv_def by linarith
  ultimately show ?thesis
    using assms(1,2)
    by (simp add: wl_inv_def wl_vacate_def occupied_vacate vacant_vacate slab_rows_vacate
        distinct_map_filter Int_commute)
qed

lemma wl_queue_vacate:
  "wl_queue ((wl_vacate hits w)\<lparr>wl_reclaimed := r\<rparr>)
    = filter (\<lambda>x. ticket_slot (fst x) \<notin> set hits) (wl_queue w)"
  by (simp add: wl_queue_def wl_rows_def wl_vacate_def slab_rows_vacate filter_map comp_def row_waiter_def
      flip: filter_sort)

lemma wl_queue_all_hits:
  assumes "\<And>e. P e \<longleftrightarrow> Q (we_key e) (we_reply e)"
  shows "wl_queue ((wl_vacate (all_hits P w) w)\<lparr>wl_reclaimed := r\<rparr>) = filter (\<lambda>(t, k, x). \<not> Q k x) (wl_queue w)"
proof -
  have "filter (\<lambda>row. fst row \<notin> set (all_hits P w)) (wl_rows w)
      = filter (\<lambda>row. \<not> Q (we_key (snd row)) (we_reply (snd row))) (wl_rows w)"
    by (rule filter_cong [OF refl]) (simp add: wl_rows_def all_hits_iff assms)
  then show ?thesis
    unfolding wl_queue_vacate by (simp add: wl_queue_def filter_map comp_def row_waiter_def)
qed

lemma length_all_hits:
  assumes "\<And>e. P e \<longleftrightarrow> Q (we_key e) (we_reply e)"
  shows "length (all_hits P w) = length (filter (\<lambda>(t, k, x). Q k x) (wl_queue w))"
  by (simp add: all_hits_rows wl_queue_def wl_rows_def filter_map comp_def row_waiter_def filter_sort assms)

lemma wl_invD:
  assumes "wl_inv n w"
  shows "length (wl_slots w) = wl_capacity w" "length (wl_generations w) = wl_capacity w"
    "distinct (wl_free_slots w)" "set (wl_free_slots w) = vacant (wl_slots w)"
    "wl_current w = card (occupied (wl_slots w))" "wl_current w \<le> wl_high_water w"
    "wl_high_water w \<le> wl_capacity w"
    "distinct (map (\<lambda>row. we_seq (snd row)) (slab_rows (wl_slots w)))"
    "\<And>row. row \<in> set (slab_rows (wl_slots w)) \<Longrightarrow> we_seq (snd row) \<le> wl_next_seq w"
    "unat (wl_next_seq w) \<le> n" "\<And>i. i < wl_capacity w \<Longrightarrow> unat (wl_generations w ! i) \<le> n"
  using assms unfolding wl_inv_def by auto

lemma wl_free_top:
  assumes "wl_inv n w" and "wl_free_slots w \<noteq> []"
  shows "last (wl_free_slots w) \<in> vacant (wl_slots w)" "last (wl_free_slots w) < wl_capacity w"
    "set (butlast (wl_free_slots w)) = vacant (wl_slots w) - {last (wl_free_slots w)}"
    "distinct (butlast (wl_free_slots w))"
proof -
  have snoc: "wl_free_slots w = butlast (wl_free_slots w) @ [last (wl_free_slots w)]"
    using assms(2) by simp
  note inv = wl_invD [OF assms(1)]
  show top: "last (wl_free_slots w) \<in> vacant (wl_slots w)" using inv(4) assms(2) last_in_set by blast
  then show "last (wl_free_slots w) < wl_capacity w" using inv(1) by (simp add: vacant_def)
  show "distinct (butlast (wl_free_slots w))" using inv(3) by (rule distinct_butlast)
  show "set (butlast (wl_free_slots w)) = vacant (wl_slots w) - {last (wl_free_slots w)}"
    using inv(3,4) snoc by (metis Diff_insert_absorb distinct.simps(2) distinct_rev list.simps(15)
        rev.simps(2) rev_rev_ident set_rev)
qed

lemma wl_fill_rows:
  assumes "wl_inv n w" and "i \<in> vacant (wl_slots w)" and "\<And>row. row \<in> set (slab_rows (wl_slots w)) \<Longrightarrow> we_seq (snd row) < we_seq e"
  shows "sort_key (\<lambda>row. we_seq (snd row)) (slab_rows ((wl_slots w)[i := Some e])) = wl_rows w @ [(i, e)]"
    and "distinct (map (\<lambda>row. we_seq (snd row)) (slab_rows ((wl_slots w)[i := Some e])))"
proof -
  let ?f = "\<lambda>row. we_seq (snd row)"
  have ms: "mset (slab_rows ((wl_slots w)[i := Some e])) = mset (slab_rows (wl_slots w) @ [(i, e)])"
    using mset_slab_rows_fill [OF assms(2)] by simp
  have d: "distinct (map ?f (slab_rows (wl_slots w) @ [(i, e)]))"
    using wl_invD(8) [OF assms(1)] assms(3) by fastforce
  show dist: "distinct (map ?f (slab_rows ((wl_slots w)[i := Some e])))"
    using ms d by (metis mset_eq_imp_distinct_iff mset_map)
  show "sort_key ?f (slab_rows ((wl_slots w)[i := Some e])) = wl_rows w @ [(i, e)]"
    unfolding sort_key_unique [OF ms dist] wl_rows_def
    by (rule sort_key_snoc_greatest) (use assms(3) in auto)
qed

lemma wl_store_spec:
  assumes "wl_inv n w" and "n < 2 ^ 64 - 1" and "wl_free_slots w \<noteq> []"
  obtains t w' where "wl_store_entry key reply w = Some (t, w')" "wl_inv (Suc n) w'"
    "wl_queue w' = wl_queue w @ [(t, key, reply)]" "wl_capacity w' = wl_capacity w"
    "wl_per_key_limit w' = wl_per_key_limit w"
    "ticket_slot t < wl_capacity w" "unat (ticket_generation t) = unat (wl_generations w ! ticket_slot t) + 1"
    "wl_generations w' = (wl_generations w)[ticket_slot t := ticket_generation t]"
proof -
  note inv = wl_invD [OF assms(1)] and top = wl_free_top [OF assms(1,3)]
  let ?i = "last (wl_free_slots w)"
  let ?seq = "wl_next_seq w + 1" and ?gen = "wl_generations w ! ?i + 1"
  let ?e = "\<lparr>we_key = key, we_reply = reply, we_seq = ?seq\<rparr>"
  let ?t = "\<lparr>ticket_slot = ?i, ticket_generation = ?gen\<rparr>"
  let ?slots = "(wl_slots w)[?i := Some ?e]" and ?gens = "(wl_generations w)[?i := ?gen]"
  obtain w' where st: "wl_store_entry key reply w = Some (?t, w')"
    and w': "wl_slots w' = ?slots" "wl_generations w' = ?gens" "wl_next_seq w' = ?seq"
      "wl_current w' = wl_current w + 1" "wl_free_slots w' = butlast (wl_free_slots w)"
      "wl_high_water w' = max (wl_high_water w) (wl_current w + 1)" "wl_capacity w' = wl_capacity w"
      "wl_per_key_limit w' = wl_per_key_limit w"
    using assms(3) by (simp add: wl_store_entry_def Let_def max_def)
  have seq: "unat ?seq = Suc (unat (wl_next_seq w))" and gen: "unat ?gen = Suc (unat (wl_generations w ! ?i))"
    using inv(10) inv(11) [OF top(2)] assms(2) by (simp_all add: unat_word_ariths)
  have later: "we_seq (snd row) < we_seq ?e" if "row \<in> set (slab_rows (wl_slots w))" for row
    using inv(9) [OF that] seq by (simp add: word_less_nat_alt word_le_nat_alt)
  note rows = wl_fill_rows [OF assms(1) top(1) later]
  have "0 < card (vacant (wl_slots w))" using top(1) by (auto simp: card_gt_0_iff)
  then have room: "wl_current w < wl_capacity w"
    using inv(1,5) card_occupied_vacant [of "wl_slots w"] by linarith
  have il: "?i < length (wl_slots w)" "?i < length (wl_generations w)" "?i \<notin> occupied (wl_slots w)"
    using top(1,2) inv(1,2) by (auto simp: vacant_def occupied_def)
  have occ: "card (occupied ?slots) = wl_current w + 1"
    using il(3) inv(5) by (simp add: occupied_update_Some [OF il(1)])
  have set_rows: "set (slab_rows ?slots) = insert (?i, ?e) (set (slab_rows (wl_slots w)))"
    using mset_slab_rows_fill [OF top(1), of ?e] by (metis set_mset_add_mset_insert set_mset_mset)
  have "wl_inv (Suc n) w'"
    unfolding wl_inv_def
  proof (intro conjI)
    show "\<forall>row \<in> set (slab_rows (wl_slots w')). we_seq (snd row) \<le> wl_next_seq w'"
      using later set_rows by (fastforce simp: w' intro: less_imp_le)
    show "\<forall>g \<in> set (wl_generations w'). unat g \<le> Suc n"
    proof
      fix g assume "g \<in> set (wl_generations w')"
      then have "g = ?gen \<or> g \<in> set (wl_generations w)"
        using set_update_subset_insert [of "wl_generations w" ?i ?gen] by (auto simp: w')
      then show "unat g \<le> Suc n"
        using gen inv(11) [OF top(2)] inv(2,11) by (auto simp: in_set_conv_nth intro: le_SucI)
    qed
  qed (use inv(1-7,10) top(3,4) occ rows(2) seq room in \<open>simp_all add: w' vacant_update_Some\<close>)
  moreover have "wl_queue w' = wl_queue w @ [(?t, key, reply)]"
  proof -
    have "row_waiter ?gens row = row_waiter (wl_generations w) row" if "row \<in> set (wl_rows w)" for row
    proof -
      have "fst row \<noteq> ?i" using that il(3) by (auto simp: wl_rows_def set_slab_rows occupied_iff)
      then show ?thesis by (simp add: row_waiter_def)
    qed
    then show ?thesis
      using il(2) by (simp add: wl_queue_def wl_rows_def w' rows(1) [unfolded wl_rows_def] row_waiter_def)
  qed
  ultimately show ?thesis
    by (intro that [OF st]) (simp_all add: w' top(2) gen)
qed

section \<open>The operations on the queue\<close>

definition wl_frame :: "('k, 'r) wait_list \<Rightarrow> ('k, 'r) wait_list \<Rightarrow> bool" where
  "wl_frame w w' \<longleftrightarrow> wl_capacity w' = wl_capacity w \<and> wl_per_key_limit w' = wl_per_key_limit w
     \<and> wl_generations w' = wl_generations w"

lemma wl_free_empty_iff: "wl_inv n w \<Longrightarrow> wl_free_slots w = [] \<longleftrightarrow> length (wl_queue w) = wl_capacity w"
proof -
  assume "wl_inv n w"
  note inv = wl_invD [OF this]
  have "wl_free_slots w = [] \<longleftrightarrow> card (vacant (wl_slots w)) = 0" using inv(4) by auto
  then show ?thesis
    using card_occupied_vacant [of "wl_slots w"] inv(1) unfolding length_wl_queue by linarith
qed

lemma wl_queue_le: "wl_inv n w \<Longrightarrow> length (wl_queue w) \<le> wl_capacity w"
  using wl_invD(1) [of n w] card_occupied_vacant [of "wl_slots w"] by (simp add: length_wl_queue)

lemma wl_sweep_spec:
  assumes "wl_inv n w"
  obtains w' where "wl_sweep st w = Some (length (filter (\<lambda>(t, k, r). st r = SlotClosed) (wl_queue w)), w')"
    "wl_inv n w'" "wl_queue w' = filter (\<lambda>(t, k, r). st r \<noteq> SlotClosed) (wl_queue w)" "wl_frame w w'"
proof -
  let ?hits = "all_hits (closed_entry st) w"
  let ?w = "(wl_vacate ?hits w)\<lparr>wl_reclaimed := wl_reclaimed w + of_nat (length ?hits)\<rparr>"
  have "wl_sweep st w = Some (length ?hits, ?w)"
    using wl_sweep_loop_eq [of "[0..<length (wl_slots w)]" w st 0] wl_invD(5) [OF assms]
    by (simp add: wl_sweep_def all_hits_def Let_def lessThan_atLeast0)
  then show ?thesis
    using length_all_hits [where P = "closed_entry st" and Q = "\<lambda>k r. st r = SlotClosed" and w = w]
      wl_queue_all_hits [where P = "closed_entry st" and Q = "\<lambda>k r. st r = SlotClosed" and w = w]
      wl_vacate_inv [OF assms all_hits_occupied]
    by (intro that [of ?w]) (simp_all add: wl_frame_def)
qed

lemma wl_sweep_if_needed_spec:
  assumes "wl_inv n w"
  obtains w' where "wl_sweep_if_needed st w = Some w'" "wl_inv n w'" "wl_frame w w'"
    "wl_queue w' = (if length (wl_queue w) = wl_capacity w \<or> wl_per_key_limit w \<noteq> None
       then filter (\<lambda>(t, k, r). st r \<noteq> SlotClosed) (wl_queue w) else wl_queue w)"
proof (cases "wl_free_slots w = [] \<or> wl_per_key_limit w \<noteq> None")
  case True
  obtain w' where "wl_sweep st w = Some (length (filter (\<lambda>(t, k, r). st r = SlotClosed) (wl_queue w)), w')"
    "wl_inv n w'" "wl_queue w' = filter (\<lambda>(t, k, r). st r \<noteq> SlotClosed) (wl_queue w)" "wl_frame w w'"
    using assms by (rule wl_sweep_spec)
  with True show ?thesis
    using wl_free_empty_iff [OF assms] by (intro that [of w']) (auto simp: wl_sweep_if_needed_def)
next
  case False
  with assms show ?thesis
    using wl_free_empty_iff [OF assms]
    by (intro that [of w]) (auto simp: wl_sweep_if_needed_def wl_frame_def)
qed

lemma wl_count_for_key_eq:
  "wl_count_for_key st key w = length (filter (\<lambda>(t, k, r). k = key \<and> st r = SlotOpen) (wl_queue w))"
  by (simp add: wl_count_for_key_def length_filter_slab wl_queue_def wl_rows_def filter_map comp_def
      row_waiter_def filter_sort)

lemma wl_filter_ticket:
  assumes "(t, k, r) \<in> set (wl_queue w)"
  shows "filter (\<lambda>x. ticket_slot (fst x) \<noteq> ticket_slot t) (wl_queue w) = filter (\<lambda>x. fst x \<noteq> t) (wl_queue w)"
proof (rule filter_cong [OF refl])
  fix x assume "x \<in> set (wl_queue w)"
  with assms show "ticket_slot (fst x) \<noteq> ticket_slot t \<longleftrightarrow> fst x \<noteq> t"
    by (auto simp: wl_queue_def row_waiter_def)
qed

lemma wl_reply_one_spec:
  assumes "wl_inv n w"
  obtains (Hit) k r w' where "wl_reply_one t v w = Some (Inr (r, v), w')" "(t, k, r) \<in> set (wl_queue w)"
      "wl_inv n w'" "wl_frame w w'" "wl_queue w' = filter (\<lambda>x. fst x \<noteq> t) (wl_queue w)"
  | (Miss) e where "wl_reply_one t v w = Some (Inl e, w)" "e \<in> {ReplyStaleTicket v, ReplyMissing v}"
      "t \<notin> fst ` set (wl_queue w)"
proof (cases "ticket_slot t < length (wl_slots w) \<and> wl_generations w ! ticket_slot t = ticket_generation t")
  case False
  then have "t \<notin> fst ` set (wl_queue w)"
    by (auto simp: wl_queue_def wl_rows_def row_waiter_def set_slab_rows)
  with False show ?thesis by (intro Miss [of "ReplyStaleTicket v"]) (auto simp: wl_reply_one_def)
next
  case gen: True
  show ?thesis
  proof (cases "wl_slots w ! ticket_slot t")
    case None
    then have "t \<notin> fst ` set (wl_queue w)"
      by (auto simp: wl_queue_def wl_rows_def row_waiter_def set_slab_rows)
    with gen None show ?thesis
      by (intro Miss [of "ReplyMissing v"]) (auto simp: wl_reply_one_def wl_remove_slot_def)
  next
    case (Some e)
    let ?i = "ticket_slot t" and ?w = "(wl_vacate [ticket_slot t] w)\<lparr>wl_reclaimed := wl_reclaimed w\<rparr>"
    have same: "?w = wl_vacate [?i] w" by (simp add: wl_vacate_def)
    have "(?i, e) \<in> set (wl_rows w)" using gen Some by (simp add: wl_rows_def set_slab_rows)
    then have mem: "(t, we_key e, we_reply e) \<in> set (wl_queue w)"
      using gen by (force simp: wl_queue_def row_waiter_def)
    note wl_filter_ticket [OF mem]
    moreover have "wl_inv n ?w"
      by (rule wl_vacate_inv [OF assms]) (use gen Some in \<open>auto simp: occupied_iff\<close>)
    moreover have "wl_reply_one t v w = Some (Inr (we_reply e, v), ?w)"
      using gen wl_remove_occupied [OF _ Some wl_invD(5) [OF assms]] by (simp add: wl_reply_one_def same)
    ultimately show ?thesis
      using mem wl_queue_vacate [where hits = "[?i]" and w = w and r = "wl_reclaimed w"] by (intro Hit [of _ ?w]) (simp_all add: wl_frame_def)
  qed
qed

lemma wl_drain_for_key_spec:
  assumes "wl_inv n w"
  obtains es w' where "wl_drain_for_key key w = Some (es, w')" "wl_inv n w'" "wl_frame w w'"
    "map we_reply es = map (\<lambda>(t, k, r). r) (filter (\<lambda>(t, k, r). k = key) (wl_queue w))"
    "wl_queue w' = filter (\<lambda>(t, k, r). k \<noteq> key) (wl_queue w)"
proof -
  let ?P = "\<lambda>e. we_key e = key"
  let ?hits = "all_hits ?P w" and ?f = "\<lambda>row. we_seq (snd row)"
  let ?w = "(wl_vacate ?hits w)\<lparr>wl_reclaimed := wl_reclaimed w\<rparr>"
  let ?es = "map snd (sort_key ?f (filter (\<lambda>row. ?P (snd row)) (slab_rows (wl_slots w))))"
  have same: "?w = wl_vacate ?hits w" by (simp add: wl_vacate_def)
  have "wl_drain_for_key key w = Some (?es, ?w)"
    using wl_drain_loop_eq [of "[0..<length (wl_slots w)]" w ?P "[]"] wl_invD(5) [OF assms] the_all_hits [of w ?P]
    by (simp add: wl_drain_for_key_def same lessThan_atLeast0 sort_key_map flip: all_hits_def)
  moreover have "map we_reply ?es = map (\<lambda>(t, k, r). r) (filter (\<lambda>(t, k, r). k = key) (wl_queue w))"
    by (simp add: wl_queue_def wl_rows_def filter_map comp_def row_waiter_def flip: filter_sort)
  ultimately show ?thesis
    using wl_queue_all_hits [where P = ?P and Q = "\<lambda>k r. k = key" and w = w]
      wl_vacate_inv [OF assms all_hits_occupied]
    by (intro that [of ?es ?w]) (simp_all add: wl_frame_def)
qed

lemma wl_drain_all_spec:
  assumes "wl_inv n w"
  obtains es w' where "wl_drain_loop (\<lambda>_. True) [0..<length (wl_slots w)] [] w = Some (es, w')"
    "wl_inv n w'" "wl_frame w w'" "mset (map we_reply es) = mset (map (\<lambda>(t, k, r). r) (wl_queue w))"
    "wl_queue w' = []"
proof -
  let ?hits = "all_hits (\<lambda>_. True) w"
  let ?w = "(wl_vacate ?hits w)\<lparr>wl_reclaimed := wl_reclaimed w\<rparr>"
  let ?es = "map snd (slab_rows (wl_slots w))"
  have same: "?w = wl_vacate ?hits w" by (simp add: wl_vacate_def)
  have "wl_drain_loop (\<lambda>_. True) [0..<length (wl_slots w)] [] w = Some (?es, ?w)"
    using wl_drain_loop_eq [of "[0..<length (wl_slots w)]" w "\<lambda>_. True" "[]"] wl_invD(5) [OF assms]
      the_all_hits [of w "\<lambda>_. True"]
    by (simp add: same lessThan_atLeast0 flip: all_hits_def)
  then show ?thesis
    using wl_queue_all_hits [where P = "\<lambda>_. True" and Q = "\<lambda>_ _. True" and w = w]
      wl_vacate_inv [OF assms all_hits_occupied]
    by (intro that [of ?es ?w])
      (simp_all add: wl_frame_def wl_queue_def wl_rows_def row_waiter_def comp_def case_prod_beta)
qed

lemma older_fold:
  assumes "fold (\<lambda>i. older (i, f i)) hits oldest = best"
  shows "(best = None \<longleftrightarrow> hits = [] \<and> oldest = None)
    \<and> (\<forall>i s. best = Some (i, s) \<longrightarrow> ((i \<in> set hits \<and> s = f i) \<or> oldest = Some (i, s))
        \<and> (\<forall>j \<in> set hits. s \<le> f j) \<and> (\<forall>j s'. oldest = Some (j, s') \<longrightarrow> s \<le> s'))"
  using assms
proof (induction hits arbitrary: oldest)
  case Nil
  then show ?case by auto
next
  case (Cons i hits)
  have "older (i, f i) oldest \<noteq> None" by (auto simp: older_def split: option.splits)
  with Cons.IH [of "older (i, f i) oldest"] Cons.prems show ?case
    by (auto simp: older_def split: option.splits if_splits)
qed

lemma wl_scan_spec:
  assumes "wl_inv n w"
  obtains w' where "wl_scan st key [0..<length (wl_slots w)] None w
      = Some (pick_oldest w (all_hits (live_for st key) w) None, w')"
    "wl_inv n w'" "wl_frame w w'" "wl_queue w' = filter (\<lambda>(t, k, r). k = key \<longrightarrow> st r = SlotOpen) (wl_queue w)"
    "\<forall>i e. wl_slots w ! i = Some e \<longrightarrow> i < length (wl_slots w) \<longrightarrow> live_for st key e \<longrightarrow> wl_slots w' ! i = Some e"
    "length (wl_slots w') = length (wl_slots w)"
proof -
  let ?hits = "all_hits (dead_for st key) w"
  obtain r where r: "wl_scan st key [0..<length (wl_slots w)] None w
      = Some (pick_oldest w (all_hits (live_for st key) w) None, (wl_vacate ?hits w)\<lparr>wl_reclaimed := r\<rparr>)"
    using wl_scan_eq [of "[0..<length (wl_slots w)]" w st key None] wl_invD(5) [OF assms]
    unfolding all_hits_def by (auto simp: lessThan_atLeast0)
  have "wl_slots (wl_vacate ?hits w) ! i = Some e"
    if "wl_slots w ! i = Some e" "i < length (wl_slots w)" "live_for st key e" for i e
    using that by (simp add: wl_vacate_def nth_vacate all_hits_def entry_hits_def dead_for_def live_for_def)
  with r show ?thesis
    using wl_queue_all_hits [where P = "dead_for st key" and Q = "\<lambda>k r. k = key \<and> st r \<noteq> SlotOpen" and w = w]
      wl_vacate_inv [OF assms all_hits_occupied]
    by (intro that [of "(wl_vacate ?hits w)\<lparr>wl_reclaimed := r\<rparr>"]) (simp_all add: wl_frame_def dead_for_def)
qed

lemma wl_oldest_live:
  assumes "wl_inv n w"
  shows "case pick_oldest w (all_hits (live_for st key) w) None of
      None \<Rightarrow> filter (\<lambda>(t, k, r). k = key \<and> st r = SlotOpen) (wl_queue w) = []
    | Some (i, s) \<Rightarrow> \<exists>e. i < length (wl_slots w) \<and> wl_slots w ! i = Some e \<and> live_for st key e
        \<and> (\<exists>xs. filter (\<lambda>(t, k, r). k = key \<and> st r = SlotOpen) (wl_queue w)
             = row_waiter (wl_generations w) (i, e) # xs)"
proof -
  let ?hits = "all_hits (live_for st key) w" and ?f = "\<lambda>row. we_seq (snd row)"
  let ?rows = "filter (\<lambda>row. live_for st key (snd row)) (slab_rows (wl_slots w))"
  have live: "filter (\<lambda>(t, k, r). k = key \<and> st r = SlotOpen) (wl_queue w)
      = map (row_waiter (wl_generations w)) (sort_key ?f ?rows)"
    by (simp add: wl_queue_def wl_rows_def filter_map comp_def row_waiter_def live_for_def flip: filter_sort)
  note best = older_fold [where f = "seq_at w" and hits = ?hits and oldest = None, OF refl, folded pick_oldest_def]
  show ?thesis
  proof (cases "pick_oldest w ?hits None")
    case None
    with best have "?hits = []" by simp
    then have "?rows = []" by (simp add: all_hits_rows)
    then show ?thesis using None live by simp
  next
    case (Some b)
    obtain i s where b: "b = (i, s)" by (cases b)
    with Some best have i: "i \<in> set ?hits" "s = seq_at w i" "\<And>j. j \<in> set ?hits \<Longrightarrow> s \<le> seq_at w j" by auto
    then obtain e where e: "(i, e) \<in> set ?rows" by (auto simp: all_hits_rows)
    then have ie: "i < length (wl_slots w)" "wl_slots w ! i = Some e" "live_for st key e"
      by (auto simp: set_slab_rows)
    have less: "?f (i, e) < ?f row" if "row \<in> set ?rows" "row \<noteq> (i, e)" for row
    proof -
      have "fst row \<in> set ?hits" using that(1) by (force simp: all_hits_rows)
      then have "s \<le> seq_at w (fst row)" by (rule i(3))
      moreover have "seq_at w (fst row) = ?f row" using that(1) by (auto simp: seq_at_def set_slab_rows)
      moreover have "s = ?f (i, e)" using i(2) ie by (simp add: seq_at_def)
      moreover have "?f (i, e) \<noteq> ?f row"
        using that e wl_invD(8) [OF assms] by (auto simp: distinct_map inj_on_def)
      ultimately show ?thesis by simp
    qed
    have "sort_key ?f ?rows \<noteq> []" using e by (metis empty_iff list.set(1) set_sort)
    then obtain xs where "sort_key ?f ?rows = (i, e) # xs"
      using hd_sort_key [of "(i, e)" ?rows ?f, OF e less] by (metis list.exhaust_sel)
    then show ?thesis using Some b live ie by auto
  qed
qed

lemma wl_take_next_spec:
  assumes "wl_inv n w"
  obtains (Nobody) w' where "wl_take_next st key w = Some (None, w')"
      "filter (\<lambda>(t, k, r). k = key \<and> st r = SlotOpen) (wl_queue w) = []"
      "wl_queue w' = filter (\<lambda>(t, k, r). k \<noteq> key) (wl_queue w)" "wl_inv n w'" "wl_frame w w'"
  | (Waiter) t r xs w' where "wl_take_next st key w = Some (Some r, w')"
      "filter (\<lambda>(t, k, r). k = key \<and> st r = SlotOpen) (wl_queue w) = (t, key, r) # xs"
      "wl_queue w' = filter (\<lambda>(t', k, r). (k = key \<longrightarrow> st r = SlotOpen) \<and> t' \<noteq> t) (wl_queue w)"
      "wl_inv n w'" "wl_frame w w'"
proof -
  obtain w1 where scan: "wl_scan st key [0..<length (wl_slots w)] None w
      = Some (pick_oldest w (all_hits (live_for st key) w) None, w1)"
    and w1: "wl_inv n w1" "wl_frame w w1"
      "wl_queue w1 = filter (\<lambda>(t, k, r). k = key \<longrightarrow> st r = SlotOpen) (wl_queue w)"
      "\<forall>i e. wl_slots w ! i = Some e \<longrightarrow> i < length (wl_slots w) \<longrightarrow> live_for st key e \<longrightarrow> wl_slots w1 ! i = Some e"
      "length (wl_slots w1) = length (wl_slots w)"
    by (rule wl_scan_spec [OF assms, where st = st and key = key])
  show ?thesis
  proof (cases "pick_oldest w (all_hits (live_for st key) w) None")
    case None
    have none: "filter (\<lambda>(t, k, r). k = key \<and> st r = SlotOpen) (wl_queue w) = []"
      using wl_oldest_live [OF assms, where st = st and key = key] None by simp
    moreover have "wl_queue w1 = filter (\<lambda>(t, k, r). k \<noteq> key) (wl_queue w)"
      unfolding w1(3) using none by (intro filter_cong refl) (auto simp: filter_empty_conv)
    moreover have "wl_take_next st key w = Some (None, w1)"
      by (subst wl_take_next.simps) (simp add: scan None)
    ultimately show ?thesis using Nobody w1(1,2) by blast
  next
    case (Some b)
    obtain i s where b: "b = (i, s)" by (cases b)
    obtain e xs where e: "i < length (wl_slots w)" "wl_slots w ! i = Some e" "live_for st key e"
      and xs: "filter (\<lambda>(t, k, r). k = key \<and> st r = SlotOpen) (wl_queue w) = row_waiter (wl_generations w) (i, e) # xs"
      using wl_oldest_live [OF assms, where st = st and key = key] Some b by auto
    define t where "t = \<lparr>ticket_slot = i, ticket_generation = wl_generations w ! i\<rparr>"
    have row: "row_waiter (wl_generations w) (i, e) = (t, key, we_reply e)" and open_e: "st (we_reply e) = SlotOpen"
      using e(3) by (simp_all add: row_waiter_def t_def live_for_def)
    let ?w = "(wl_vacate [i] w1)\<lparr>wl_reclaimed := wl_reclaimed w1\<rparr>"
    have same: "?w = wl_vacate [i] w1" by (simp add: wl_vacate_def)
    have slot: "wl_slots w1 ! i = Some e" "i < length (wl_slots w1)" using w1(4,5) e by auto
    have take: "wl_take_next st key w = Some (Some (we_reply e), ?w)"
      by (subst wl_take_next.simps)
        (simp add: scan Some b wl_remove_occupied [OF slot(2,1) wl_invD(5) [OF w1(1)]] open_e same)
    have "(t, key, we_reply e) \<in> set (filter (\<lambda>(t, k, r). k = key \<and> st r = SlotOpen) (wl_queue w))"
      unfolding xs row by simp
    then have mem: "(t, key, we_reply e) \<in> set (wl_queue w1)" unfolding w1(3) by auto
    have "wl_queue ?w = filter (\<lambda>x. fst x \<noteq> t) (wl_queue w1)"
      using wl_filter_ticket [OF mem] unfolding wl_queue_vacate by (simp add: t_def)
    also have "\<dots> = filter (\<lambda>(t', k, r). (k = key \<longrightarrow> st r = SlotOpen) \<and> t' \<noteq> t) (wl_queue w)"
      unfolding w1(3) filter_filter by (intro filter_cong refl) auto
    finally have "wl_queue ?w = filter (\<lambda>(t', k, r). (k = key \<longrightarrow> st r = SlotOpen) \<and> t' \<noteq> t) (wl_queue w)" .
    moreover have "wl_inv n ?w"
      by (rule wl_vacate_inv [OF w1(1)]) (use slot in \<open>auto simp: occupied_iff\<close>)
    ultimately show ?thesis
      using Waiter [OF take xs [unfolded row]] w1(2) by (simp add: wl_frame_def)
  qed
qed

definition open_waiters ::
    "('r \<Rightarrow> deferred_slot_state) \<Rightarrow> 'k \<Rightarrow> ('k, 'r) wait_list \<Rightarrow> (wait_ticket \<times> 'k \<times> 'r) list" where
  "open_waiters st key w = filter (\<lambda>(t, k, r). k = key \<and> st r = SlotOpen) (wl_queue w)"

definition swept :: "('r \<Rightarrow> deferred_slot_state) \<Rightarrow> ('k, 'r) wait_list \<Rightarrow> (wait_ticket \<times> 'k \<times> 'r) list" where
  "swept st w = (if length (wl_queue w) = wl_capacity w \<or> wl_per_key_limit w \<noteq> None
     then filter (\<lambda>(t, k, r). st r \<noteq> SlotClosed) (wl_queue w) else wl_queue w)"

definition key_full :: "('r \<Rightarrow> deferred_slot_state) \<Rightarrow> 'k \<Rightarrow> ('k, 'r) wait_list \<Rightarrow> bool" where
  "key_full st key w \<longleftrightarrow> (case wl_per_key_limit w of None \<Rightarrow> False
     | Some limit \<Rightarrow> limit \<le> length (filter (\<lambda>(t, k, r). k = key \<and> st r = SlotOpen) (wl_queue w)))"

lemma wl_inv_counters [simp]:
  "wl_inv n (w\<lparr>wl_key_full_rejects := x\<rparr>) = wl_inv n w" "wl_inv n (w\<lparr>wl_full_rejects := x\<rparr>) = wl_inv n w"
  "wl_queue (w\<lparr>wl_key_full_rejects := x\<rparr>) = wl_queue w" "wl_queue (w\<lparr>wl_full_rejects := x\<rparr>) = wl_queue w"
  by (simp_all add: wl_inv_def wl_queue_def wl_rows_def)

lemma live_swept:
  "filter (\<lambda>(t, k, r). k = key \<and> st r = SlotOpen) (filter (\<lambda>(t, k, r). st r \<noteq> SlotClosed) q)
    = filter (\<lambda>(t, k, r). k = key \<and> st r = SlotOpen) q"
  by (induction q) auto

lemma wl_park_spec:
  assumes "wl_inv n w" and "n < 2 ^ 64 - 1"
  obtains (KeyFull) w' where "wl_park st key call w = Some (Inl (WaitKeyFull key call), w')"
      "key_full st key w" "wl_queue w' = swept st w" "wl_inv n w'" "wl_frame w w'"
  | (Full) w' where "wl_park st key call w = Some (Inl (WaitFull key call), w')"
      "\<not> key_full st key w" "length (swept st w) = wl_capacity w" "wl_queue w' = swept st w"
      "wl_inv n w'" "wl_frame w w'"
  | (Parked) t w' where "wl_park st key call w = Some (Inr t, w')"
      "\<not> key_full st key w" "length (swept st w) < wl_capacity w"
      "wl_queue w' = swept st w @ [(t, key, call)]" "wl_inv (Suc n) w'"
      "wl_capacity w' = wl_capacity w" "wl_per_key_limit w' = wl_per_key_limit w"
      "ticket_slot t < wl_capacity w" "unat (ticket_generation t) = unat (wl_generations w ! ticket_slot t) + 1"
      "wl_generations w' = (wl_generations w)[ticket_slot t := ticket_generation t]"
proof -
  obtain w1 where sw: "wl_sweep_if_needed st w = Some w1" and w1: "wl_inv n w1" "wl_frame w w1"
    and q: "wl_queue w1 = swept st w"
    using assms(1) unfolding swept_def by (rule wl_sweep_if_needed_spec)
  have lim: "wl_per_key_limit w1 = wl_per_key_limit w" "wl_capacity w1 = wl_capacity w"
    "wl_generations w1 = wl_generations w" using w1(2) by (simp_all add: wl_frame_def)
  have kf: "(case wl_per_key_limit w1 of None \<Rightarrow> False | Some limit \<Rightarrow> wl_count_for_key st key w1 \<ge> limit)
      \<longleftrightarrow> key_full st key w"
    by (auto simp: lim key_full_def wl_count_for_key_eq q swept_def live_swept split: option.splits
        simp del: filter_filter)
  show ?thesis
  proof (cases "key_full st key w")
    case True
    then show ?thesis
      using KeyFull [of "w1\<lparr>wl_key_full_rejects := wl_key_full_rejects w1 + 1\<rparr>"] sw w1 q kf
      by (simp add: wl_park_def wl_frame_def)
  next
    case nkf: False
    show ?thesis
    proof (cases "wl_free_slots w1 = []")
      case True
      then show ?thesis
        using Full [of "w1\<lparr>wl_full_rejects := wl_full_rejects w1 + 1\<rparr>"] sw w1 q kf nkf
          wl_free_empty_iff [OF w1(1)]
        by (simp add: wl_park_def wl_frame_def)
    next
      case False
      moreover have "length (swept st w) < wl_capacity w"
        using False wl_free_empty_iff [OF w1(1)] wl_queue_le [OF w1(1)] q lim by simp
      ultimately show ?thesis
        using wl_store_spec [OF w1(1) assms(2) False, of key call thesis] Parked sw kf nkf q lim
        by (simp add: wl_park_def)
    qed
  qed
qed

lemma wl_park_call_caller:
  "wl_park_call st key (Inr r) w = map_option (\<lambda>(res, w'). (case res of
       Inl (WaitFull k c) \<Rightarrow> Inl (WaitCallFull k (Inr c))
     | Inl (WaitKeyFull k c) \<Rightarrow> Inl (WaitCallKeyFull k (Inr c))
     | Inr t \<Rightarrow> Inr t, w')) (wl_park st key r w)"
  by (cases "wl_sweep_if_needed st w")
    (auto simp: wl_park_call_def wl_park_def Let_def split: option.splits if_splits prod.splits Option.bind_splits)

lemma wl_park_call_no_caller:
  assumes "wl_inv n w"
  obtains e w' where "wl_park_call st key (Inl err) w = Some (Inl e, w')" "wl_inv n w'" "wl_frame w w'"
    "wl_queue w' = swept st w"
proof -
  obtain w1 where sw: "wl_sweep_if_needed st w = Some w1" and w1: "wl_inv n w1" "wl_frame w w1"
    and q: "wl_queue w1 = swept st w"
    using assms(1) unfolding swept_def by (rule wl_sweep_if_needed_spec)
  let ?kf = "case wl_per_key_limit w1 of None \<Rightarrow> False | Some limit \<Rightarrow> wl_count_for_key st key w1 \<ge> limit"
  have "\<exists>e w'. wl_park_call st key (Inl err) w = Some (Inl e, w') \<and> wl_inv n w' \<and> wl_frame w w'
      \<and> wl_queue w' = swept st w"
    using w1 q by (cases ?kf; cases "wl_free_slots w1 = []"; cases err) (simp_all add: wl_park_call_def sw wl_frame_def)
  then show ?thesis using that by blast
qed

section \<open>Runs of a service\<close>

text \<open>
  A service calls the operations in any order; each call sees the slot states of its moment.
  The run keeps the tickets handed out, and stops with \<open>None\<close> if an operation panics.
\<close>

datatype ('k, 'r, 'v) wl_op =
    WlSweep "'r \<Rightarrow> deferred_slot_state"
  | WlPark "'r \<Rightarrow> deferred_slot_state" 'k 'r
  | WlParkCall "'r \<Rightarrow> deferred_slot_state" 'k "take_reply_slot_error + 'r"
  | WlReplyOne wait_ticket 'v
  | WlTakeNext "'r \<Rightarrow> deferred_slot_state" 'k
  | WlReplyAll 'k 'v
  | WlDrainAll 'v

type_synonym ('k, 'r) wl_service = "('k, 'r) wait_list \<times> wait_ticket list"

fun with_ticket :: "wait_ticket list \<Rightarrow> ('e + wait_ticket) \<times> ('k, 'r) wait_list \<Rightarrow> ('k, 'r) wl_service" where
  "with_ticket issued (Inr t, w) = (w, issued @ [t])"
| "with_ticket issued (Inl _, w) = (w, issued)"

fun wl_step :: "('k, 'r, 'v) wl_op \<Rightarrow> ('k, 'r) wl_service \<Rightarrow> ('k, 'r) wl_service option" where
  "wl_step (WlSweep st) (w, issued) = map_option (\<lambda>(_, w'). (w', issued)) (wl_sweep st w)"
| "wl_step (WlPark st key call) (w, issued) = map_option (with_ticket issued) (wl_park st key call w)"
| "wl_step (WlParkCall st key call) (w, issued) = map_option (with_ticket issued) (wl_park_call st key call w)"
| "wl_step (WlReplyOne t v) (w, issued) = map_option (\<lambda>(_, w'). (w', issued)) (wl_reply_one t v w)"
| "wl_step (WlTakeNext st key) (w, issued) = map_option (\<lambda>(_, w'). (w', issued)) (wl_take_next st key w)"
| "wl_step (WlReplyAll key v) (w, issued) = map_option (\<lambda>(_, w'). (w', issued)) (wl_reply_all_clone key v w)"
| "wl_step (WlDrainAll v) (w, issued) =
     map_option (\<lambda>(_, _, w'). (w', issued)) (wl_drain_all_with (\<lambda>u. (v, u)) () w)"

fun wl_run :: "('k, 'r, 'v) wl_op list \<Rightarrow> ('k, 'r) wl_service \<Rightarrow> ('k, 'r) wl_service option" where
  "wl_run [] s = Some s"
| "wl_run (op # ops) s = (case wl_step op s of None \<Rightarrow> None | Some s' \<Rightarrow> wl_run ops s')"

definition wl_service_inv :: "nat \<Rightarrow> nat \<Rightarrow> nat option \<Rightarrow> ('k, 'r) wl_service \<Rightarrow> bool" where
  "wl_service_inv n cap limit s \<longleftrightarrow> (case s of (w, issued) \<Rightarrow>
     wl_inv n w \<and> wl_capacity w = cap \<and> wl_per_key_limit w = limit \<and> distinct issued
     \<and> (\<forall>t \<in> set issued. ticket_slot t < cap
          \<and> ticket_generation t \<le> wl_generations w ! ticket_slot t)
     \<and> fst ` set (wl_queue w) \<subseteq> set issued)"

lemma wl_inv_mono: "wl_inv n w \<Longrightarrow> n \<le> m \<Longrightarrow> wl_inv m w"
  unfolding wl_inv_def by force

lemma wl_service_frame:
  assumes "wl_service_inv n cap limit (w, issued)" and "wl_inv n w'" and "wl_frame w w'"
    and "set (wl_queue w') \<subseteq> set (wl_queue w)"
  shows "wl_service_inv (Suc n) cap limit (w', issued)"
  using assms wl_inv_mono [OF assms(2), of "Suc n"]
  by (auto simp: wl_service_inv_def wl_frame_def subset_eq)

lemma wl_service_parked:
  assumes "wl_service_inv n cap limit (w, issued)" and "wl_inv (Suc n) w'"
    and "wl_capacity w' = wl_capacity w" "wl_per_key_limit w' = wl_per_key_limit w"
    and t: "ticket_slot t < wl_capacity w" "unat (ticket_generation t) = unat (wl_generations w ! ticket_slot t) + 1"
      "wl_generations w' = (wl_generations w)[ticket_slot t := ticket_generation t]"
    and q: "wl_queue w' = q @ [(t, key, call)]" "set q \<subseteq> set (wl_queue w)"
  shows "wl_service_inv (Suc n) cap limit (w', issued @ [t])"
proof -
  have inv: "wl_inv n w" "wl_capacity w = cap" "distinct issued" "fst ` set (wl_queue w) \<subseteq> set issued"
    and old: "\<And>t'. t' \<in> set issued \<Longrightarrow> ticket_slot t' < cap \<and> ticket_generation t' \<le> wl_generations w ! ticket_slot t'"
    using assms(1) by (auto simp: wl_service_inv_def)
  have newer: "wl_generations w ! ticket_slot t < ticket_generation t"
    using t(2) by (simp add: word_less_nat_alt)
  then have fresh: "t \<notin> set issued" using old by fastforce
  have len: "ticket_slot t < length (wl_generations w)" using t(1) wl_invD(2) [OF inv(1)] by simp
  have "ticket_generation t' \<le> wl_generations w' ! ticket_slot t'" if "t' \<in> set (issued @ [t])" for t'
  proof (cases "t' = t")
    case True
    then show ?thesis using len by (simp add: t(3))
  next
    case False
    then have "ticket_generation t' \<le> wl_generations w ! ticket_slot t'" using that old by auto
    then show ?thesis
      using newer len by (cases "ticket_slot t' = ticket_slot t") (simp_all add: t(3))
  qed
  then show ?thesis
    using assms(1-4) inv fresh t(1) q old by (auto simp: wl_service_inv_def)
qed

lemma swept_subset: "set (swept st w) \<subseteq> set (wl_queue w)"
  by (auto simp: swept_def)

lemma wl_step_park:
  assumes "wl_service_inv n cap limit (w, issued)" and "n < 2 ^ 64 - 1"
  obtains r w' where "wl_park st key call w = Some (r, w')"
    "wl_service_inv (Suc n) cap limit (with_ticket issued (r, w'))"
proof -
  have inv: "wl_inv n w" using assms(1) by (simp add: wl_service_inv_def)
  then show ?thesis using assms(2)
  proof (cases rule: wl_park_spec [where st = st and key = key and call = call])
    case (KeyFull w')
    then show ?thesis
      using that wl_service_frame [OF assms(1) KeyFull(4,5)] swept_subset [of st w] by simp
  next
    case (Full w')
    then show ?thesis
      using that wl_service_frame [OF assms(1) Full(5,6)] swept_subset [of st w] by simp
  next
    case (Parked t w')
    then show ?thesis
      using that wl_service_parked [OF assms(1) Parked(5-10,4) swept_subset] by simp
  qed
qed

lemma wl_step_total:
  assumes "wl_service_inv n cap limit s" and "n < 2 ^ 64 - 1"
  shows "\<exists>s'. wl_step op s = Some s' \<and> wl_service_inv (Suc n) cap limit s'"
proof -
  obtain w issued where s: "s = (w, issued)" by (cases s)
  note inv' = assms(1) [unfolded s]
  have inv: "wl_inv n w" using inv' by (simp add: wl_service_inv_def)
  show ?thesis
  proof (cases op)
    case (WlSweep st)
    from inv show ?thesis
      by (rule wl_sweep_spec [where st = st]) (use s WlSweep wl_service_frame [OF inv'] in auto)
  next
    case (WlPark st key call)
    from wl_step_park [OF inv' assms(2)] show ?thesis using s WlPark by (metis option.simps(9) wl_step.simps(2))
  next
    case (WlParkCall st key call)
    show ?thesis
    proof (cases call)
      case (Inr r)
      obtain res w' where r: "wl_park st key r w = Some (res, w')"
        "wl_service_inv (Suc n) cap limit (with_ticket issued (res, w'))"
        using wl_step_park [OF inv' assms(2)] by metis
      then show ?thesis
        using s WlParkCall Inr
        by (cases res) (auto simp: wl_park_call_caller split: wait_error.splits)
    next
      case (Inl err)
      from inv show ?thesis
        by (rule wl_park_call_no_caller [where st = st and key = key and err = err])
          (use s WlParkCall Inl wl_service_frame [OF inv'] swept_subset [of st w] in auto)
    qed
  next
    case (WlReplyOne t v)
    from inv show ?thesis
      by (rule wl_reply_one_spec [where t = t and v = v])
        (use s WlReplyOne wl_service_frame [OF inv'] inv in \<open>auto simp: wl_frame_def\<close>)
  next
    case (WlTakeNext st key)
    from inv show ?thesis
      by (rule wl_take_next_spec [where st = st and key = key])
        (use s WlTakeNext wl_service_frame [OF inv'] in auto)
  next
    case (WlReplyAll key v)
    from inv show ?thesis
      by (rule wl_drain_for_key_spec [where key = key])
        (use s WlReplyAll wl_service_frame [OF inv'] in \<open>auto simp: wl_reply_all_clone_def\<close>)
  next
    case (WlDrainAll v)
    from inv show ?thesis
      by (rule wl_drain_all_spec)
        (use s WlDrainAll wl_service_frame [OF inv'] in \<open>auto simp: wl_drain_all_with_def split: prod.splits\<close>)
  qed
qed

lemma wl_run_total:
  "wl_service_inv n cap limit s \<Longrightarrow> n + length ops \<le> 2 ^ 64 - 1
    \<Longrightarrow> \<exists>s'. wl_run ops s = Some s' \<and> wl_service_inv (n + length ops) cap limit s'"
proof (induction ops arbitrary: n s)
  case (Cons op ops)
  then obtain s1 where s1: "wl_step op s = Some s1" "wl_service_inv (Suc n) cap limit s1"
    using wl_step_total [of n cap limit s op] by auto
  then show ?case using Cons.IH [OF s1(2)] Cons.prems(2) by simp
qed simp

lemma wl_build_service:
  assumes "wl_build name cap limit = Some w"
  shows "wl_service_inv 0 cap limit (w, [])"
proof -
  have w: "wl_slots w = replicate cap None" "wl_generations w = replicate cap 0"
    "wl_free_slots w = rev [0..<cap]" "wl_current w = 0" "wl_next_seq w = 0" "wl_high_water w = 0"
    "wl_capacity w = cap" "wl_per_key_limit w = limit"
    using assms by (auto simp: wl_build_def split: if_splits)
  have "wl_queue w = []" by (simp add: wl_queue_def wl_rows_def w slab_simps)
  then show ?thesis
    by (simp add: wl_service_inv_def wl_inv_def w slab_simps lessThan_atLeast0)
qed

section \<open>Properties\<close>

text \<open>
  (C10) A wait list never panics and never mixes up its waiters. Whatever sequence of fewer than
  \<open>2^64 - 1\<close> calls a service makes on a fresh wait list, with the callers' slots closing or being
  replied to at any moment in between, every call returns: no \<open>expect\<close> fires and the loop of
  \<open>take_next\<close> ends. The counter is the number of waiters, at most the capacity, every waiter holds
  a ticket that was handed out, and no ticket is ever handed out twice, so a ticket whose waiter
  was settled can never settle another one.
\<close>

theorem wait_list_total_and_unaliased:
  assumes "wl_build name cap limit = Some w0" and "length ops < 2 ^ 64 - 1"
  shows "\<exists>w issued. wl_run ops (w0, []) = Some (w, issued)
    \<and> wl_current w = length (wl_queue w) \<and> length (wl_queue w) \<le> cap \<and> length (wl_queue w) \<le> wl_high_water w
    \<and> distinct (map fst (wl_queue w)) \<and> set (map fst (wl_queue w)) \<subseteq> set issued \<and> distinct issued"
proof -
  obtain w issued where run: "wl_run ops (w0, []) = Some (w, issued)"
    and inv: "wl_service_inv (length ops) cap limit (w, issued)"
    using wl_run_total [OF wl_build_service [OF assms(1)], of ops] assms(2) by fastforce
  have wl: "wl_inv (length ops) w" and iss: "distinct issued" "fst ` set (wl_queue w) \<subseteq> set issued"
    "wl_capacity w = cap"
    using inv by (simp_all add: wl_service_inv_def)
  have "inj_on (\<lambda>row. fst (row_waiter (wl_generations w) row)) (set (wl_rows w))"
    by (auto simp: inj_on_def row_waiter_def wl_rows_def set_slab_rows)
  moreover have "distinct (wl_rows w)" by (simp add: wl_rows_def distinct_slab_rows)
  ultimately have "distinct (map fst (wl_queue w))"
    by (simp add: wl_queue_def distinct_map comp_def)
  then show ?thesis
    using run iss wl_invD(5,6) [OF wl] wl_queue_le [OF wl] by (simp add: length_wl_queue)
qed

theorem wait_list_total_and_unaliased_witness:
  "\<exists>w0 w issued. wl_build ''w'' 1 None = Some w0
    \<and> wl_run [WlPark (\<lambda>_. SlotOpen) ''k'' (1 :: nat), WlTakeNext (\<lambda>_. SlotOpen) ''k'',
         WlPark (\<lambda>_. SlotOpen) ''k'' 2 :: (string, nat, nat) wl_op] (w0, []) = Some (w, issued)
    \<and> distinct issued \<and> wl_current w = length (wl_queue w)"
proof -
  let ?w0 = "the (wl_build ''w'' 1 None) :: (string, nat) wait_list"
  have w0: "wl_build ''w'' 1 None = Some ?w0" by (simp add: wl_build_def)
  let ?ops = "[WlPark (\<lambda>_. SlotOpen) ''k'' (1 :: nat), WlTakeNext (\<lambda>_. SlotOpen) ''k'',
     WlPark (\<lambda>_. SlotOpen) ''k'' 2 :: (string, nat, nat) wl_op]"
  have "length ?ops < 2 ^ 64 - 1" by simp
  from wait_list_total_and_unaliased [OF w0 this] w0 show ?thesis by blast
qed

text \<open>
  (C9) A wait list is a queue per key. In every state a service can reach, the list behaves as
  the queue of its waiters in order of arrival: \<open>sweep\<close> removes exactly the closed callers;
  \<open>park\<close> first sweeps when the list is full or has a per-key limit, refuses with \<open>KeyFull\<close> exactly
  when the key has its limit of open waiters and with \<open>Full\<close> exactly when every slot is taken,
  giving key and caller back, and otherwise appends the caller at the end; \<open>reply_one\<close> settles
  exactly the waiter the ticket names and refuses every other ticket without effect; \<open>take_next\<close>
  hands out the oldest open waiter of the key and drops its dead ones; \<open>reply_all_clone\<close> replies
  to every waiter of the key in order of arrival.
\<close>

theorem wait_list_refines_queue:
  assumes "wl_build name cap limit = Some w0" and "length ops < 2 ^ 64 - 1"
    and "wl_run ops (w0, []) = Some (w, issued)"
  shows "(case wl_sweep st w of None \<Rightarrow> False
      | Some (n, w') \<Rightarrow> wl_queue w' = filter (\<lambda>(t, k, r). st r \<noteq> SlotClosed) (wl_queue w)
          \<and> n = length (filter (\<lambda>(t, k, r). st r = SlotClosed) (wl_queue w)))
    \<and> (case wl_park st key call w of None \<Rightarrow> False
      | Some (Inl (WaitKeyFull k c), w') \<Rightarrow> (k, c) = (key, call) \<and> wl_queue w' = swept st w
          \<and> (\<exists>l. limit = Some l \<and> l \<le> length (open_waiters st key w))
      | Some (Inl (WaitFull k c), w') \<Rightarrow> (k, c) = (key, call) \<and> wl_queue w' = swept st w
          \<and> length (swept st w) = cap \<and> (\<forall>l. limit = Some l \<longrightarrow> length (open_waiters st key w) < l)
      | Some (Inr t, w') \<Rightarrow> wl_queue w' = swept st w @ [(t, key, call)] \<and> t \<notin> set issued
          \<and> length (swept st w) < cap \<and> (\<forall>l. limit = Some l \<longrightarrow> length (open_waiters st key w) < l))
    \<and> (case wl_reply_one ticket v w of None \<Rightarrow> False
      | Some (Inl e, w') \<Rightarrow> e \<in> {ReplyStaleTicket v, ReplyMissing v} \<and> ticket \<notin> fst ` set (wl_queue w) \<and> w' = w
      | Some (Inr (r, v'), w') \<Rightarrow> v' = v \<and> (\<exists>k. (ticket, k, r) \<in> set (wl_queue w))
          \<and> wl_queue w' = filter (\<lambda>x. fst x \<noteq> ticket) (wl_queue w))
    \<and> (case wl_take_next st key w of None \<Rightarrow> False
      | Some (None, w') \<Rightarrow> open_waiters st key w = [] \<and> wl_queue w' = filter (\<lambda>(t, k, r). k \<noteq> key) (wl_queue w)
      | Some (Some r, w') \<Rightarrow> (\<exists>t rest. open_waiters st key w = (t, key, r) # rest
          \<and> wl_queue w' = filter (\<lambda>(t', k, r). (k = key \<longrightarrow> st r = SlotOpen) \<and> t' \<noteq> t) (wl_queue w)))
    \<and> (case wl_reply_all_clone key v w of None \<Rightarrow> False
      | Some (out, w') \<Rightarrow> out = map (\<lambda>(t, k, r). (r, v)) (filter (\<lambda>(t, k, r). k = key) (wl_queue w))
          \<and> wl_queue w' = filter (\<lambda>(t, k, r). k \<noteq> key) (wl_queue w))"
    (is "?sweep \<and> ?park \<and> ?one \<and> ?next \<and> ?all")
proof -
  have serv: "wl_service_inv (length ops) cap limit (w, issued)"
    using wl_run_total [OF wl_build_service [OF assms(1)], of ops] assms(2,3) by auto
  then have inv: "wl_inv (length ops) w" "wl_capacity w = cap" "wl_per_key_limit w = limit"
    by (auto simp: wl_service_inv_def)
  have ?sweep
    by (rule wl_sweep_spec [OF inv(1), where st = st]) simp
  moreover have ?park
    using inv(1) assms(2)
  proof (cases rule: wl_park_spec [where st = st and key = key and call = call])
    case (Parked t w')
    obtain r w1 where "wl_park st key call w = Some (r, w1)"
      "wl_service_inv (Suc (length ops)) cap limit (with_ticket issued (r, w1))"
      by (rule wl_step_park [OF serv assms(2), where st = st and key = key and call = call])
    with Parked(1) have "t \<notin> set issued" by (simp add: wl_service_inv_def)
    with Parked inv show ?thesis by (simp add: key_full_def open_waiters_def split: option.splits)
  qed (use inv in \<open>auto simp: key_full_def open_waiters_def split: option.splits\<close>)
  moreover have ?one
    by (rule wl_reply_one_spec [OF inv(1), where t = ticket and v = v]) auto
  moreover have ?next
    by (rule wl_take_next_spec [OF inv(1), where st = st and key = key]) (simp_all add: open_waiters_def)
  moreover have ?all
  proof (rule wl_drain_for_key_spec [OF inv(1), where key = key])
    fix es w' assume d: "wl_drain_for_key key w = Some (es, w')"
      "wl_queue w' = filter (\<lambda>(t, k, r). k \<noteq> key) (wl_queue w)"
      "map we_reply es = map (\<lambda>(t, k, r). r) (filter (\<lambda>(t, k, r). k = key) (wl_queue w))"
    have "map (\<lambda>e. (we_reply e, v)) es = map (\<lambda>r. (r, v)) (map we_reply es)" by simp
    then show ?thesis
      using d(1,2) unfolding d(3) by (simp add: wl_reply_all_clone_def comp_def case_prod_beta)
  qed
  ultimately show ?thesis by (intro conjI)
qed

theorem wait_list_refines_queue_witness:
  "\<exists>w0 w issued n w'. wl_build ''w'' 2 (Some 1) = Some w0
    \<and> wl_run [WlPark (\<lambda>_. SlotOpen) ''k'' (1 :: nat) :: (string, nat, nat) wl_op] (w0, []) = Some (w, issued)
    \<and> wl_sweep (\<lambda>_. SlotOpen) w = Some (n, w') \<and> wl_queue w' = filter (\<lambda>_. True) (wl_queue w)"
proof -
  let ?w0 = "the (wl_build ''w'' 2 (Some 1)) :: (string, nat) wait_list"
  let ?ops = "[WlPark (\<lambda>_. SlotOpen) ''k'' (1 :: nat) :: (string, nat, nat) wl_op]"
  have w0: "wl_build ''w'' 2 (Some 1) = Some ?w0" by (simp add: wl_build_def)
  have len: "length ?ops < 2 ^ 64 - 1" by simp
  obtain w issued where run: "wl_run ?ops (?w0, []) = Some (w, issued)"
    using wl_run_total [OF wl_build_service [OF w0], of ?ops] by auto
  from wait_list_refines_queue [OF w0 len run, of "\<lambda>_. SlotOpen", THEN conjunct1]
  obtain n w' where "wl_sweep (\<lambda>_. SlotOpen) w = Some (n, w')" "wl_queue w' = filter (\<lambda>_. True) (wl_queue w)"
    by (auto split: option.splits)
  with w0 run show ?thesis by blast
qed

end
