(* ===== verification/Pool_Types.thy ===== *)
theory Pool_Types
  imports Capacity
begin

text \<open>
  The vocabulary of resource pools in \<open>tina/src/pool.rs\<close>: configuration, leases, outcomes,
  pressure, lifetime and shutdown reports. Instants and durations are natural numbers of
  nanoseconds. A \<open>ResourceId\<close> is the index of its slot.
\<close>

section \<open>Configuration and leases\<close>

record pool_config =
  cfg_capacity :: nat
  cfg_max_waiters :: nat

definition pool_config_new :: "nat \<Rightarrow> nat \<Rightarrow> pool_config" where
  "pool_config_new capacity max_waiters = \<lparr>cfg_capacity = capacity, cfg_max_waiters = max_waiters\<rparr>"

definition pool_config_dev :: pool_config where
  "pool_config_dev = pool_config_new 4 32"

definition pool_config_pressure :: pool_config where
  "pool_config_pressure = pool_config_new 1 4"

type_synonym pool_id = u64

record 'h pool_lease =
  lease_pool_id :: pool_id
  lease_resource_id :: nat
  lease_generation :: u64
  lease_handle :: 'h

datatype 'h acquire_outcome =
    Acquired "'h pool_lease"
  | AcquireFull
  | AcquireClosed
  | AcquireWrongShard

datatype pool_pressure_reason = PressureFull | PressureClosed | PressureWrongShard

fun map_acquired :: "('h \<Rightarrow> 'u) \<Rightarrow> 'h acquire_outcome \<Rightarrow> 'u acquire_outcome" where
  "map_acquired f (Acquired lease) =
     Acquired \<lparr>lease_pool_id = lease_pool_id lease, lease_resource_id = lease_resource_id lease,
       lease_generation = lease_generation lease, lease_handle = f (lease_handle lease)\<rparr>"
| "map_acquired f AcquireFull = AcquireFull"
| "map_acquired f AcquireClosed = AcquireClosed"
| "map_acquired f AcquireWrongShard = AcquireWrongShard"

fun pressure_reason :: "'h acquire_outcome \<Rightarrow> pool_pressure_reason option" where
  "pressure_reason (Acquired _) = None"
| "pressure_reason AcquireFull = Some PressureFull"
| "pressure_reason AcquireClosed = Some PressureClosed"
| "pressure_reason AcquireWrongShard = Some PressureWrongShard"

datatype release_disposition = Reuse | Retire

datatype release_outcome = Released | ReleaseRetired | StaleLease | DoubleRelease | PoolClosed

datatype close_mode = CloseDrain | CloseForce

section \<open>Reports\<close>

record pool_pressure_report =
  ppr_capacity :: nat
  ppr_available :: nat
  ppr_leased :: nat
  ppr_waiters :: nat
  ppr_max_waiters :: nat
  ppr_high_water_waiters :: nat
  ppr_full_count :: u64
  ppr_closed_count :: u64
  ppr_wrong_shard_count :: u64
  ppr_cancel_count :: u64
  ppr_retired_count :: u64
  ppr_no_caller_drops :: u64
  ppr_dispatch_recovered :: u64
  ppr_closed :: bool

definition to_waiters_capacity_report ::
    "string \<Rightarrow> capacity_mode \<Rightarrow> pool_pressure_report \<Rightarrow> capacity_surface_report" where
  "to_waiters_capacity_report name mode r =
     csr_count name mode (ppr_max_waiters r) (ppr_waiters r) (ppr_high_water_waiters r) (ppr_full_count r)"

record resource_lifetime =
  max_idle :: "nat option"
  max_lifetime :: "nat option"

definition lifetime_new :: "nat option \<Rightarrow> nat option \<Rightarrow> resource_lifetime" where
  "lifetime_new idle age = \<lparr>max_idle = idle, max_lifetime = age\<rparr>"

definition idle_after :: "nat \<Rightarrow> resource_lifetime" where
  "idle_after d = \<lparr>max_idle = Some d, max_lifetime = None\<rparr>"

definition max_age :: "nat \<Rightarrow> resource_lifetime" where
  "max_age d = \<lparr>max_idle = None, max_lifetime = Some d\<rparr>"

definition is_unbounded :: "resource_lifetime \<Rightarrow> bool" where
  "is_unbounded l \<longleftrightarrow> max_idle l = None \<and> max_lifetime l = None"

datatype resource_health = Healthy | Suspect | HealthRetire

fun disposition :: "resource_health \<Rightarrow> release_disposition" where
  "disposition Healthy = Reuse"
| "disposition Suspect = Reuse"
| "disposition HealthRetire = Retire"

datatype retire_reason = IdleTimeout | MaxLifetime | Unhealthy | ForceClosed

datatype policy_check_point = ScheduledMaintenance | BeforeHandoff | AfterRelease

record retired_resource =
  rr_resource_id :: nat
  rr_reason :: retire_reason
  rr_check_point :: policy_check_point

record resource_policy_report =
  rpr_inspected :: nat
  rpr_retired :: "retired_resource list"
  rpr_over_age_leased :: "nat list"
  rpr_available_after :: nat
  rpr_leased_after :: nat
  rpr_retired_slots :: nat

definition policy_report_default :: resource_policy_report where
  "policy_report_default = \<lparr>rpr_inspected = 0, rpr_retired = [], rpr_over_age_leased = [],
     rpr_available_after = 0, rpr_leased_after = 0, rpr_retired_slots = 0\<rparr>"

datatype refill_outcome = Refilled | NotRetired | UnknownResource | RefillClosed

record pool_shutdown_report =
  psr_mode :: close_mode
  psr_closed :: bool
  psr_leased :: nat
  psr_available :: nat
  psr_retired :: u64
  psr_waiters :: nat

definition shutdown_from_pressure :: "close_mode \<Rightarrow> pool_pressure_report \<Rightarrow> pool_shutdown_report" where
  "shutdown_from_pressure mode p =
     \<lparr>psr_mode = mode, psr_closed = ppr_closed p, psr_leased = ppr_leased p,
      psr_available = ppr_available p, psr_retired = ppr_retired_count p, psr_waiters = ppr_waiters p\<rparr>"

definition shutdown_drained :: "pool_shutdown_report \<Rightarrow> bool" where
  "shutdown_drained r \<longleftrightarrow> psr_leased r = 0"

section \<open>Minting\<close>

definition authority_lease :: "pool_id \<Rightarrow> nat \<Rightarrow> u64 \<Rightarrow> 'h \<Rightarrow> 'h pool_lease" where
  "authority_lease authority resource_id generation handle =
     \<lparr>lease_pool_id = authority, lease_resource_id = resource_id, lease_generation = generation,
      lease_handle = handle\<rparr>"

definition lease_into_parts :: "'h pool_lease \<Rightarrow> pool_id \<times> nat \<times> u64 \<times> 'h" where
  "lease_into_parts lease =
     (lease_pool_id lease, lease_resource_id lease, lease_generation lease, lease_handle lease)"

text \<open>
  The process-wide counter that hands out pool identities: \<open>PoolAuthority::new\<close> retries its
  compare-and-swap until it has moved the counter it last observed, so each call is one step that
  takes the current value and leaves the next one; it panics (\<open>None\<close>) when the space is used up.
\<close>

definition authority_new :: "u64 \<Rightarrow> (pool_id \<times> u64) option" where
  "authority_new next_pool_id =
     (if next_pool_id = - 1 then None
      else if next_pool_id = 0 then None
      else Some (next_pool_id, next_pool_id + 1))"

end
