(* ===== verification/Worker_Pool.thy ===== *)
theory Worker_Pool
  imports Pool_Types "HOL-Library.Monad_Syntax"
begin

text \<open>
  The bounded worker pool isolate of \<open>tina-runtime/src/pool.rs\<close>: resources that are idle, leased
  under a generation, or retired; a slab of parked callers with a FIFO queue of slab indices; and
  the list of dispatches whose delivery is not yet confirmed.

  A caller is a deferred reply of type \<open>'r\<close>, \<open>'h\<close> is the resource handle. As in the wait list, the
  lifecycle states of the deferred replies are read from a snapshot \<open>st\<close> taken at the start of the
  turn. \<open>None\<close> is a panic; the effects of a turn are the list of replies it emits. Resource and
  waiter ids are \<open>nat\<close>s: \<open>build\<close> checks that they fit in a \<open>u32\<close>.
\<close>

section \<open>Messages, replies and state\<close>

datatype 'h worker_pool_msg =
    MsgAcquire
  | MsgRelease "'h pool_lease" release_disposition
  | MsgClose close_mode
  | MsgPressureReport
  | MsgMaintain nat
  | MsgRefill nat 'h nat

datatype 'h worker_pool_reply =
    RepAcquire "'h acquire_outcome"
  | RepRelease release_outcome
  | RepClosed
  | RepPressure pool_pressure_report
  | RepMaintenance resource_policy_report
  | RepRefilled refill_outcome

text \<open>\<open>reply\<close> answers the current message, \<open>reply_to\<close> a deferred caller; \<open>noop\<close> emits nothing.\<close>

datatype ('h, 'r) pool_effect =
    ReplyNow "'h worker_pool_reply"
  | ReplyTo 'r "'h worker_pool_reply"

datatype resource_state =
    ResIdle u64
  | ResLeased u64
  | ResRetired u64

record 'r in_flight_dispatch =
  ifd_resource_id :: nat
  ifd_generation :: u64
  ifd_slot :: 'r

record pool_counters =
  pct_full :: u64
  pct_cancel :: u64
  pct_retired :: u64
  pct_closed :: u64
  pct_wrong_shard :: u64
  pct_no_caller_drops :: u64
  pct_dispatch_recovered :: u64
  pct_high_water_waiters :: nat

definition pool_counters_default :: pool_counters where
  "pool_counters_default = \<lparr>pct_full = 0, pct_cancel = 0, pct_retired = 0, pct_closed = 0,
     pct_wrong_shard = 0, pct_no_caller_drops = 0, pct_dispatch_recovered = 0,
     pct_high_water_waiters = 0\<rparr>"

record ('h, 'r) worker_pool =
  wp_pool_id :: pool_id
  wp_config :: pool_config
  wp_lifetime :: "resource_lifetime option"
  wp_created_at :: "nat option list"
  wp_idle_since :: "nat option list"
  wp_resources :: "'h option list"
  wp_states :: "resource_state list"
  wp_idle :: "nat list"
  wp_waiter_slab :: "'r option list"
  wp_free_waiter_slots :: "nat list"
  wp_live_waiters :: nat
  wp_waiter_queue :: "nat list"
  wp_in_flight :: "'r in_flight_dispatch list"
  wp_counters :: pool_counters
  wp_closed :: "close_mode option"

definition wp_build ::
    "pool_id \<Rightarrow> pool_config \<Rightarrow> 'h list \<Rightarrow> resource_lifetime option \<Rightarrow> nat option
     \<Rightarrow> ('h, 'r) worker_pool option" where
  "wp_build authority config resources lifetime now =
     (if resources \<noteq> [] \<and> length resources = cfg_capacity config
         \<and> cfg_capacity config < 2 ^ 32 \<and> cfg_max_waiters config < 2 ^ 32
      then
        let cap = cfg_capacity config; max_waiters = cfg_max_waiters config in
        Some \<lparr>wp_pool_id = authority, wp_config = config, wp_lifetime = lifetime,
          wp_created_at = replicate cap now, wp_idle_since = replicate cap now,
          wp_resources = map Some resources, wp_states = replicate cap (ResIdle 1),
          wp_idle = [0..<cap], wp_waiter_slab = replicate max_waiters None,
          wp_free_waiter_slots = rev [0..<max_waiters], wp_live_waiters = 0, wp_waiter_queue = [],
          wp_in_flight = [], wp_counters = pool_counters_default, wp_closed = None\<rparr>
      else None)"

definition wp_new :: "pool_id \<Rightarrow> pool_config \<Rightarrow> 'h list \<Rightarrow> ('h, 'r) worker_pool option" where
  "wp_new authority config resources = wp_build authority config resources None None"

definition wp_with_lifetime ::
    "pool_id \<Rightarrow> pool_config \<Rightarrow> 'h list \<Rightarrow> resource_lifetime \<Rightarrow> nat \<Rightarrow> ('h, 'r) worker_pool option" where
  "wp_with_lifetime authority config resources lifetime now =
     wp_build authority config resources (Some lifetime) (Some now)"

fun is_idle_state :: "resource_state \<Rightarrow> bool" where
  "is_idle_state (ResIdle _) = True"
| "is_idle_state (ResLeased _) = False"
| "is_idle_state (ResRetired _) = False"

fun is_leased_state :: "resource_state \<Rightarrow> bool" where
  "is_leased_state (ResIdle _) = False"
| "is_leased_state (ResLeased _) = True"
| "is_leased_state (ResRetired _) = False"

fun is_retired_state :: "resource_state \<Rightarrow> bool" where
  "is_retired_state (ResIdle _) = False"
| "is_retired_state (ResLeased _) = False"
| "is_retired_state (ResRetired _) = True"

definition wp_pressure :: "('h, 'r) worker_pool \<Rightarrow> pool_pressure_report" where
  "wp_pressure p = (let c = wp_counters p in
     \<lparr>ppr_capacity = cfg_capacity (wp_config p),
      ppr_available = length (filter is_idle_state (wp_states p)),
      ppr_leased = length (filter is_leased_state (wp_states p)),
      ppr_waiters = wp_live_waiters p, ppr_max_waiters = cfg_max_waiters (wp_config p),
      ppr_high_water_waiters = pct_high_water_waiters c, ppr_full_count = pct_full c,
      ppr_closed_count = pct_closed c, ppr_wrong_shard_count = pct_wrong_shard c,
      ppr_cancel_count = pct_cancel c, ppr_retired_count = pct_retired c,
      ppr_no_caller_drops = pct_no_caller_drops c, ppr_dispatch_recovered = pct_dispatch_recovered c,
      ppr_closed = (wp_closed p \<noteq> None)\<rparr>)"

section \<open>Sweeps\<close>

definition wp_remove_waiter_slot ::
    "nat \<Rightarrow> ('h, 'r) worker_pool \<Rightarrow> ('r option \<times> ('h, 'r) worker_pool) option" where
  "wp_remove_waiter_slot idx p =
     (if idx < length (wp_waiter_slab p) then
        case wp_waiter_slab p ! idx of
          None \<Rightarrow> Some (None, p)
        | Some waiter \<Rightarrow>
            if wp_live_waiters p = 0 then None
            else Some (Some waiter, p\<lparr>wp_waiter_slab := (wp_waiter_slab p)[idx := None],
                   wp_live_waiters := wp_live_waiters p - 1,
                   wp_free_waiter_slots := wp_free_waiter_slots p @ [idx]\<rparr>)
      else None)"

definition count_cancel :: "('h, 'r) worker_pool \<Rightarrow> ('h, 'r) worker_pool" where
  "count_cancel p = p\<lparr>wp_counters := (wp_counters p)\<lparr>pct_cancel := pct_cancel (wp_counters p) + 1\<rparr>\<rparr>"

fun wp_sweep_waiters_loop ::
    "('r \<Rightarrow> deferred_slot_state) \<Rightarrow> nat list \<Rightarrow> bool \<Rightarrow> ('h, 'r) worker_pool
     \<Rightarrow> (bool \<times> ('h, 'r) worker_pool) option" where
  "wp_sweep_waiters_loop st [] reclaimed_any p = Some (reclaimed_any, p)"
| "wp_sweep_waiters_loop st (idx # idxs) reclaimed_any p =
     (if (case wp_waiter_slab p ! idx of None \<Rightarrow> False | Some w \<Rightarrow> st w \<noteq> SlotOpen) then
        do {
          (removed, p1) \<leftarrow> wp_remove_waiter_slot idx p;
          (case removed of
             Some _ \<Rightarrow> wp_sweep_waiters_loop st idxs True (count_cancel p1)
           | None \<Rightarrow> wp_sweep_waiters_loop st idxs reclaimed_any p1)
        }
      else wp_sweep_waiters_loop st idxs reclaimed_any p)"

definition wp_sweep_waiters ::
    "('r \<Rightarrow> deferred_slot_state) \<Rightarrow> ('h, 'r) worker_pool \<Rightarrow> ('h, 'r) worker_pool option" where
  "wp_sweep_waiters st p = do {
     (reclaimed_any, p1) \<leftarrow> wp_sweep_waiters_loop st [0..<length (wp_waiter_slab p)] False p;
     Some (if reclaimed_any
       then p1\<lparr>wp_waiter_queue := filter (\<lambda>idx. wp_waiter_slab p1 ! idx \<noteq> None) (wp_waiter_queue p1)\<rparr>
       else p1)
   }"

definition wp_recover_dispatched ::
    "nat \<Rightarrow> u64 \<Rightarrow> ('h, 'r) worker_pool \<Rightarrow> ('h, 'r) worker_pool option" where
  "wp_recover_dispatched resource_id generation p =
     (if resource_id < length (wp_states p) then
        case wp_states p ! resource_id of
          ResLeased g \<Rightarrow>
            Some (if g = generation then
              p\<lparr>wp_states := (wp_states p)[resource_id := ResIdle (sat_add generation 1)],
                wp_idle_since := (wp_idle_since p)[resource_id := None],
                wp_idle := wp_idle p @ [resource_id],
                wp_counters := (wp_counters p)
                  \<lparr>pct_dispatch_recovered := pct_dispatch_recovered (wp_counters p) + 1\<rparr>\<rparr>
              else p)
        | _ \<Rightarrow> Some p
      else None)"

partial_function (option) wp_sweep_in_flight ::
    "('r \<Rightarrow> deferred_slot_state) \<Rightarrow> nat \<Rightarrow> ('h, 'r) worker_pool \<Rightarrow> ('h, 'r) worker_pool option" where
  "wp_sweep_in_flight st i p =
     (if i < length (wp_in_flight p) then
        (let entry = wp_in_flight p ! i; rest = swap_remove i (wp_in_flight p) in
         case st (ifd_slot entry) of
           SlotOpen \<Rightarrow> wp_sweep_in_flight st (i + 1) p
         | SlotReplied \<Rightarrow> wp_sweep_in_flight st i (p\<lparr>wp_in_flight := rest\<rparr>)
         | SlotClosed \<Rightarrow>
             do {
               p1 \<leftarrow> wp_recover_dispatched (ifd_resource_id entry) (ifd_generation entry)
                      (p\<lparr>wp_in_flight := rest\<rparr>);
               wp_sweep_in_flight st i p1
             })
      else Some p)"

section \<open>Slots and leases\<close>

definition wp_alloc_waiter_slot :: "('h, 'r) worker_pool \<Rightarrow> (nat \<times> ('h, 'r) worker_pool) option" where
  "wp_alloc_waiter_slot p =
     (if wp_free_waiter_slots p = [] then None
      else Some (last (wp_free_waiter_slots p),
             p\<lparr>wp_free_waiter_slots := butlast (wp_free_waiter_slots p)\<rparr>))"

definition wp_store_waiter_slot ::
    "nat \<Rightarrow> 'r \<Rightarrow> ('h, 'r) worker_pool \<Rightarrow> ('h, 'r) worker_pool option" where
  "wp_store_waiter_slot idx waiter p =
     (if idx < length (wp_waiter_slab p) \<and> wp_waiter_slab p ! idx = None
      then Some (p\<lparr>wp_waiter_slab := (wp_waiter_slab p)[idx := Some waiter],
        wp_live_waiters := wp_live_waiters p + 1\<rparr>)
      else None)"

fun spent_generation :: "resource_state \<Rightarrow> u64" where
  "spent_generation (ResIdle next_generation) = next_generation"
| "spent_generation (ResLeased generation) = sat_add generation 1"
| "spent_generation (ResRetired next_generation) = next_generation"

definition wp_retire_slot :: "nat \<Rightarrow> ('h, 'r) worker_pool \<Rightarrow> ('h, 'r) worker_pool" where
  "wp_retire_slot idx p =
     p\<lparr>wp_states := (wp_states p)[idx := ResRetired (spent_generation (wp_states p ! idx))],
       wp_resources := (wp_resources p)[idx := None],
       wp_created_at := (wp_created_at p)[idx := None],
       wp_idle_since := (wp_idle_since p)[idx := None],
       wp_counters := (wp_counters p)\<lparr>pct_retired := pct_retired (wp_counters p) + 1\<rparr>\<rparr>"

definition wp_mint_lease :: "nat \<Rightarrow> ('h, 'r) worker_pool \<Rightarrow> ('h pool_lease \<times> ('h, 'r) worker_pool) option" where
  "wp_mint_lease resource_id p =
     (if resource_id < length (wp_states p) then
        case wp_states p ! resource_id of
          ResIdle g \<Rightarrow>
            (case (if resource_id < length (wp_resources p) then wp_resources p ! resource_id else None) of
               None \<Rightarrow> None
             | Some handle \<Rightarrow>
                 Some (authority_lease (wp_pool_id p) resource_id g handle,
                   p\<lparr>wp_idle_since := (wp_idle_since p)[resource_id := None],
                     wp_states := (wp_states p)[resource_id := ResLeased g]\<rparr>))
        | _ \<Rightarrow> None
      else None)"

definition wp_track_dispatch :: "nat \<Rightarrow> u64 \<Rightarrow> 'r \<Rightarrow> ('h, 'r) worker_pool \<Rightarrow> ('h, 'r) worker_pool" where
  "wp_track_dispatch resource_id generation slot p =
     p\<lparr>wp_in_flight := wp_in_flight p
         @ [\<lparr>ifd_resource_id = resource_id, ifd_generation = generation, ifd_slot = slot\<rparr>]\<rparr>"

fun wp_dispatch_loop ::
    "nat \<Rightarrow> nat list \<Rightarrow> ('h, 'r) worker_pool
     \<Rightarrow> (('h, 'r) pool_effect option \<times> ('h, 'r) worker_pool) option" where
  "wp_dispatch_loop resource_id [] p = Some (None, p\<lparr>wp_idle := wp_idle p @ [resource_id]\<rparr>)"
| "wp_dispatch_loop resource_id (slab_idx # queue) p = do {
     (removed, p1) \<leftarrow> wp_remove_waiter_slot slab_idx (p\<lparr>wp_waiter_queue := queue\<rparr>);
     (case removed of
        None \<Rightarrow> wp_dispatch_loop resource_id queue p1
      | Some waiter \<Rightarrow> do {
          (lease, p2) \<leftarrow> wp_mint_lease resource_id p1;
          Some (Some (ReplyTo waiter (RepAcquire (Acquired lease))),
            wp_track_dispatch resource_id (lease_generation lease) waiter p2)
        })
   }"

definition wp_dispatch_to_next_waiter ::
    "('r \<Rightarrow> deferred_slot_state) \<Rightarrow> nat \<Rightarrow> ('h, 'r) worker_pool
     \<Rightarrow> (('h, 'r) pool_effect option \<times> ('h, 'r) worker_pool) option" where
  "wp_dispatch_to_next_waiter st resource_id p = do {
     p1 \<leftarrow> wp_sweep_waiters st p;
     wp_dispatch_loop resource_id (wp_waiter_queue p1) p1
   }"

section \<open>Handlers\<close>

definition wp_bump_waiter_high_water :: "('h, 'r) worker_pool \<Rightarrow> ('h, 'r) worker_pool" where
  "wp_bump_waiter_high_water p =
     (if wp_live_waiters p > pct_high_water_waiters (wp_counters p)
      then p\<lparr>wp_counters := (wp_counters p)\<lparr>pct_high_water_waiters := wp_live_waiters p\<rparr>\<rparr> else p)"

definition wp_handle_acquire_slot ::
    "'r \<Rightarrow> ('h, 'r) worker_pool \<Rightarrow> (('h, 'r) pool_effect list \<times> ('h, 'r) worker_pool) option" where
  "wp_handle_acquire_slot slot p = (case wp_idle p of
     resource_id # idle \<Rightarrow> do {
       (lease, p1) \<leftarrow> wp_mint_lease resource_id (p\<lparr>wp_idle := idle\<rparr>);
       Some ([ReplyTo slot (RepAcquire (Acquired lease))],
         wp_track_dispatch resource_id (lease_generation lease) slot p1)
     }
   | [] \<Rightarrow>
       if wp_free_waiter_slots p = [] then
         Some ([ReplyTo slot (RepAcquire AcquireFull)],
           p\<lparr>wp_counters := (wp_counters p)\<lparr>pct_full := pct_full (wp_counters p) + 1\<rparr>\<rparr>)
       else do {
         (slab_idx, p1) \<leftarrow> wp_alloc_waiter_slot p;
         p2 \<leftarrow> wp_store_waiter_slot slab_idx slot p1;
         Some ([], wp_bump_waiter_high_water
           (p2\<lparr>wp_waiter_queue := wp_waiter_queue p2 @ [slab_idx]\<rparr>))
       })"

definition count_closed :: "('h, 'r) worker_pool \<Rightarrow> ('h, 'r) worker_pool" where
  "count_closed p = p\<lparr>wp_counters := (wp_counters p)\<lparr>pct_closed := pct_closed (wp_counters p) + 1\<rparr>\<rparr>"

definition wp_handle_acquire ::
    "take_reply_slot_error + 'r \<Rightarrow> ('h, 'r) worker_pool
     \<Rightarrow> (('h, 'r) pool_effect list \<times> ('h, 'r) worker_pool) option" where
  "wp_handle_acquire ctx p =
     (if wp_closed p \<noteq> None then Some ([ReplyNow (RepAcquire AcquireClosed)], count_closed p)
      else (case ctx of
          Inr slot \<Rightarrow> wp_handle_acquire_slot slot p
        | Inl NoCaller \<Rightarrow>
            Some ([], p\<lparr>wp_counters := (wp_counters p)
              \<lparr>pct_no_caller_drops := pct_no_caller_drops (wp_counters p) + 1\<rparr>\<rparr>)
        | Inl CrossShardUnsupported \<Rightarrow>
            Some ([ReplyNow (RepAcquire AcquireWrongShard)],
              p\<lparr>wp_counters := (wp_counters p)
                \<lparr>pct_wrong_shard := pct_wrong_shard (wp_counters p) + 1\<rparr>\<rparr>)))"

definition wp_handle_release ::
    "('r \<Rightarrow> deferred_slot_state) \<Rightarrow> 'h pool_lease \<Rightarrow> release_disposition \<Rightarrow> ('h, 'r) worker_pool
     \<Rightarrow> (('h, 'r) pool_effect list \<times> ('h, 'r) worker_pool) option" where
  "wp_handle_release st lease disp p =
     (let (lease_pool, idx, lease_gen, _) = lease_into_parts lease;
          answer = (\<lambda>outcome q. Some ([ReplyNow (RepRelease outcome)], q)) in
      if lease_pool \<noteq> wp_pool_id p then answer StaleLease p
      else if idx \<ge> length (wp_states p) then answer StaleLease p
      else if wp_closed p = Some CloseForce then
        answer PoolClosed
          (case wp_states p ! idx of
             ResLeased g \<Rightarrow> if g = lease_gen then wp_retire_slot idx p else p
           | _ \<Rightarrow> p)
      else (case wp_states p ! idx of
          ResLeased g \<Rightarrow>
            if g = lease_gen then
              if disp = Retire then answer ReleaseRetired (wp_retire_slot idx p)
              else
                let p1 = p\<lparr>wp_states := (wp_states p)[idx := ResIdle (sat_add lease_gen 1)],
                           wp_idle_since := (wp_idle_since p)[idx := None]\<rparr>
                in if wp_closed p1 \<noteq> None then answer Released p1
                   else do {
                     (handover, p2) \<leftarrow> wp_dispatch_to_next_waiter st idx p1;
                     Some ((case handover of None \<Rightarrow> [] | Some e \<Rightarrow> [e])
                       @ [ReplyNow (RepRelease Released)], p2)
                   }
            else if g > lease_gen then answer DoubleRelease p
            else answer StaleLease p
        | ResIdle next_generation \<Rightarrow>
            if next_generation > lease_gen then answer DoubleRelease p else answer StaleLease p
        | ResRetired _ \<Rightarrow> answer ReleaseRetired p))"

fun wp_retire_leased :: "nat list \<Rightarrow> ('h, 'r) worker_pool \<Rightarrow> ('h, 'r) worker_pool" where
  "wp_retire_leased [] p = p"
| "wp_retire_leased (idx # idxs) p =
     wp_retire_leased idxs (if is_leased_state (wp_states p ! idx) then wp_retire_slot idx p else p)"

fun wp_close_waiters ::
    "nat list \<Rightarrow> ('h, 'r) pool_effect list \<Rightarrow> ('h, 'r) worker_pool
     \<Rightarrow> (('h, 'r) pool_effect list \<times> ('h, 'r) worker_pool) option" where
  "wp_close_waiters [] effects p = Some (effects, p)"
| "wp_close_waiters (idx # idxs) effects p = do {
     (removed, p1) \<leftarrow> wp_remove_waiter_slot idx p;
     (case removed of
        Some waiter \<Rightarrow>
          wp_close_waiters idxs (effects @ [ReplyTo waiter (RepAcquire AcquireClosed)]) (count_closed p1)
      | None \<Rightarrow> wp_close_waiters idxs effects p1)
   }"

definition wp_handle_close ::
    "close_mode \<Rightarrow> ('h, 'r) worker_pool \<Rightarrow> (('h, 'r) pool_effect list \<times> ('h, 'r) worker_pool) option" where
  "wp_handle_close mode p =
     (let (upgraded_to_force, p1) = (case (wp_closed p, mode) of
          (None, CloseForce) \<Rightarrow> (True, p\<lparr>wp_closed := Some CloseForce\<rparr>)
        | (None, CloseDrain) \<Rightarrow> (False, p\<lparr>wp_closed := Some CloseDrain\<rparr>)
        | (Some CloseDrain, CloseForce) \<Rightarrow> (True, p\<lparr>wp_closed := Some CloseForce\<rparr>)
        | _ \<Rightarrow> (False, p));
          p2 = (if upgraded_to_force
                then (wp_retire_leased [0..<length (wp_states p1)] p1)\<lparr>wp_in_flight := []\<rparr> else p1)
      in do {
        (effects, p3) \<leftarrow> wp_close_waiters [0..<length (wp_waiter_slab p2)] [] p2;
        Some (effects @ [ReplyNow RepClosed], p3\<lparr>wp_waiter_queue := []\<rparr>)
      })"

definition wp_fill_report_tail ::
    "('h, 'r) worker_pool \<Rightarrow> resource_policy_report \<Rightarrow> resource_policy_report" where
  "wp_fill_report_tail p report =
     report\<lparr>rpr_available_after := length (filter is_idle_state (wp_states p)),
            rpr_leased_after := length (filter is_leased_state (wp_states p)),
            rpr_retired_slots := length (filter is_retired_state (wp_states p))\<rparr>"

definition over_limit :: "nat option \<Rightarrow> nat option \<Rightarrow> bool" where
  "over_limit limit age = (case (limit, age) of (Some limit, Some age) \<Rightarrow> age \<ge> limit | _ \<Rightarrow> False)"

definition age_at :: "nat \<Rightarrow> nat option \<Rightarrow> nat option" where
  "age_at now created = map_option (\<lambda>c. now - c) created"

definition wp_maintain_slot ::
    "resource_lifetime \<Rightarrow> nat \<Rightarrow> nat \<Rightarrow> resource_policy_report \<times> bool \<times> ('h, 'r) worker_pool
     \<Rightarrow> resource_policy_report \<times> bool \<times> ('h, 'r) worker_pool" where
  "wp_maintain_slot lifetime now idx acc = (case acc of (report, retired_any, p) \<Rightarrow>
     case wp_states p ! idx of
       ResIdle _ \<Rightarrow>
         (let report1 = report\<lparr>rpr_inspected := rpr_inspected report + 1\<rparr>;
              idle_since = (case wp_idle_since p ! idx of None \<Rightarrow> now | Some t \<Rightarrow> t);
              p1 = p\<lparr>wp_idle_since := (wp_idle_since p)[idx := Some idle_since]\<rparr>;
              over_age = over_limit (max_lifetime lifetime) (age_at now (wp_created_at p ! idx));
              over_idle = over_limit (max_idle lifetime) (Some (now - idle_since))
          in if over_age \<or> over_idle
             then (report1\<lparr>rpr_retired := rpr_retired report1
                     @ [\<lparr>rr_resource_id = idx, rr_reason = (if over_age then MaxLifetime else IdleTimeout),
                         rr_check_point = ScheduledMaintenance\<rparr>]\<rparr>,
                   True, wp_retire_slot idx p1)
             else (report1, retired_any, p1))
     | ResLeased _ \<Rightarrow>
         (let report1 = report\<lparr>rpr_inspected := rpr_inspected report + 1\<rparr>;
              over_age = over_limit (max_lifetime lifetime) (age_at now (wp_created_at p ! idx))
          in (if over_age then report1\<lparr>rpr_over_age_leased := rpr_over_age_leased report1 @ [idx]\<rparr>
              else report1, retired_any, p))
     | ResRetired _ \<Rightarrow> (report, retired_any, p))"

definition wp_handle_maintain ::
    "nat \<Rightarrow> ('h, 'r) worker_pool \<Rightarrow> ('h, 'r) pool_effect list \<times> ('h, 'r) worker_pool" where
  "wp_handle_maintain now p =
     (if wp_closed p \<noteq> None
      then ([ReplyNow (RepMaintenance (wp_fill_report_tail p policy_report_default))], p)
      else (case wp_lifetime p of
          None \<Rightarrow> ([ReplyNow (RepMaintenance (wp_fill_report_tail p policy_report_default))], p)
        | Some lifetime \<Rightarrow>
            let (report, retired_any, p1) =
                  fold (wp_maintain_slot lifetime now) [0..<length (wp_states p)]
                    (policy_report_default, False, p);
                p2 = (if retired_any
                      then p1\<lparr>wp_idle := filter (\<lambda>i. is_idle_state (wp_states p1 ! i)) (wp_idle p1)\<rparr>
                      else p1)
            in ([ReplyNow (RepMaintenance (wp_fill_report_tail p2 report))], p2)))"

definition wp_handle_refill ::
    "('r \<Rightarrow> deferred_slot_state) \<Rightarrow> nat \<Rightarrow> 'h \<Rightarrow> nat \<Rightarrow> ('h, 'r) worker_pool
     \<Rightarrow> (('h, 'r) pool_effect list \<times> ('h, 'r) worker_pool) option" where
  "wp_handle_refill st resource_id handle now p =
     (if wp_closed p \<noteq> None then Some ([ReplyNow (RepRefilled RefillClosed)], p)
      else if resource_id \<ge> length (wp_states p)
      then Some ([ReplyNow (RepRefilled UnknownResource)], p)
      else (case wp_states p ! resource_id of
          ResRetired next_generation \<Rightarrow>
            (let stamp = (if wp_lifetime p \<noteq> None then Some now else None);
                 p1 = p\<lparr>wp_states := (wp_states p)[resource_id := ResIdle next_generation],
                        wp_resources := (wp_resources p)[resource_id := Some handle],
                        wp_created_at := (wp_created_at p)[resource_id := stamp],
                        wp_idle_since := (wp_idle_since p)[resource_id := stamp]\<rparr>
             in do {
               (handover, p2) \<leftarrow> wp_dispatch_to_next_waiter st resource_id p1;
               Some ((case handover of None \<Rightarrow> [] | Some e \<Rightarrow> [e])
                 @ [ReplyNow (RepRefilled Refilled)], p2)
             })
        | _ \<Rightarrow> Some ([ReplyNow (RepRefilled NotRetired)], p)))"

section \<open>The isolate\<close>

definition wp_dispatch_msg ::
    "('r \<Rightarrow> deferred_slot_state) \<Rightarrow> 'h worker_pool_msg
     \<Rightarrow> (('h, 'r) worker_pool \<Rightarrow> (('h, 'r) pool_effect list \<times> ('h, 'r) worker_pool) option)
     \<Rightarrow> ('h, 'r) worker_pool \<Rightarrow> (('h, 'r) pool_effect list \<times> ('h, 'r) worker_pool) option" where
  "wp_dispatch_msg st msg acquire p = (case msg of
     MsgAcquire \<Rightarrow> acquire p
   | MsgRelease lease disp \<Rightarrow> wp_handle_release st lease disp p
   | MsgClose mode \<Rightarrow> wp_handle_close mode p
   | MsgPressureReport \<Rightarrow> Some ([ReplyNow (RepPressure (wp_pressure p))], p)
   | MsgMaintain now \<Rightarrow> Some (wp_handle_maintain now p)
   | MsgRefill resource_id handle now \<Rightarrow> wp_handle_refill st resource_id handle now p)"

definition wp_handle ::
    "('r \<Rightarrow> deferred_slot_state) \<Rightarrow> 'h worker_pool_msg \<Rightarrow> take_reply_slot_error + 'r
     \<Rightarrow> ('h, 'r) worker_pool \<Rightarrow> (('h, 'r) pool_effect list \<times> ('h, 'r) worker_pool) option" where
  "wp_handle st msg ctx p = do {
     p1 \<leftarrow> wp_sweep_waiters st p;
     p2 \<leftarrow> wp_sweep_in_flight st 0 p1;
     wp_dispatch_msg st msg (wp_handle_acquire ctx) p2
   }"

definition wp_handle_call ::
    "('r \<Rightarrow> deferred_slot_state) \<Rightarrow> 'h worker_pool_msg \<Rightarrow> 'r
     \<Rightarrow> ('h, 'r) worker_pool \<Rightarrow> (('h, 'r) pool_effect list \<times> ('h, 'r) worker_pool) option" where
  "wp_handle_call st msg slot p = do {
     p1 \<leftarrow> wp_sweep_waiters st p;
     p2 \<leftarrow> wp_sweep_in_flight st 0 p1;
     wp_dispatch_msg st msg
       (\<lambda>q. if wp_closed q \<noteq> None then Some ([ReplyNow (RepAcquire AcquireClosed)], count_closed q)
            else wp_handle_acquire_slot slot q) p2
   }"

section \<open>Flattened call outcomes\<close>

datatype 'x acquire_failure =
    AfFull | AfClosed | AfWrongShard | AfCallTimeout | AfCallFull | AfCallClosed
  | AfCallRejected 'x | AfWrongReply

datatype 'x release_failure =
    RfRetired | RfStaleLease | RfDoubleRelease | RfPoolClosed | RfCallTimeout | RfCallFull
  | RfCallClosed | RfCallRejected 'x | RfWrongReply

fun try_acquired :: "('h worker_pool_reply, 'x) call_outcome \<Rightarrow> 'x acquire_failure + 'h pool_lease" where
  "try_acquired (OutReplied (RepAcquire (Acquired lease))) = Inr lease"
| "try_acquired (OutReplied (RepAcquire AcquireFull)) = Inl AfFull"
| "try_acquired (OutReplied (RepAcquire AcquireClosed)) = Inl AfClosed"
| "try_acquired (OutReplied (RepAcquire AcquireWrongShard)) = Inl AfWrongShard"
| "try_acquired (OutReplied _) = Inl AfWrongReply"
| "try_acquired OutTimeout = Inl AfCallTimeout"
| "try_acquired OutFull = Inl AfCallFull"
| "try_acquired OutClosed = Inl AfCallClosed"
| "try_acquired (OutRejected reason) = Inl (AfCallRejected reason)"

fun try_released :: "('h worker_pool_reply, 'x) call_outcome \<Rightarrow> 'x release_failure + unit" where
  "try_released (OutReplied (RepRelease Released)) = Inr ()"
| "try_released (OutReplied (RepRelease ReleaseRetired)) = Inl RfRetired"
| "try_released (OutReplied (RepRelease StaleLease)) = Inl RfStaleLease"
| "try_released (OutReplied (RepRelease DoubleRelease)) = Inl RfDoubleRelease"
| "try_released (OutReplied (RepRelease PoolClosed)) = Inl RfPoolClosed"
| "try_released (OutReplied _) = Inl RfWrongReply"
| "try_released OutTimeout = Inl RfCallTimeout"
| "try_released OutFull = Inl RfCallFull"
| "try_released OutClosed = Inl RfCallClosed"
| "try_released (OutRejected reason) = Inl (RfCallRejected reason)"

end
