(* ===== verification/Pool_Invariant.thy ===== *)
theory Pool_Invariant
  imports Worker_Pool
begin

text \<open>
  The representation invariant of the worker pool and what every operation does to it: the waiter
  slab with its free list, count and queue; the resource slots with the idle queue; and the
  generation counters, which only minting a lease advances. The operations are shown total here:
  under the invariant none of the panics of \<open>pool.rs\<close> is reached.
\<close>

section \<open>Views and invariant\<close>

definition slab_inv :: "('h, 'r) worker_pool \<Rightarrow> bool" where
  "slab_inv p \<longleftrightarrow> distinct (wp_free_waiter_slots p)
     \<and> set (wp_free_waiter_slots p) = vacant (wp_waiter_slab p)
     \<and> wp_live_waiters p = card (occupied (wp_waiter_slab p))
     \<and> length (wp_waiter_slab p) = cfg_max_waiters (wp_config p)"

definition wait_inv :: "('h, 'r) worker_pool \<Rightarrow> bool" where
  "wait_inv p \<longleftrightarrow> slab_inv p \<and> distinct (wp_waiter_queue p)
     \<and> set (wp_waiter_queue p) = occupied (wp_waiter_slab p)
     \<and> (wp_closed p \<noteq> None \<longrightarrow> wp_waiter_queue p = [])"

definition res_inv :: "('h, 'r) worker_pool \<Rightarrow> bool" where
  "res_inv p \<longleftrightarrow> cfg_capacity (wp_config p) = length (wp_states p)
     \<and> length (wp_resources p) = length (wp_states p)
     \<and> length (wp_created_at p) = length (wp_states p) \<and> length (wp_idle_since p) = length (wp_states p)
     \<and> (\<forall>i < length (wp_states p). wp_resources p ! i = None \<longleftrightarrow> is_retired_state (wp_states p ! i))
     \<and> (\<forall>e \<in> set (wp_in_flight p). ifd_resource_id e < length (wp_states p))"

text \<open>Which resources the idle queue holds; \<open>lent\<close> is the one a running handler has in hand.\<close>

definition idle_slots :: "resource_state list \<Rightarrow> nat set" where
  "idle_slots xs = {i. i < length xs \<and> is_idle_state (xs ! i)}"

definition idle_inv :: "nat set \<Rightarrow> ('h, 'r) worker_pool \<Rightarrow> bool" where
  "idle_inv lent p \<longleftrightarrow> distinct (wp_idle p) \<and> set (wp_idle p) \<subseteq> idle_slots (wp_states p) - lent
     \<and> (wp_closed p = None \<longrightarrow> set (wp_idle p) = idle_slots (wp_states p) - lent)"

definition wp_inv :: "('h, 'r) worker_pool \<Rightarrow> bool" where
  "wp_inv p \<longleftrightarrow> wait_inv p \<and> res_inv p \<and> idle_inv {} p"

definition parked :: "('h, 'r) worker_pool \<Rightarrow> 'r list" where
  "parked p = map (\<lambda>i. the (wp_waiter_slab p ! i)) (wp_waiter_queue p)"

definition no_stall :: "('h, 'r) worker_pool \<Rightarrow> bool" where
  "no_stall p \<longleftrightarrow> wp_idle p = [] \<or> parked p = []"

definition spents :: "('h, 'r) worker_pool \<Rightarrow> u64 list" where
  "spents p = map spent_generation (wp_states p)"

definition wp_fixed :: "('h, 'r) worker_pool \<Rightarrow> pool_id \<times> pool_config \<times> resource_lifetime option" where
  "wp_fixed p = (wp_pool_id p, wp_config p, wp_lifetime p)"

lemmas inv_defs = slab_inv_def wait_inv_def res_inv_def idle_inv_def wp_inv_def

lemma idle_slots_update:
  "i < length xs \<Longrightarrow>
    idle_slots (xs[i := s]) = (if is_idle_state s then insert i (idle_slots xs) else idle_slots xs - {i})"
  by (auto simp: idle_slots_def nth_list_update)

lemma idle_slots_fresh [simp]: "idle_slots (replicate n (ResIdle g)) = {0..<n}"
  by (auto simp: idle_slots_def)

lemma inv_counters [simp]:
  "slab_inv (p\<lparr>wp_counters := c\<rparr>) = slab_inv p" "wait_inv (p\<lparr>wp_counters := c\<rparr>) = wait_inv p"
  "res_inv (p\<lparr>wp_counters := c\<rparr>) = res_inv p" "idle_inv L (p\<lparr>wp_counters := c\<rparr>) = idle_inv L p"
  "wp_inv (p\<lparr>wp_counters := c\<rparr>) = wp_inv p" "parked (p\<lparr>wp_counters := c\<rparr>) = parked p"
  "no_stall (p\<lparr>wp_counters := c\<rparr>) = no_stall p" "spents (p\<lparr>wp_counters := c\<rparr>) = spents p" "wp_fixed (p\<lparr>wp_counters := c\<rparr>) = wp_fixed p"
  by (simp_all add: inv_defs parked_def spents_def wp_fixed_def no_stall_def)

lemma wp_build_inv:
  assumes "wp_build authority config resources lifetime now = Some p"
  shows "wp_inv p" "parked p = []" "spents p = replicate (cfg_capacity config) 1"
    "wp_fixed p = (authority, config, lifetime)" "wp_closed p = None"
  using assms
  by (auto simp: wp_build_def inv_defs parked_def spents_def wp_fixed_def Let_def slab_simps
      split: if_splits)

section \<open>Waiter slots\<close>

lemma remove_waiter_slot_eq:
  assumes "slab_inv p" and "idx < length (wp_waiter_slab p)"
  shows "wp_remove_waiter_slot idx p = (case wp_waiter_slab p ! idx of
      None \<Rightarrow> Some (None, p)
    | Some w \<Rightarrow> Some (Some w, p\<lparr>wp_waiter_slab := (wp_waiter_slab p)[idx := None],
        wp_live_waiters := wp_live_waiters p - 1,
        wp_free_waiter_slots := wp_free_waiter_slots p @ [idx]\<rparr>))"
proof (cases "wp_waiter_slab p ! idx")
  case (Some w)
  then have "idx \<in> occupied (wp_waiter_slab p)" using assms(2) by (simp add: occupied_def)
  then have "wp_live_waiters p \<noteq> 0" using assms(1) by (auto simp: slab_inv_def)
  then show ?thesis using Some assms(2) by (simp add: wp_remove_waiter_slot_def)
qed (use assms(2) in \<open>simp add: wp_remove_waiter_slot_def\<close>)

lemma slab_inv_remove:
  assumes "slab_inv p" and "idx < length (wp_waiter_slab p)" and "wp_waiter_slab p ! idx = Some w"
  shows "slab_inv (p\<lparr>wp_waiter_slab := (wp_waiter_slab p)[idx := None],
    wp_live_waiters := wp_live_waiters p - 1, wp_free_waiter_slots := wp_free_waiter_slots p @ [idx]\<rparr>)"
proof -
  have "idx \<in> occupied (wp_waiter_slab p)" using assms(2,3) by (simp add: occupied_def)
  moreover have "idx \<notin> vacant (wp_waiter_slab p)" using assms(3) by (simp add: vacant_def)
  ultimately show ?thesis using assms(1,2) by (simp add: slab_inv_def slab_simps)
qed

text \<open>The fields a change of the waiter slab touches.\<close>

definition slab_upd ::
    "'r option list \<Rightarrow> nat list \<Rightarrow> nat \<Rightarrow> pool_counters \<Rightarrow> ('h, 'r) worker_pool \<Rightarrow> ('h, 'r) worker_pool" where
  "slab_upd slab free live c p = p\<lparr>wp_waiter_slab := slab, wp_free_waiter_slots := free,
     wp_live_waiters := live, wp_counters := c\<rparr>"

lemma slab_upd_sel [simp]:
  "wp_waiter_slab (slab_upd slab free live c p) = slab"
  "wp_free_waiter_slots (slab_upd slab free live c p) = free"
  "wp_live_waiters (slab_upd slab free live c p) = live"
  "wp_counters (slab_upd slab free live c p) = c"
  "wp_waiter_queue (slab_upd slab free live c p) = wp_waiter_queue p"
  "wp_config (slab_upd slab free live c p) = wp_config p"
  "wp_states (slab_upd slab free live c p) = wp_states p"
  "wp_closed (slab_upd slab free live c p) = wp_closed p"
  "wp_idle (slab_upd slab free live c p) = wp_idle p"
  "wp_in_flight (slab_upd slab free live c p) = wp_in_flight p"
  "slab_upd slab free live c (slab_upd slab' free' live' c' p) = slab_upd slab free live c p"
  "res_inv (slab_upd slab free live c p) = res_inv p"
  "idle_inv L (slab_upd slab free live c p) = idle_inv L p"
  "spents (slab_upd slab free live c p) = spents p"
  "wp_fixed (slab_upd slab free live c p) = wp_fixed p"
  by (simp_all add: slab_upd_def inv_defs spents_def wp_fixed_def)

lemma slab_upd_exhaust:
  "p = slab_upd (wp_waiter_slab p) (wp_free_waiter_slots p) (wp_live_waiters p) (wp_counters p) p"
  by (simp add: slab_upd_def)

definition settled :: "('r \<Rightarrow> deferred_slot_state) \<Rightarrow> 'r option \<Rightarrow> bool" where
  "settled st slot \<longleftrightarrow> (case slot of None \<Rightarrow> False | Some w \<Rightarrow> st w \<noteq> SlotOpen)"

lemma sweep_waiters_loop_spec:
  assumes "slab_inv p" and "\<forall>i \<in> set idxs. i < length (wp_waiter_slab p)"
  shows "\<exists>slab free live c. wp_sweep_waiters_loop st idxs r p
        = Some (r \<or> (\<exists>i \<in> set idxs. settled st (wp_waiter_slab p ! i)), slab_upd slab free live c p)
      \<and> slab_inv (slab_upd slab free live c p) \<and> length slab = length (wp_waiter_slab p)
      \<and> (\<forall>i < length slab. slab ! i =
           (if i \<in> set idxs \<and> settled st (wp_waiter_slab p ! i) then None else wp_waiter_slab p ! i))"
  using assms
proof (induction idxs arbitrary: r p)
  case Nil
  then show ?case
    by (intro exI [of _ "wp_waiter_slab p"] exI [of _ "wp_free_waiter_slots p"]
        exI [of _ "wp_live_waiters p"] exI [of _ "wp_counters p"])
      (simp add: slab_upd_exhaust [symmetric])
next
  case (Cons idx idxs)
  let ?s = "wp_waiter_slab p"
  have idx: "idx < length ?s" using Cons.prems(2) by simp
  show ?case
  proof (cases "settled st (?s ! idx)")
    case False
    obtain slab free live c where IH: "wp_sweep_waiters_loop st idxs r p
        = Some (r \<or> (\<exists>i \<in> set idxs. settled st (?s ! i)), slab_upd slab free live c p)"
      "slab_inv (slab_upd slab free live c p)" "length slab = length ?s"
      "\<forall>i < length slab. slab ! i = (if i \<in> set idxs \<and> settled st (?s ! i) then None else ?s ! i)"
      using Cons.IH [of p r] Cons.prems by auto
    have "wp_sweep_waiters_loop st (idx # idxs) r p = wp_sweep_waiters_loop st idxs r p"
      using False by (simp add: settled_def)
    with IH False show ?thesis
      by (intro exI [of _ slab] exI [of _ free] exI [of _ live] exI [of _ c]) auto
  next
    case True
    then obtain w where w: "?s ! idx = Some w" "st w \<noteq> SlotOpen"
      by (auto simp: settled_def split: option.splits)
    define p1 where "p1 = count_cancel (p\<lparr>wp_waiter_slab := ?s[idx := None],
        wp_live_waiters := wp_live_waiters p - 1,
        wp_free_waiter_slots := wp_free_waiter_slots p @ [idx]\<rparr>)"
    have p1: "p1 = slab_upd (?s[idx := None]) (wp_free_waiter_slots p @ [idx]) (wp_live_waiters p - 1)
        (wp_counters p1) p"
      by (simp add: p1_def count_cancel_def slab_upd_def)
    have s1: "wp_waiter_slab p1 = ?s[idx := None]" by (simp add: p1_def count_cancel_def)
    have inv1: "slab_inv p1"
      using slab_inv_remove [OF Cons.prems(1) idx w(1)] by (simp add: p1_def count_cancel_def)
    have step: "wp_sweep_waiters_loop st (idx # idxs) r p = wp_sweep_waiters_loop st idxs True p1"
      using w by (simp add: remove_waiter_slot_eq [OF Cons.prems(1) idx] p1_def)
    have "\<forall>i \<in> set idxs. i < length (wp_waiter_slab p1)" using Cons.prems(2) by (simp add: s1)
    from Cons.IH [OF inv1 this, of True]
    obtain slab free live c where IH: "wp_sweep_waiters_loop st idxs True p1 = Some (True, slab_upd slab free live c p1)"
      "slab_inv (slab_upd slab free live c p1)" "length slab = length ?s"
      "\<forall>i < length slab. slab ! i =
         (if i \<in> set idxs \<and> settled st (?s[idx := None] ! i) then None else ?s[idx := None] ! i)"
      unfolding s1 length_list_update by auto
    have collapse: "slab_upd slab free live c p1 = slab_upd slab free live c p"
      using p1 slab_upd_sel(11) by metis
    have nth: "\<forall>i < length slab. slab ! i =
         (if i \<in> set (idx # idxs) \<and> settled st (?s ! i) then None else ?s ! i)"
      using IH(3,4) idx True by (auto simp: nth_list_update settled_def)
    show ?thesis
      using IH(1,2,3) True nth by (intro exI [of _ slab] exI [of _ free] exI [of _ live] exI [of _ c])
        (simp add: step collapse del: wp_sweep_waiters_loop.simps)
  qed
qed

text \<open>A sweep drops exactly the waiters whose reply is settled, and keeps the others in order.\<close>

lemma sweep_waiters_spec:
  assumes "wait_inv p"
  obtains slab free live c where
    "wp_sweep_waiters st p = Some ((slab_upd slab free live c p)
       \<lparr>wp_waiter_queue := filter (\<lambda>i. slab ! i \<noteq> None) (wp_waiter_queue p)\<rparr>)"
    "wait_inv ((slab_upd slab free live c p)
       \<lparr>wp_waiter_queue := filter (\<lambda>i. slab ! i \<noteq> None) (wp_waiter_queue p)\<rparr>)"
    "parked ((slab_upd slab free live c p)
       \<lparr>wp_waiter_queue := filter (\<lambda>i. slab ! i \<noteq> None) (wp_waiter_queue p)\<rparr>)
     = filter (\<lambda>w. st w = SlotOpen) (parked p)"
proof -
  let ?s = "wp_waiter_slab p" and ?q = "wp_waiter_queue p"
  have inv: "slab_inv p" and q: "distinct ?q" "set ?q = occupied ?s"
    using assms by (auto simp: wait_inv_def)
  obtain slab free live c where L: "wp_sweep_waiters_loop st [0..<length ?s] False p
        = Some (\<exists>i < length ?s. settled st (?s ! i), slab_upd slab free live c p)"
      "slab_inv (slab_upd slab free live c p)" "length slab = length ?s"
      "\<forall>i < length slab. slab ! i = (if settled st (?s ! i) then None else ?s ! i)"
    using sweep_waiters_loop_spec [OF inv, of "[0..<length ?s]" st False]
    by (auto simp: atLeast0LessThan Bex_def)
  let ?p' = "(slab_upd slab free live c p)\<lparr>wp_waiter_queue := filter (\<lambda>i. slab ! i \<noteq> None) ?q\<rparr>"
  have keep: "filter (\<lambda>i. slab ! i \<noteq> None) ?q = ?q" if "\<not> (\<exists>i < length ?s. settled st (?s ! i))"
    using that q(2) L(3,4) by (auto simp: filter_id_conv occupied_def)
  have same: "slab_upd slab free live c p
      = (slab_upd slab free live c p)\<lparr>wp_waiter_queue := ?q\<rparr>" by (simp add: slab_upd_def)
  have 1: "wp_sweep_waiters st p = Some ?p'"
    using keep same by (auto simp: wp_sweep_waiters_def L(1))
  have qi: "i < length ?s \<and> (\<exists>w. ?s ! i = Some w)" if "i \<in> set ?q" for i
    using that q(2) by (auto simp: occupied_iff)
  have open_iff: "slab ! i \<noteq> None \<longleftrightarrow> st (the (?s ! i)) = SlotOpen" if "i \<in> set ?q" for i
    using qi [OF that] L(3,4) by (auto simp: settled_def)
  have "set (filter (\<lambda>i. slab ! i \<noteq> None) ?q) = occupied slab"
    using q(2) L(3,4) by (auto simp: occupied_def split: if_splits)
  then have 2: "wait_inv ?p'"
    using L(2) q(1) assms by (simp add: wait_inv_def slab_inv_def)
  have "parked ?p' = map (\<lambda>i. the (?s ! i)) (filter (\<lambda>i. slab ! i \<noteq> None) ?q)"
    using qi L(3,4) by (auto simp: parked_def)
  also have "\<dots> = filter (\<lambda>w. st w = SlotOpen) (parked p)"
    using filter_cong [OF refl open_iff, of "?q" "\<lambda>i. i"] by (simp add: parked_def filter_map o_def)
  finally show ?thesis using that 1 2 by blast
qed

text \<open>The two halves of the state: what waiter operations touch and what resource operations touch.\<close>

definition res_view where
  "res_view p = (wp_fixed p, wp_closed p, wp_states p, wp_resources p, wp_created_at p,
     wp_idle_since p, wp_idle p, wp_in_flight p)"

definition wait_view where
  "wait_view p = (wp_config p, wp_closed p, wp_waiter_slab p, wp_free_waiter_slots p,
     wp_live_waiters p, wp_waiter_queue p)"

lemma res_view_cong:
  assumes "res_view p = res_view q"
  shows "res_inv p = res_inv q" "idle_inv L p = idle_inv L q" "spents p = spents q"
    "wp_fixed p = wp_fixed q" "wp_closed p = wp_closed q" "wp_idle p = wp_idle q"
    "wp_states p = wp_states q" "wp_in_flight p = wp_in_flight q"
  using assms by (simp_all add: res_view_def inv_defs spents_def wp_fixed_def)

lemma wait_view_cong:
  assumes "wait_view p = wait_view q"
  shows "wait_inv p = wait_inv q" "parked p = parked q" "wp_closed p = wp_closed q"
    "wp_free_waiter_slots p = wp_free_waiter_slots q"
  using assms by (simp_all add: wait_view_def inv_defs parked_def)

lemma sweep_waiters_total:
  assumes "wait_inv p"
  obtains q where "wp_sweep_waiters st p = Some q" "wait_inv q" "res_view q = res_view p"
    "parked q = filter (\<lambda>w. st w = SlotOpen) (parked p)"
  using assms
  by (rule sweep_waiters_spec [where st = st]) (auto simp: res_view_def slab_upd_def wp_fixed_def)

lemma sweep_waiters_spec_eq:
  assumes "wait_inv p" and "wp_sweep_waiters st p = Some q"
  shows "wait_inv q" "res_view q = res_view p" "parked q = filter (\<lambda>w. st w = SlotOpen) (parked p)"
  using sweep_waiters_total [OF assms(1), of st] assms(2) by auto

lemma length_parked: "wait_inv p \<Longrightarrow> length (parked p) = wp_live_waiters p"
  using distinct_card [of "wp_waiter_queue p"] by (simp add: wait_inv_def slab_inv_def parked_def)

lemma free_slots_iff:
  assumes "wait_inv p"
  shows "wp_free_waiter_slots p = [] \<longleftrightarrow> length (parked p) = cfg_max_waiters (wp_config p)"
proof -
  have "card (occupied (wp_waiter_slab p)) + card (vacant (wp_waiter_slab p)) = cfg_max_waiters (wp_config p)"
    using assms card_occupied_vacant [of "wp_waiter_slab p"] by (simp add: wait_inv_def slab_inv_def)
  moreover have "card (vacant (wp_waiter_slab p)) = length (wp_free_waiter_slots p)"
    using assms distinct_card [of "wp_free_waiter_slots p"] by (simp add: wait_inv_def slab_inv_def)
  ultimately show ?thesis
    using length_parked [OF assms] assms by (auto simp: wait_inv_def slab_inv_def)
qed

section \<open>Confirming dispatches\<close>

lemma recover_dispatched_spec:
  assumes "res_inv p" and "idle_inv {} p" and "i < length (wp_states p)"
  obtains q where "wp_recover_dispatched i g p = Some q" "res_inv q" "idle_inv {} q"
    "wait_view q = wait_view p" "spents q = spents p" "wp_fixed q = wp_fixed p"
    "wp_in_flight q = wp_in_flight p"
proof (cases "wp_states p ! i = ResLeased g")
  case False
  then have "wp_recover_dispatched i g p = Some p"
    using assms(3) by (cases "wp_states p ! i") (auto simp: wp_recover_dispatched_def)
  then show ?thesis using that assms by blast
next
  case True
  let ?q = "p\<lparr>wp_states := (wp_states p)[i := ResIdle (sat_add g 1)],
    wp_idle_since := (wp_idle_since p)[i := None], wp_idle := wp_idle p @ [i],
    wp_counters := (wp_counters p)\<lparr>pct_dispatch_recovered := pct_dispatch_recovered (wp_counters p) + 1\<rparr>\<rparr>"
  have "wp_recover_dispatched i g p = Some ?q" using True assms(3) by (simp add: wp_recover_dispatched_def)
  moreover have "res_inv ?q" using assms(1,3) True by (auto simp: res_inv_def nth_list_update)
  moreover have "i \<notin> idle_slots (wp_states p)" using True by (simp add: idle_slots_def)
  then have "idle_inv {} ?q"
    using assms(2,3) by (auto simp: idle_inv_def idle_slots_update)
  moreover have "spents ?q = spents p"
    using True assms(3) by (simp add: spents_def map_update list_update_same_conv)
  ultimately show ?thesis using that by (simp add: wait_view_def wp_fixed_def)
qed

declare wp_sweep_in_flight.simps [code]

lemma sweep_in_flight_total:
  assumes "res_inv p" and "idle_inv {} p"
  shows "\<exists>q. wp_sweep_in_flight st i p = Some q \<and> res_inv q \<and> idle_inv {} q
    \<and> wait_view q = wait_view p \<and> spents q = spents p \<and> wp_fixed q = wp_fixed p
    \<and> ((\<forall>e \<in> set (wp_in_flight p). st (ifd_slot e) \<noteq> SlotClosed) \<longrightarrow> wp_idle q = wp_idle p)"
  using assms
proof (induction "length (wp_in_flight p) - i" arbitrary: i p rule: less_induct)
  case less
  show ?case
  proof (cases "i < length (wp_in_flight p)")
    case False
    then show ?thesis using less.prems by (simp add: wp_sweep_in_flight.simps)
  next
    case True
    define e where "e = wp_in_flight p ! i"
    define p1 where "p1 = p\<lparr>wp_in_flight := swap_remove i (wp_in_flight p)\<rparr>"
    have sub: "set (swap_remove i (wp_in_flight p)) \<subseteq> set (wp_in_flight p)"
      using mset_swap_remove [OF True] by (metis set_mset_add_mset_insert set_mset_mset subset_insertI)
    have len: "length (wp_in_flight p1) - i < length (wp_in_flight p) - i"
      using True by (simp add: p1_def length_swap_remove)
    have inv1: "res_inv p1" "idle_inv {} p1"
      using less.prems sub by (auto simp: p1_def res_inv_def idle_inv_def)
    have v1: "wait_view p1 = wait_view p" "spents p1 = spents p" "wp_fixed p1 = wp_fixed p"
      by (simp_all add: p1_def wait_view_def spents_def wp_fixed_def)
    have step: "wp_sweep_in_flight st i p = (case st (ifd_slot e) of
        SlotOpen \<Rightarrow> wp_sweep_in_flight st (i + 1) p
      | SlotReplied \<Rightarrow> wp_sweep_in_flight st i p1
      | SlotClosed \<Rightarrow> Option.bind (wp_recover_dispatched (ifd_resource_id e) (ifd_generation e) p1)
          (wp_sweep_in_flight st i))"
      unfolding e_def p1_def using True
      by (subst wp_sweep_in_flight.simps) (simp add: Let_def split: deferred_slot_state.split)
    show ?thesis
    proof (cases "st (ifd_slot e)")
      case SlotOpen
      then show ?thesis using less.hyps [of p "i + 1"] less.prems True by (simp add: step)
    next
      case SlotReplied
      then show ?thesis
        using less.hyps [OF len inv1] v1 sub unfolding step by (auto simp: p1_def)
    next
      case SlotClosed
      have "e \<in> set (wp_in_flight p)" using True by (simp add: e_def)
      then have "ifd_resource_id e < length (wp_states p1)"
        using less.prems(1) by (auto simp: res_inv_def p1_def)
      then obtain p2 where p2: "wp_recover_dispatched (ifd_resource_id e) (ifd_generation e) p1 = Some p2"
        "res_inv p2" "idle_inv {} p2" "wait_view p2 = wait_view p1" "spents p2 = spents p1"
        "wp_fixed p2 = wp_fixed p1" "wp_in_flight p2 = wp_in_flight p1"
        using recover_dispatched_spec [OF inv1] by metis
      have "\<not> (\<forall>e \<in> set (wp_in_flight p). st (ifd_slot e) \<noteq> SlotClosed)"
        using \<open>e \<in> set (wp_in_flight p)\<close> SlotClosed by blast
      then show ?thesis using less.hyps [of p2 i] len p2 v1 SlotClosed by (auto simp: step)
    qed
  qed
qed

section \<open>Granting a lease\<close>

definition granted :: "('h, 'r) worker_pool \<Rightarrow> 'h pool_lease \<Rightarrow> ('h, 'r) worker_pool \<Rightarrow> bool" where
  "granted p l q \<longleftrightarrow> lease_pool_id l = wp_pool_id p \<and> lease_resource_id l < length (spents p)
     \<and> lease_generation l = spents p ! lease_resource_id l
     \<and> spents q = (spents p)[lease_resource_id l := sat_add (lease_generation l) 1]"

lemma granted_cong:
  "spents p1 = spents p \<Longrightarrow> wp_fixed p1 = wp_fixed p \<Longrightarrow> granted p1 l q = granted p l q"
  by (simp add: granted_def wp_fixed_def)

text \<open>Minting and recording the dispatch of a resource that no queue holds any more.\<close>

lemma grant_total:
  assumes "res_inv p" and "idle_inv {i} p" and "i \<in> idle_slots (wp_states p)"
  obtains l p1 where "wp_mint_lease i p = Some (l, p1)" "lease_resource_id l = i" "granted p l p1"
    "\<And>slot. res_inv (wp_track_dispatch i (lease_generation l) slot p1)"
    "\<And>slot. idle_inv {} (wp_track_dispatch i (lease_generation l) slot p1)"
    "\<And>slot. wait_view (wp_track_dispatch i (lease_generation l) slot p1) = wait_view p"
    "\<And>slot. wp_fixed (wp_track_dispatch i (lease_generation l) slot p1) = wp_fixed p"
    "\<And>slot. wp_idle (wp_track_dispatch i (lease_generation l) slot p1) = wp_idle p"
    "\<And>slot. granted p l (wp_track_dispatch i (lease_generation l) slot p1)"
proof -
  obtain g where g: "wp_states p ! i = ResIdle g" and i: "i < length (wp_states p)"
    using assms(3) by (cases "wp_states p ! i") (auto simp: idle_slots_def)
  have "i < length (wp_resources p)" "wp_resources p ! i \<noteq> None" using assms(1) i g by (auto simp: res_inv_def)
  then obtain h where h: "wp_resources p ! i = Some h" "i < length (wp_resources p)" by blast
  let ?l = "authority_lease (wp_pool_id p) i g h"
  let ?p1 = "p\<lparr>wp_idle_since := (wp_idle_since p)[i := None], wp_states := (wp_states p)[i := ResLeased g]\<rparr>"
  let ?q = "wp_track_dispatch i (lease_generation ?l)"
  have s: "spents ?p1 = (spents p)[i := sat_add g 1]" "spents p ! i = g" "i < length (spents p)"
    using g i by (simp_all add: spents_def map_update)
  have "wp_mint_lease i p = Some (?l, ?p1)" using g i h by (simp add: wp_mint_lease_def)
  moreover have "res_inv (?q slot ?p1)" for slot
    using assms(1) g i by (auto simp: res_inv_def wp_track_dispatch_def nth_list_update)
  moreover have "idle_inv {} (?q slot ?p1)" for slot
    using assms(2) i by (auto simp: idle_inv_def wp_track_dispatch_def idle_slots_update)
  moreover have "granted p ?l ?p1" using s by (simp add: granted_def authority_lease_def)
  moreover have "granted p ?l (?q slot ?p1)" for slot
    using s by (simp add: granted_def authority_lease_def wp_track_dispatch_def spents_def)
  ultimately show ?thesis
    using that [of ?l ?p1]
    by (simp add: authority_lease_def wait_view_def wp_fixed_def wp_track_dispatch_def)
qed

lemma pop_waiter:
  assumes "wait_inv p" and "wp_waiter_queue p = idx # queue"
  obtains w p1 where "wp_remove_waiter_slot idx (p\<lparr>wp_waiter_queue := queue\<rparr>) = Some (Some w, p1)"
    "wait_inv p1" "res_view p1 = res_view p" "parked p = w # parked p1"
proof -
  let ?s = "wp_waiter_slab p" and ?p0 = "p\<lparr>wp_waiter_queue := queue\<rparr>"
  have q: "idx \<notin> set queue" "distinct queue" "insert idx (set queue) = occupied ?s"
    using assms by (auto simp: wait_inv_def)
  then obtain w where w: "idx < length ?s" "?s ! idx = Some w" by (metis insertI1 occupied_iff)
  have sl: "slab_inv ?p0" using assms(1) by (simp add: wait_inv_def slab_inv_def)
  let ?p1 = "?p0\<lparr>wp_waiter_slab := (wp_waiter_slab ?p0)[idx := None],
    wp_live_waiters := wp_live_waiters ?p0 - 1, wp_free_waiter_slots := wp_free_waiter_slots ?p0 @ [idx]\<rparr>"
  have eq: "wp_remove_waiter_slot idx ?p0 = Some (Some w, ?p1)"
    using remove_waiter_slot_eq [OF sl, of idx] w by simp
  have "slab_inv ?p1" using slab_inv_remove [OF sl, of idx w] w by simp
  moreover have "wp_closed p = None" using assms by (auto simp: wait_inv_def)
  ultimately have "wait_inv ?p1" using q by (auto simp: wait_inv_def slab_simps)
  moreover have "parked p = w # parked ?p1"
    using assms(2) q(1) w by (auto simp: parked_def nth_list_update)
  ultimately show ?thesis using that eq by (simp add: res_view_def wp_fixed_def)
qed

definition handed ::
    "'r list \<Rightarrow> ('h, 'r) worker_pool \<Rightarrow> ('h, 'r) pool_effect option \<Rightarrow> ('h, 'r) worker_pool \<Rightarrow> bool" where
  "handed ws p e q \<longleftrightarrow> (case ws of
     [] \<Rightarrow> e = None \<and> parked q = [] \<and> spents q = spents p
   | w # ws' \<Rightarrow> parked q = ws' \<and> wp_idle q = wp_idle p \<and> (\<exists>l. e = Some (ReplyTo w (RepAcquire (Acquired l))) \<and> granted p l q))"

lemma dispatch_loop_total:
  assumes "wait_inv p" and "res_inv p" and "idle_inv {i} p" and "i \<in> idle_slots (wp_states p)"
  shows "\<exists>e q. wp_dispatch_loop i (wp_waiter_queue p) p = Some (e, q) \<and> wp_inv q
    \<and> wp_fixed q = wp_fixed p \<and> handed (parked p) p e q"
proof (cases "wp_waiter_queue p")
  case Nil
  let ?q = "p\<lparr>wp_idle := wp_idle p @ [i]\<rparr>"
  have "idle_inv {} ?q" using assms(3,4) by (auto simp: idle_inv_def)
  then have "wp_inv ?q" using assms(1,2) by (simp add: wp_inv_def wait_inv_def slab_inv_def res_inv_def)
  then show ?thesis
    using Nil by (simp add: handed_def parked_def spents_def wp_fixed_def)
next
  case (Cons idx queue)
  then obtain w p1 where p1: "wp_remove_waiter_slot idx (p\<lparr>wp_waiter_queue := queue\<rparr>) = Some (Some w, p1)"
    "wait_inv p1" "res_view p1 = res_view p" "parked p = w # parked p1"
    using pop_waiter [OF assms(1)] by metis
  note v = res_view_cong [OF p1(3)]
  have r1: "res_inv p1" "idle_inv {i} p1" "i \<in> idle_slots (wp_states p1)" using assms v by auto
  obtain l p2 where p2: "wp_mint_lease i p1 = Some (l, p2)"
      "\<And>slot. res_inv (wp_track_dispatch i (lease_generation l) slot p2)"
      "\<And>slot. idle_inv {} (wp_track_dispatch i (lease_generation l) slot p2)"
      "\<And>slot. wait_view (wp_track_dispatch i (lease_generation l) slot p2) = wait_view p1"
      "\<And>slot. wp_fixed (wp_track_dispatch i (lease_generation l) slot p2) = wp_fixed p1"
      "\<And>slot. granted p1 l (wp_track_dispatch i (lease_generation l) slot p2)"
      "\<And>slot. wp_idle (wp_track_dispatch i (lease_generation l) slot p2) = wp_idle p1"
    using grant_total [OF r1] by metis
  let ?q = "wp_track_dispatch i (lease_generation l) w p2"
  have "wp_dispatch_loop i (wp_waiter_queue p) p = Some (Some (ReplyTo w (RepAcquire (Acquired l))), ?q)"
    using Cons p1(1) p2(1) by simp
  moreover have "wp_inv ?q"
    using p2(2,3) wait_view_cong [OF p2(4)] p1(2) by (simp add: wp_inv_def)
  moreover have "wp_fixed ?q = wp_fixed p" using p2(5) v by simp
  moreover have "granted p l ?q"
    using p2(6) [of w] granted_cong [OF v(3,4)] by simp
  ultimately show ?thesis
    using p1(4) wait_view_cong(2) [OF p2(4)] p2(7) v(6) by (auto simp: handed_def)
qed

lemma dispatch_total:
  assumes "wait_inv p" and "res_inv p" and "idle_inv {i} p" and "i \<in> idle_slots (wp_states p)"
  obtains e q where "wp_dispatch_to_next_waiter st i p = Some (e, q)" "wp_inv q"
    "wp_fixed q = wp_fixed p" "handed (filter (\<lambda>w. st w = SlotOpen) (parked p)) p e q"
proof -
  obtain p1 where p1: "wp_sweep_waiters st p = Some p1" "wait_inv p1" "res_view p1 = res_view p"
      "parked p1 = filter (\<lambda>w. st w = SlotOpen) (parked p)"
    using sweep_waiters_total [OF assms(1)] by metis
  note v = res_view_cong [OF p1(3)]
  have "res_inv p1" "idle_inv {i} p1" "i \<in> idle_slots (wp_states p1)" using assms v by auto
  from dispatch_loop_total [OF p1(2) this]
  obtain e q where eq: "wp_dispatch_loop i (wp_waiter_queue p1) p1 = Some (e, q)" "wp_inv q"
    "wp_fixed q = wp_fixed p1" "handed (parked p1) p1 e q" by blast
  have "handed (parked p1) p e q"
    using eq(4) granted_cong [OF v(3,4)] v(3,6) by (auto simp: handed_def split: list.splits)
  then show ?thesis using that eq p1(1,4) v(4) by (simp add: wp_dispatch_to_next_waiter_def)
qed

end
