(* ===== verification/Pool_Turns.thy ===== *)
theory Pool_Turns
  imports Pool_Invariant
begin

text \<open>
  What a turn of the worker pool does, message by message: it keeps the invariant, it implements a
  step of an abstract bounded FIFO of waiting callers, and it mints at most one lease, under the
  next unused generation of its resource.
\<close>

section \<open>The specification of a turn\<close>

fun leases_of :: "('h, 'r) pool_effect list \<Rightarrow> 'h pool_lease list" where
  "leases_of [] = []"
| "leases_of (ReplyTo _ (RepAcquire (Acquired l)) # es) = l # leases_of es"
| "leases_of (ReplyNow (RepAcquire (Acquired l)) # es) = l # leases_of es"
| "leases_of (_ # es) = leases_of es"

text \<open>
  \<open>queue_step m own ws effs ws'\<close>: with the callers \<open>ws\<close> waiting, oldest first, room for \<open>m\<close> of
  them, and \<open>own\<close> the caller of this turn, the pool may emit \<open>effs\<close> and leave \<open>ws'\<close> waiting.
\<close>

inductive queue_step ::
    "nat \<Rightarrow> 'r option \<Rightarrow> 'r list \<Rightarrow> ('h, 'r) pool_effect list \<Rightarrow> 'r list \<Rightarrow> bool" where
  told: "r \<noteq> RepClosed \<Longrightarrow> queue_step m own ws [ReplyNow r] ws"
| silent: "queue_step m None ws [] ws"
| park: "length ws < m \<Longrightarrow> queue_step m (Some s) ws [] (ws @ [s])"
| full: "length ws = m \<Longrightarrow> queue_step m (Some s) ws [ReplyTo s (RepAcquire AcquireFull)] ws"
| grant: "queue_step m (Some s) ws [ReplyTo s (RepAcquire (Acquired l))] ws"
| hand_over: "r \<in> {RepRelease Released, RepRefilled Refilled} \<Longrightarrow>
    queue_step m own (w # ws) [ReplyTo w (RepAcquire (Acquired l)), ReplyNow r] ws"
| close: "mset rs = mset ws \<Longrightarrow>
    queue_step m own ws (map (\<lambda>w. ReplyTo w (RepAcquire AcquireClosed)) rs @ [ReplyNow RepClosed]) []"

definition mints :: "('h, 'r) worker_pool \<Rightarrow> 'h pool_lease list \<Rightarrow> ('h, 'r) worker_pool \<Rightarrow> bool" where
  "mints p ls q \<longleftrightarrow> (ls = [] \<and> spents q = spents p) \<or> (\<exists>l. ls = [l] \<and> granted p l q)"

definition turn_ok ::
    "'r option \<Rightarrow> ('h, 'r) worker_pool \<Rightarrow> ('h, 'r) pool_effect list \<Rightarrow> ('h, 'r) worker_pool \<Rightarrow> bool" where
  "turn_ok own p effs q \<longleftrightarrow> wp_inv q \<and> wp_fixed q = wp_fixed p
     \<and> queue_step (cfg_max_waiters (wp_config p)) own (parked p) effs (parked q)
     \<and> mints p (leases_of effs) q \<and> (no_stall p \<longrightarrow> no_stall q)"

lemma turn_ok_told:
  assumes "wp_inv q" "wp_fixed q = wp_fixed p" "parked q = parked p" "spents q = spents p"
    and "r \<noteq> RepClosed" "\<And>l. r \<noteq> RepAcquire (Acquired l)" "no_stall p \<Longrightarrow> no_stall q"
  shows "turn_ok own p [ReplyNow r] q"
proof -
  have "leases_of [ReplyNow r :: ('a, 'b) pool_effect] = []"
    using assms(6) by (cases "[ReplyNow r :: ('a, 'b) pool_effect]" rule: leases_of.cases) auto
  then show ?thesis using assms by (auto simp: turn_ok_def mints_def intro: queue_step.told)
qed

section \<open>Acquire\<close>

lemma acquire_slot_ok:
  assumes "wp_inv p" and "wp_closed p = None"
  shows "\<exists>effs q. wp_handle_acquire_slot slot p = Some (effs, q) \<and> turn_ok (Some slot) p effs q"
proof (cases "wp_idle p")
  case (Cons i idle)
  let ?p0 = "p\<lparr>wp_idle := idle\<rparr>"
  have idle: "i \<in> idle_slots (wp_states ?p0)" "res_inv ?p0" "idle_inv {i} ?p0"
    using assms Cons by (auto simp: wp_inv_def idle_inv_def res_inv_def)
  obtain l p1 where p1: "wp_mint_lease i ?p0 = Some (l, p1)"
    "\<And>slot. res_inv (wp_track_dispatch i (lease_generation l) slot p1)"
    "\<And>slot. idle_inv {} (wp_track_dispatch i (lease_generation l) slot p1)"
    "\<And>slot. wait_view (wp_track_dispatch i (lease_generation l) slot p1) = wait_view ?p0"
    "\<And>slot. wp_fixed (wp_track_dispatch i (lease_generation l) slot p1) = wp_fixed ?p0"
    "\<And>slot. granted ?p0 l (wp_track_dispatch i (lease_generation l) slot p1)"
    "\<And>slot. wp_idle (wp_track_dispatch i (lease_generation l) slot p1) = wp_idle ?p0"
    using grant_total [OF idle(2,3,1)] by metis
  let ?q = "wp_track_dispatch i (lease_generation l) slot p1"
  have v: "wait_view ?p0 = wait_view p" "wp_fixed ?p0 = wp_fixed p" "spents ?p0 = spents p"
    by (simp_all add: wait_view_def wp_fixed_def spents_def)
  have "wait_view ?q = wait_view p" using p1(4) v(1) by simp
  note w = wait_view_cong [OF this]
  have "wp_inv ?q" using assms(1) w(1) p1(2,3) by (simp add: wp_inv_def)
  moreover have "granted p l ?q" using p1(6) granted_cong [OF v(3,2)] by simp
  ultimately have "turn_ok (Some slot) p [ReplyTo slot (RepAcquire (Acquired l))] ?q"
    using p1(5,7) v(2) w(2) Cons by (auto simp: turn_ok_def mints_def no_stall_def intro: queue_step.grant)
  then show ?thesis using Cons p1(1) by (simp add: wp_handle_acquire_slot_def)
next
  case Nil
  have inv: "wait_inv p" "slab_inv p" using assms(1) by (auto simp: wp_inv_def wait_inv_def)
  note free = free_slots_iff [OF inv(1)]
  show ?thesis
  proof (cases "wp_free_waiter_slots p = []")
    case True
    then show ?thesis
      using Nil assms free
      by (auto simp: wp_handle_acquire_slot_def turn_ok_def mints_def intro: queue_step.full)
  next
    case False
    let ?s = "wp_waiter_slab p" and ?idx = "last (wp_free_waiter_slots p)"
    let ?p2 = "p\<lparr>wp_free_waiter_slots := butlast (wp_free_waiter_slots p),
      wp_waiter_slab := ?s[?idx := Some slot], wp_live_waiters := wp_live_waiters p + 1,
      wp_waiter_queue := wp_waiter_queue p @ [?idx]\<rparr>"
    have "?idx \<in> vacant ?s" using False inv(2) last_in_set by (auto simp: slab_inv_def)
    then have idx: "?idx < length ?s" "?s ! ?idx = None" "?idx \<notin> occupied ?s"
      by (auto simp: vacant_def occupied_def)
    have "set (butlast (wp_free_waiter_slots p)) = set (wp_free_waiter_slots p) - {?idx}"
      using False inv(2) by (metis append_butlast_last_id slab_inv_def distinct_append
          Diff_insert_absorb Un_empty_right Un_insert_right list.set(1) list.simps(15) set_append
          disjoint_insert(1))
    then have w2: "wait_inv ?p2"
      using inv(1) idx assms(2) distinct_butlast
      by (auto simp: wait_inv_def slab_inv_def slab_simps)
    have pk: "parked ?p2 = parked p @ [slot]"
      using inv(1) idx by (auto simp: parked_def wait_inv_def nth_list_update)
    have r2: "res_view ?p2 = res_view p" by (simp add: res_view_def wp_fixed_def)
    note v = res_view_cong [OF r2]
    have "wp_inv ?p2" using assms(1) w2 v by (simp add: wp_inv_def)
    moreover have "length (parked p) < cfg_max_waiters (wp_config p)"
      using False free length_parked [OF inv(1)] inv(2) card_occupied_vacant [of ?s]
      by (simp add: slab_inv_def)
    ultimately have ok: "turn_ok (Some slot) p [] ?p2"
      using pk v Nil by (auto simp: turn_ok_def mints_def no_stall_def intro: queue_step.park)
    have "turn_ok (Some slot) p [] (wp_bump_waiter_high_water ?p2)"
      using ok unfolding wp_bump_waiter_high_water_def turn_ok_def mints_def granted_def by simp
    then show ?thesis
      using Nil False idx
      by (simp add: wp_handle_acquire_slot_def wp_alloc_waiter_slot_def wp_store_waiter_slot_def)
  qed
qed

definition own_of :: "take_reply_slot_error + 'r \<Rightarrow> 'r option" where
  "own_of ctx = (case ctx of Inl _ \<Rightarrow> None | Inr slot \<Rightarrow> Some slot)"

lemma acquire_ok:
  assumes "wp_inv p"
  shows "\<exists>effs q. wp_handle_acquire ctx p = Some (effs, q) \<and> turn_ok (own_of ctx) p effs q"
proof (cases "wp_closed p = None")
  case False
  then show ?thesis
    using assms by (auto simp: wp_handle_acquire_def count_closed_def intro!: turn_ok_told)
next
  case True
  show ?thesis
  proof (cases ctx)
    case (Inl e)
    then show ?thesis
      using True assms
      by (cases e) (auto simp: wp_handle_acquire_def own_of_def turn_ok_def mints_def
          intro: queue_step.silent queue_step.told)
  next
    case (Inr slot)
    then show ?thesis
      using acquire_slot_ok [OF assms True, of slot] True
      by (simp add: wp_handle_acquire_def own_of_def)
  qed
qed

section \<open>Release and refill\<close>

lemma idle_slots_not: "wp_states p ! i = s \<Longrightarrow> \<not> is_idle_state s \<Longrightarrow> i \<notin> idle_slots (wp_states p)"
  by (simp add: idle_slots_def)

lemma retire_slot_ok:
  assumes "res_inv p" and "idle_inv {} p" and "i < length (wp_states p)"
    and "\<not> is_idle_state (wp_states p ! i)"
  shows "res_inv (wp_retire_slot i p)" "idle_inv {} (wp_retire_slot i p)"
    "wait_view (wp_retire_slot i p) = wait_view p" "spents (wp_retire_slot i p) = spents p"
    "wp_fixed (wp_retire_slot i p) = wp_fixed p" "wp_idle (wp_retire_slot i p) = wp_idle p"
    "wp_states (wp_retire_slot i p) = (wp_states p)[i := ResRetired (spent_generation (wp_states p ! i))]"
proof -
  have "i \<notin> idle_slots (wp_states p)" using assms(4) by (simp add: idle_slots_def)
  then show "idle_inv {} (wp_retire_slot i p)"
    using assms(2,3) by (auto simp: idle_inv_def wp_retire_slot_def idle_slots_update)
  show "res_inv (wp_retire_slot i p)"
    using assms(1,3) by (auto simp: res_inv_def wp_retire_slot_def nth_list_update)
  show "spents (wp_retire_slot i p) = spents p"
    using assms(3) by (simp add: wp_retire_slot_def spents_def map_update list_update_same_conv)
qed (simp_all add: wp_retire_slot_def wait_view_def wp_fixed_def)

lemma turn_ok_retire:
  assumes "wp_inv p" and "i < length (wp_states p)" and "\<not> is_idle_state (wp_states p ! i)"
    and "r \<noteq> RepClosed" "\<And>l. r \<noteq> RepAcquire (Acquired l)"
  shows "turn_ok own p [ReplyNow r] (wp_retire_slot i p)"
proof -
  have inv: "wait_inv p" "res_inv p" "idle_inv {} p" using assms(1) by (auto simp: wp_inv_def)
  note r = retire_slot_ok [OF inv(2,3) assms(2,3)]
  note w = wait_view_cong [OF r(3)]
  have "wp_inv (wp_retire_slot i p)" using r(1,2) w(1) inv(1) by (simp add: wp_inv_def)
  then show ?thesis by (rule turn_ok_told) (use r w assms in \<open>auto simp: no_stall_def\<close>)
qed

text \<open>A resource made idle inside a handler goes to the oldest waiter whose reply is open.\<close>

lemma dispatch_turn_ok:
  assumes "wait_inv p1" and "res_inv p1" and "idle_inv {i} p1" and "i \<in> idle_slots (wp_states p1)"
    and "wait_view p1 = wait_view p" "spents p1 = spents p" "wp_fixed p1 = wp_fixed p" "wp_idle p1 = wp_idle p"
    and "\<forall>w \<in> set (parked p). st w = SlotOpen" and "r \<in> {RepRelease Released, RepRefilled Refilled}"
  shows "\<exists>e q. wp_dispatch_to_next_waiter st i p1 = Some (e, q)
    \<and> turn_ok own p ((case e of None \<Rightarrow> [] | Some e \<Rightarrow> [e]) @ [ReplyNow r]) q"
proof -
  have pk: "parked p1 = parked p" using wait_view_cong [OF assms(5)] by simp
  have "filter (\<lambda>w. st w = SlotOpen) (parked p1) = parked p"
    using assms(9) pk by (simp add: filter_id_conv)
  then obtain e q where q: "wp_dispatch_to_next_waiter st i p1 = Some (e, q)" "wp_inv q"
    "wp_fixed q = wp_fixed p1" "handed (parked p) p1 e q"
    using dispatch_total [OF assms(1-4), of st] by metis
  have "turn_ok own p ((case e of None \<Rightarrow> [] | Some e \<Rightarrow> [e]) @ [ReplyNow r]) q"
  proof (cases "parked p")
    case Nil
    then have "e = None" "parked q = parked p" "spents q = spents p"
      using q(4) assms(6) by (auto simp: handed_def)
    then show ?thesis using q(2,3) assms(7,10) Nil by (auto simp: no_stall_def intro!: turn_ok_told)
  next
    case (Cons w ws)
    then obtain l where l: "e = Some (ReplyTo w (RepAcquire (Acquired l)))" "granted p1 l q" "parked q = ws"
      "wp_idle q = wp_idle p1"
      using q(4) by (auto simp: handed_def)
    have "leases_of [ReplyTo w (RepAcquire (Acquired l)), ReplyNow r] = [l]" using assms(10) by auto
    then show ?thesis
      using l q(2,3) assms(7,10) Cons granted_cong [OF assms(6,7)]
        assms(8) by (auto simp: turn_ok_def mints_def no_stall_def intro: queue_step.hand_over)
  qed
  then show ?thesis using q(1) by blast
qed

lemma free_lease_turn_ok:
  assumes "wp_inv p" and "wp_closed p = None" and "\<forall>w \<in> set (parked p). st w = SlotOpen"
    and "i < length (wp_states p)" and "\<not> is_idle_state (wp_states p ! i)"
    and "p1 = p\<lparr>wp_states := (wp_states p)[i := ResIdle (spent_generation (wp_states p ! i))],
           wp_resources := rs, wp_created_at := ca, wp_idle_since := ids\<rparr>"
    and "length rs = length (wp_states p)" "length ca = length (wp_states p)" "length ids = length (wp_states p)"
    and "\<forall>j < length (wp_states p). j \<noteq> i \<longrightarrow> rs ! j = wp_resources p ! j" "rs ! i \<noteq> None"
    and "r \<in> {RepRelease Released, RepRefilled Refilled}"
  shows "\<exists>e q. wp_dispatch_to_next_waiter st i p1 = Some (e, q)
    \<and> turn_ok own p ((case e of None \<Rightarrow> [] | Some e \<Rightarrow> [e]) @ [ReplyNow r]) q"
proof (rule dispatch_turn_ok)
  have inv: "wait_inv p" "res_inv p" "idle_inv {} p" using assms(1) by (auto simp: wp_inv_def)
  have ni: "i \<notin> idle_slots (wp_states p)" using assms(5) by (simp add: idle_slots_def)
  show "wait_view p1 = wait_view p" "wp_fixed p1 = wp_fixed p" "wp_idle p1 = wp_idle p"
    by (simp_all add: assms(6) wait_view_def wp_fixed_def)
  then show "wait_inv p1" using inv(1) wait_view_cong(1) by blast
  show "res_inv p1" using inv(2) assms(4,7-11) by (auto simp: assms(6) res_inv_def nth_list_update)
  show "idle_inv {i} p1" using inv(3) ni assms(4) by (auto simp: assms(6) idle_inv_def idle_slots_update)
  show "i \<in> idle_slots (wp_states p1)" using assms(4) by (simp add: assms(6) idle_slots_update)
  show "spents p1 = spents p"
    using assms(4) by (simp add: assms(6) spents_def map_update list_update_same_conv)
qed (use assms in auto)

lemma release_ok:
  assumes "wp_inv p" and "\<forall>w \<in> set (parked p). st w = SlotOpen"
  shows "\<exists>effs q. wp_handle_release st lease disp p = Some (effs, q) \<and> turn_ok own p effs q"
proof -
  let ?i = "lease_resource_id lease" and ?g = "lease_generation lease"
  have inv: "wait_inv p" "res_inv p" "idle_inv {} p" using assms(1) by (auto simp: wp_inv_def)
  have told: "turn_ok own p [ReplyNow (RepRelease r)] p" for r
    by (rule turn_ok_told) (use assms in auto)
  consider (other) "lease_pool_id lease \<noteq> wp_pool_id p" | (range) "?i \<ge> length (wp_states p)"
    | (live) "lease_pool_id lease = wp_pool_id p" "?i < length (wp_states p)" "wp_states p ! ?i = ResLeased ?g"
    | (dead) "lease_pool_id lease = wp_pool_id p" "?i < length (wp_states p)" "wp_states p ! ?i \<noteq> ResLeased ?g"
    by linarith
  then show ?thesis
  proof cases
    case other
    then show ?thesis using told by (auto simp: wp_handle_release_def lease_into_parts_def Let_def)
  next
    case range
    then show ?thesis using told by (auto simp: wp_handle_release_def lease_into_parts_def Let_def)
  next
    case dead
    then show ?thesis
      using told by (cases "wp_states p ! ?i") (auto simp: wp_handle_release_def lease_into_parts_def Let_def)
  next
    case live
    have retire: "turn_ok own p [ReplyNow (RepRelease r)] (wp_retire_slot ?i p)" for r
      by (rule turn_ok_retire) (use assms live in auto)
    let ?p1 = "p\<lparr>wp_states := (wp_states p)[?i := ResIdle (sat_add ?g 1)],
      wp_idle_since := (wp_idle_since p)[?i := None]\<rparr>"
    have open_case: "\<exists>e q. wp_dispatch_to_next_waiter st ?i ?p1 = Some (e, q)
      \<and> turn_ok own p ((case e of None \<Rightarrow> [] | Some e \<Rightarrow> [e]) @ [ReplyNow (RepRelease Released)]) q"
      if "wp_closed p = None"
      by (rule free_lease_turn_ok [where p = p and rs = "wp_resources p" and ca = "wp_created_at p"])
        (use assms that live inv(2) in \<open>auto simp: res_inv_def\<close>)
    have ni: "?i \<notin> idle_slots (wp_states p)" using live by (simp add: idle_slots_def)
    have drain: "turn_ok own p [ReplyNow (RepRelease Released)] ?p1" if "wp_closed p \<noteq> None"
    proof (rule turn_ok_told)
      have "wait_inv ?p1" using inv(1) by (simp add: wait_inv_def slab_inv_def)
      moreover have "res_inv ?p1" using inv(2) live by (auto simp: res_inv_def nth_list_update)
      moreover have "idle_inv {} ?p1"
        using inv(3) that live by (auto simp: idle_inv_def idle_slots_update)
      ultimately show "wp_inv ?p1" by (simp add: wp_inv_def)
      show "spents ?p1 = spents p"
        using live by (simp add: spents_def map_update list_update_same_conv)
    qed (simp_all add: wp_fixed_def parked_def no_stall_def)
    show ?thesis
      using live retire open_case drain
      by (auto simp: wp_handle_release_def lease_into_parts_def Let_def)
  qed
qed

lemma refill_ok:
  assumes "wp_inv p" and "\<forall>w \<in> set (parked p). st w = SlotOpen"
  shows "\<exists>effs q. wp_handle_refill st i handle now p = Some (effs, q) \<and> turn_ok own p effs q"
proof -
  have told: "turn_ok own p [ReplyNow (RepRefilled r)] p" for r
    by (rule turn_ok_told) (use assms in auto)
  show ?thesis
  proof (cases "wp_closed p = None \<and> i < length (wp_states p) \<and> is_retired_state (wp_states p ! i)")
    case False
    then show ?thesis
      using told by (cases "wp_states p ! i") (auto simp: wp_handle_refill_def)
  next
    case True
    then obtain g where g: "wp_states p ! i = ResRetired g" by (cases "wp_states p ! i") auto
    have inv: "res_inv p" using assms(1) by (simp add: wp_inv_def)
    let ?stamp = "if wp_lifetime p \<noteq> None then Some now else None"
    let ?p1 = "p\<lparr>wp_states := (wp_states p)[i := ResIdle g], wp_resources := (wp_resources p)[i := Some handle],
        wp_created_at := (wp_created_at p)[i := ?stamp], wp_idle_since := (wp_idle_since p)[i := ?stamp]\<rparr>"
    have "\<exists>e q. wp_dispatch_to_next_waiter st i ?p1 = Some (e, q)
        \<and> turn_ok own p ((case e of None \<Rightarrow> [] | Some e \<Rightarrow> [e]) @ [ReplyNow (RepRefilled Refilled)]) q"
      by (rule free_lease_turn_ok [where p = p and rs = "(wp_resources p)[i := Some handle]"
            and ca = "(wp_created_at p)[i := ?stamp]"])
        (use assms True g inv in \<open>auto simp: res_inv_def\<close>)
    then show ?thesis using True g by (auto simp: wp_handle_refill_def Let_def)
  qed
qed

section \<open>Close\<close>

lemma retire_leased_ok:
  assumes "res_inv p" and "idle_inv {} p" and "\<forall>i \<in> set idxs. i < length (wp_states p)"
  shows "res_inv (wp_retire_leased idxs p) \<and> idle_inv {} (wp_retire_leased idxs p)
    \<and> wait_view (wp_retire_leased idxs p) = wait_view p \<and> spents (wp_retire_leased idxs p) = spents p
    \<and> wp_fixed (wp_retire_leased idxs p) = wp_fixed p
    \<and> length (wp_states (wp_retire_leased idxs p)) = length (wp_states p)"
  using assms
proof (induction idxs arbitrary: p)
  case (Cons i idxs)
  show ?case
  proof (cases "is_leased_state (wp_states p ! i)")
    case True
    then have "\<not> is_idle_state (wp_states p ! i)" by (cases "wp_states p ! i") auto
    with Cons.prems have r: "res_inv (wp_retire_slot i p)" "idle_inv {} (wp_retire_slot i p)"
      "wait_view (wp_retire_slot i p) = wait_view p" "spents (wp_retire_slot i p) = spents p"
      "wp_fixed (wp_retire_slot i p) = wp_fixed p"
      "length (wp_states (wp_retire_slot i p)) = length (wp_states p)"
      using retire_slot_ok [of p i] by auto
    then show ?thesis using Cons.IH [OF r(1,2)] Cons.prems(3) True by simp
  qed (use Cons in auto)
qed simp

lemma close_waiters_spec:
  assumes "slab_inv p" and "distinct idxs" and "\<forall>i \<in> set idxs. i < length (wp_waiter_slab p)"
  shows "\<exists>slab free live c. wp_close_waiters idxs effs p
        = Some (effs @ map (\<lambda>i. ReplyTo (the (wp_waiter_slab p ! i)) (RepAcquire AcquireClosed))
            (filter (\<lambda>i. wp_waiter_slab p ! i \<noteq> None) idxs), slab_upd slab free live c p)
      \<and> slab_inv (slab_upd slab free live c p) \<and> length slab = length (wp_waiter_slab p)
      \<and> (\<forall>i < length slab. slab ! i = (if i \<in> set idxs then None else wp_waiter_slab p ! i))"
  using assms
proof (induction idxs arbitrary: effs p)
  case Nil
  then show ?case
    by (intro exI [of _ "wp_waiter_slab p"] exI [of _ "wp_free_waiter_slots p"]
        exI [of _ "wp_live_waiters p"] exI [of _ "wp_counters p"])
      (simp add: slab_upd_exhaust [symmetric])
next
  case (Cons idx idxs)
  let ?s = "wp_waiter_slab p"
  let ?out = "\<lambda>s idxs. map (\<lambda>i. ReplyTo (the (s ! i)) (RepAcquire AcquireClosed)) (filter (\<lambda>i. s ! i \<noteq> None) idxs)"
  have idx: "idx < length ?s" "idx \<notin> set idxs" using Cons.prems(2,3) by auto
  show ?case
  proof (cases "?s ! idx")
    case None
    obtain slab free live c where IH: "wp_close_waiters idxs effs p = Some (effs @ ?out ?s idxs, slab_upd slab free live c p)"
      "slab_inv (slab_upd slab free live c p)" "length slab = length ?s"
      "\<forall>i < length slab. slab ! i = (if i \<in> set idxs then None else ?s ! i)"
      using Cons.IH [of p effs] Cons.prems by auto
    then show ?thesis using None
      by (intro exI [of _ slab] exI [of _ free] exI [of _ live] exI [of _ c])
        (auto simp: remove_waiter_slot_eq [OF Cons.prems(1) idx(1)])
  next
    case (Some w)
    define p1 where "p1 = count_closed (p\<lparr>wp_waiter_slab := ?s[idx := None],
        wp_live_waiters := wp_live_waiters p - 1,
        wp_free_waiter_slots := wp_free_waiter_slots p @ [idx]\<rparr>)"
    have p1: "p1 = slab_upd (?s[idx := None]) (wp_free_waiter_slots p @ [idx]) (wp_live_waiters p - 1)
        (wp_counters p1) p"
      by (simp add: p1_def count_closed_def slab_upd_def)
    have s1: "wp_waiter_slab p1 = ?s[idx := None]" by (simp add: p1_def count_closed_def)
    have inv1: "slab_inv p1"
      using slab_inv_remove [OF Cons.prems(1) idx(1) Some] by (simp add: p1_def count_closed_def)
    let ?e = "effs @ [ReplyTo w (RepAcquire AcquireClosed)]"
    have step: "wp_close_waiters (idx # idxs) effs p = wp_close_waiters idxs ?e p1"
      using Some by (simp add: remove_waiter_slot_eq [OF Cons.prems(1) idx(1)] p1_def)
    have out: "?out (?s[idx := None]) idxs = ?out ?s idxs"
    proof (intro map_cong filter_cong refl)
      fix i assume "i \<in> set idxs"
      then have "?s[idx := None] ! i = ?s ! i" using idx(2) by (metis nth_list_update_neq)
      then show "(?s[idx := None] ! i \<noteq> None) = (?s ! i \<noteq> None)" by simp
    next
      fix i assume "i \<in> set (filter (\<lambda>i. ?s ! i \<noteq> None) idxs)"
      then have "i \<noteq> idx" using idx(2) by auto
      then have "?s[idx := None] ! i = ?s ! i" by (metis nth_list_update_neq)
      then show "ReplyTo (the (?s[idx := None] ! i)) (RepAcquire AcquireClosed)
        = ReplyTo (the (?s ! i)) (RepAcquire AcquireClosed)" by simp
    qed
    have "distinct idxs" "\<forall>i \<in> set idxs. i < length (wp_waiter_slab p1)" using Cons.prems by (auto simp: s1)
    from Cons.IH [OF inv1 this, of ?e]
    obtain slab free live c where IH: "wp_close_waiters idxs ?e p1 = Some (?e @ ?out ?s idxs, slab_upd slab free live c p1)"
      "slab_inv (slab_upd slab free live c p1)" "length slab = length ?s"
      "\<forall>i < length slab. slab ! i = (if i \<in> set idxs then None else ?s[idx := None] ! i)"
      unfolding s1 length_list_update out by blast
    have collapse: "slab_upd slab free live c p1 = slab_upd slab free live c p"
      using p1 slab_upd_sel(11) by metis
    have "\<forall>i < length slab. slab ! i = (if i \<in> set (idx # idxs) then None else ?s ! i)"
      using IH(3,4) by (auto simp: nth_list_update)
    then show ?thesis
      using IH(1,2,3) Some by (intro exI [of _ slab] exI [of _ free] exI [of _ live] exI [of _ c])
        (simp add: step collapse del: wp_close_waiters.simps)
  qed
qed

lemma leases_of_closed [simp]:
  "leases_of (map (\<lambda>i. ReplyTo (f i) (RepAcquire AcquireClosed)) is @ [ReplyNow RepClosed]) = []"
  by (induction "is") auto

text \<open>Closing answers every waiter once, in slab order.\<close>

lemma drain_waiters_ok:
  assumes "wait_inv p" and "res_inv p2" and "idle_inv {} p2" and "spents p2 = spents p" and "wp_fixed p2 = wp_fixed p"
    and "wp_waiter_slab p2 = wp_waiter_slab p" "wp_free_waiter_slots p2 = wp_free_waiter_slots p"
    and "wp_live_waiters p2 = wp_live_waiters p"
  shows "\<exists>effs p3. wp_close_waiters [0..<length (wp_waiter_slab p2)] [] p2 = Some (effs, p3)
    \<and> turn_ok own p (effs @ [ReplyNow RepClosed]) (p3\<lparr>wp_waiter_queue := []\<rparr>)"
proof -
  let ?s = "wp_waiter_slab p" and ?n = "length (wp_waiter_slab p)"
  have cfg: "wp_config p2 = wp_config p" using assms(5) by (simp add: wp_fixed_def)
  have "slab_inv p2" using assms(1,6-8) cfg by (simp add: wait_inv_def slab_inv_def)
  from close_waiters_spec [OF this, of "[0..<?n]" "[]"]
  obtain slab free live c where C: "wp_close_waiters [0..<?n] [] p2
      = Some (map (\<lambda>i. ReplyTo (the (?s ! i)) (RepAcquire AcquireClosed)) (filter (\<lambda>i. ?s ! i \<noteq> None) [0..<?n]),
          slab_upd slab free live c p2)"
      "slab_inv (slab_upd slab free live c p2)" "length slab = ?n"
      "\<forall>i < length slab. slab ! i = (if i \<in> {0..<?n} then None else ?s ! i)"
    by (auto simp: assms(6) simp del: map_append)
  let ?q = "(slab_upd slab free live c p2)\<lparr>wp_waiter_queue := []\<rparr>"
  let ?rs = "map (\<lambda>i. the (?s ! i)) (filter (\<lambda>i. ?s ! i \<noteq> None) [0..<?n])"
  have "occupied slab = {}" using C(3,4) by (auto simp: occupied_def)
  then have "wait_inv ?q" using C(2) by (simp add: wait_inv_def slab_inv_def)
  moreover have "res_view ?q = res_view p2" by (simp add: res_view_def wp_fixed_def slab_upd_def)
  note v = res_view_cong [OF this]
  ultimately have "wp_inv ?q" using assms(2,3) by (simp add: wp_inv_def)
  moreover have "mset (filter (\<lambda>i. ?s ! i \<noteq> None) [0..<?n]) = mset (wp_waiter_queue p)"
    using assms(1) by (intro set_eq_iff_mset_eq_distinct [THEN iffD1])
      (auto simp: wait_inv_def occupied_def)
  then have "mset ?rs = mset (parked p)" unfolding parked_def mset_map by simp
  then have "queue_step (cfg_max_waiters (wp_config p)) own (parked p)
      (map (\<lambda>w. ReplyTo w (RepAcquire AcquireClosed)) ?rs @ [ReplyNow RepClosed]) []"
    by (rule queue_step.close)
  ultimately show ?thesis
    using C(1) v(3,4) assms(4,5,6) by (simp add: turn_ok_def mints_def o_def parked_def no_stall_def)
qed

lemma close_ok:
  assumes "wp_inv p"
  shows "\<exists>effs q. wp_handle_close mode p = Some (effs, q) \<and> turn_ok own p effs q"
proof -
  have inv: "wait_inv p" "res_inv p" "idle_inv {} p" using assms by (auto simp: wp_inv_def)
  let ?p1 = "\<lambda>m. p\<lparr>wp_closed := Some m\<rparr>"
  let ?f = "(wp_retire_leased [0..<length (wp_states p)] (?p1 CloseForce))"
  let ?f' = "?f\<lparr>wp_in_flight := []\<rparr>"
  have i1: "res_inv (?p1 m)" "idle_inv {} (?p1 m)" "spents (?p1 m) = spents p" "wp_fixed (?p1 m) = wp_fixed p" for m
    using inv by (auto simp: res_inv_def idle_inv_def spents_def wp_fixed_def)
  have f: "res_inv ?f" "idle_inv {} ?f" "wait_view ?f = wait_view (?p1 CloseForce)" "spents ?f = spents p"
      "wp_fixed ?f = wp_fixed p"
    using retire_leased_ok [OF i1(1,2), of "[0..<length (wp_states p)]" CloseForce] i1(3,4) by auto
  have f': "res_inv ?f'" "idle_inv {} ?f'" "spents ?f' = spents p" "wp_fixed ?f' = wp_fixed p"
    using f by (auto simp: res_inv_def idle_inv_def spents_def wp_fixed_def)
  have ok: "\<exists>effs p3. wp_close_waiters [0..<length (wp_waiter_slab p2)] [] p2 = Some (effs, p3)
      \<and> turn_ok own p (effs @ [ReplyNow RepClosed]) (p3\<lparr>wp_waiter_queue := []\<rparr>)"
    if "p2 = ?f' \<or> p2 = ?p1 CloseDrain \<or> p2 = p" for p2
    by (rule drain_waiters_ok) (use that inv i1 f' f(3) in \<open>auto simp: wait_view_def\<close>)
  show ?thesis
    using ok [of ?f'] ok [of "?p1 CloseDrain"] ok [of p]
    by (auto simp: wp_handle_close_def Let_def split: option.splits close_mode.splits)
qed

end
