(* ===== verification/Pool_Runs.thy ===== *)
theory Pool_Runs
  imports Pool_Turns
begin

text \<open>
  Maintenance sweeps, whole turns and runs of the worker pool. A sweep is characterised exactly by
  the verdict of the lifetime policy on each slot; turns and runs are total under the invariant;
  the generations issued for a resource over a run are consecutive; and every operation moves a
  resource only along its life cycle, so that a generation once passed stays passed.
\<close>

section \<open>Maintenance\<close>

text \<open>Why, if at all, the lifetime policy retires resource \<open>i\<close> at time \<open>now\<close>.\<close>

definition verdict :: "resource_lifetime \<Rightarrow> nat \<Rightarrow> ('h, 'r) worker_pool \<Rightarrow> nat \<Rightarrow> retire_reason option" where
  "verdict lifetime now p i =
     (if \<not> is_idle_state (wp_states p ! i) then None
      else if over_limit (max_lifetime lifetime) (age_at now (wp_created_at p ! i)) then Some MaxLifetime
      else if over_limit (max_idle lifetime)
                (Some (case wp_idle_since p ! i of None \<Rightarrow> 0 | Some t \<Rightarrow> now - t)) then Some IdleTimeout
      else None)"

definition old_lease :: "resource_lifetime \<Rightarrow> nat \<Rightarrow> ('h, 'r) worker_pool \<Rightarrow> nat \<Rightarrow> bool" where
  "old_lease lifetime now p i \<longleftrightarrow> is_leased_state (wp_states p ! i)
     \<and> over_limit (max_lifetime lifetime) (age_at now (wp_created_at p ! i))"

definition swept_report ::
    "resource_lifetime \<Rightarrow> nat \<Rightarrow> ('h, 'r) worker_pool \<Rightarrow> nat \<Rightarrow> resource_policy_report" where
  "swept_report lifetime now p k = policy_report_default
     \<lparr>rpr_inspected := length (filter (\<lambda>i. \<not> is_retired_state (wp_states p ! i)) [0..<k]),
      rpr_retired := concat (map (\<lambda>i. case verdict lifetime now p i of None \<Rightarrow> []
        | Some why \<Rightarrow> [\<lparr>rr_resource_id = i, rr_reason = why, rr_check_point = ScheduledMaintenance\<rparr>]) [0..<k]),
      rpr_over_age_leased := filter (old_lease lifetime now p) [0..<k]\<rparr>"

definition swept_to :: "resource_lifetime \<Rightarrow> nat \<Rightarrow> nat \<Rightarrow> ('h, 'r) worker_pool \<Rightarrow> ('h, 'r) worker_pool \<Rightarrow> bool" where
  "swept_to lifetime now k p q \<longleftrightarrow> wait_view q = wait_view p \<and> wp_fixed q = wp_fixed p
     \<and> wp_idle q = wp_idle p \<and> res_inv q \<and> spents q = spents p
     \<and> wp_states q = map (\<lambda>i. if i < k \<and> verdict lifetime now p i \<noteq> None
           then ResRetired (spent_generation (wp_states p ! i)) else wp_states p ! i) [0..<length (wp_states p)]
     \<and> (\<forall>i. k \<le> i \<and> i < length (wp_states p) \<longrightarrow>
          wp_created_at q ! i = wp_created_at p ! i \<and> wp_idle_since q ! i = wp_idle_since p ! i)"

lemma map_upt_eq_iff: "map f [0..<n] = map g [0..<n] \<longleftrightarrow> (\<forall>i < n. f i = g i)"
  by auto

lemma maintain_slot_step:
  assumes "swept_to lifetime now k p q" and "res_inv p" and "k < length (wp_states p)"
  shows "\<exists>q'. wp_maintain_slot lifetime now k (swept_report lifetime now p k, b, q)
        = (swept_report lifetime now p (Suc k), b \<or> verdict lifetime now p k \<noteq> None, q')
      \<and> swept_to lifetime now (Suc k) p q'"
proof -
  note sw = assms(1)[unfolded swept_to_def]
  have len: "length (wp_states q) = length (wp_states p)" using sw by simp
  have k: "wp_states q ! k = wp_states p ! k" "wp_created_at q ! k = wp_created_at p ! k"
    "wp_idle_since q ! k = wp_idle_since p ! k"
    using sw assms(3) by auto
  have inv: "res_inv q" using sw by blast
  show ?thesis
  proof (cases "wp_states p ! k")
    case (ResIdle g)
    let ?ids = "case wp_idle_since p ! k of None \<Rightarrow> now | Some t \<Rightarrow> t"
    let ?q1 = "q\<lparr>wp_idle_since := (wp_idle_since q)[k := Some ?ids]\<rparr>"
    have age: "now - ?ids = (case wp_idle_since p ! k of None \<Rightarrow> 0 | Some t \<Rightarrow> now - t)"
      by (simp split: option.split)
    have inv1: "res_inv ?q1" using inv by (auto simp: res_inv_def)
    show ?thesis
    proof (cases "verdict lifetime now p k")
      case None
      then have "wp_maintain_slot lifetime now k (swept_report lifetime now p k, b, q)
          = (swept_report lifetime now p (Suc k), b, ?q1)"
        using ResIdle k age
        by (simp add: wp_maintain_slot_def swept_report_def old_lease_def verdict_def Let_def
            split: if_splits)
      moreover have "swept_to lifetime now (Suc k) p ?q1"
        using sw inv1 None by (auto simp: swept_to_def wait_view_def wp_fixed_def spents_def less_Suc_eq)
      ultimately show ?thesis using None by auto
    next
      case (Some why)
      let ?q2 = "wp_retire_slot k ?q1"
      have eq: "wp_maintain_slot lifetime now k (swept_report lifetime now p k, b, q)
          = (swept_report lifetime now p (Suc k), True, ?q2)"
        using Some ResIdle k age
        by (simp add: wp_maintain_slot_def swept_report_def old_lease_def verdict_def Let_def
            split: if_splits)
      have st: "wp_states ?q2 = (wp_states q)[k := ResRetired (spent_generation (wp_states p ! k))]"
        using k by (simp add: wp_retire_slot_def)
      have "wp_states ?q2 = map (\<lambda>i. if i < Suc k \<and> verdict lifetime now p i \<noteq> None
           then ResRetired (spent_generation (wp_states p ! i)) else wp_states p ! i) [0..<length (wp_states p)]"
        unfolding st by (rule nth_equalityI) (use sw Some assms(3) in \<open>auto simp: nth_list_update less_Suc_eq\<close>)
      moreover have "res_inv ?q2" using inv assms(3) len by (auto simp: res_inv_def wp_retire_slot_def nth_list_update)
      moreover have "spents ?q2 = spents q"
        using assms(3) len k(1) by (simp add: st spents_def map_update list_update_same_conv)
      then have "spents ?q2 = spents p" using sw by simp
      ultimately have "swept_to lifetime now (Suc k) p ?q2"
        using sw by (auto simp: swept_to_def wait_view_def wp_fixed_def wp_retire_slot_def)
      then show ?thesis using eq Some by auto
    qed
  next
    case (ResLeased g)
    then have "verdict lifetime now p k = None" by (simp add: verdict_def)
    moreover have "wp_maintain_slot lifetime now k (swept_report lifetime now p k, b, q)
        = (swept_report lifetime now p (Suc k), b, q)"
      using ResLeased k \<open>verdict lifetime now p k = None\<close>
      by (simp add: wp_maintain_slot_def swept_report_def old_lease_def Let_def)
    ultimately show ?thesis using sw by (auto simp: swept_to_def less_Suc_eq)
  next
    case (ResRetired g)
    then have "verdict lifetime now p k = None" by (simp add: verdict_def)
    moreover have "wp_maintain_slot lifetime now k (swept_report lifetime now p k, b, q)
        = (swept_report lifetime now p (Suc k), b, q)"
      using ResRetired k \<open>verdict lifetime now p k = None\<close>
      by (simp add: wp_maintain_slot_def swept_report_def old_lease_def Let_def)
    ultimately show ?thesis using sw by (auto simp: swept_to_def less_Suc_eq)
  qed
qed

lemma maintain_fold:
  assumes "res_inv p" and "k \<le> length (wp_states p)"
  shows "\<exists>q. fold (wp_maintain_slot lifetime now) [0..<k] (policy_report_default, False, p)
      = (swept_report lifetime now p k, \<exists>i < k. verdict lifetime now p i \<noteq> None, q)
    \<and> swept_to lifetime now k p q"
  using assms(2)
proof (induction k)
  case 0
  have "swept_report lifetime now p 0 = policy_report_default"
    by (simp add: swept_report_def policy_report_default_def)
  then show ?case using assms(1) by (simp add: swept_to_def map_nth)
next
  case (Suc k)
  then obtain q where q: "fold (wp_maintain_slot lifetime now) [0..<k] (policy_report_default, False, p)
      = (swept_report lifetime now p k, \<exists>i < k. verdict lifetime now p i \<noteq> None, q)"
    "swept_to lifetime now k p q" by auto
  from maintain_slot_step [OF q(2) assms(1), of "\<exists>i < k. verdict lifetime now p i \<noteq> None"] Suc.prems
  obtain q' where "wp_maintain_slot lifetime now k
      (swept_report lifetime now p k, \<exists>i < k. verdict lifetime now p i \<noteq> None, q)
    = (swept_report lifetime now p (Suc k), (\<exists>i < k. verdict lifetime now p i \<noteq> None)
        \<or> verdict lifetime now p k \<noteq> None, q')" "swept_to lifetime now (Suc k) p q'" by auto
  then show ?case using q(1) by (intro exI [of _ q']) (auto simp: less_Suc_eq)
qed

lemma maintain_spec:
  assumes "wp_inv p" and "wp_closed p = None" and "wp_lifetime p = Some lifetime"
  obtains q where "wp_handle_maintain now p
      = ([ReplyNow (RepMaintenance (wp_fill_report_tail q (swept_report lifetime now p (length (wp_states p)))))], q)"
    "wp_inv q" "wait_view q = wait_view p" "wp_fixed q = wp_fixed p" "spents q = spents p"
    "wp_states q = map (\<lambda>i. if verdict lifetime now p i \<noteq> None
       then ResRetired (spent_generation (wp_states p ! i)) else wp_states p ! i) [0..<length (wp_states p)]"
    "wp_idle q = filter (\<lambda>i. verdict lifetime now p i = None) (wp_idle p)"
proof -
  let ?n = "length (wp_states p)" and ?v = "verdict lifetime now p"
  have inv: "wait_inv p" "res_inv p" "idle_inv {} p" using assms(1) by (auto simp: wp_inv_def)
  obtain q where q: "fold (wp_maintain_slot lifetime now) [0..<?n] (policy_report_default, False, p)
      = (swept_report lifetime now p ?n, \<exists>i < ?n. ?v i \<noteq> None, q)"
    "swept_to lifetime now ?n p q" using maintain_fold [OF inv(2) order.refl] by blast
  note sw = q(2)[unfolded swept_to_def]
  have st: "wp_states q = map (\<lambda>i. if ?v i \<noteq> None then ResRetired (spent_generation (wp_states p ! i))
      else wp_states p ! i) [0..<?n]" using sw by (auto simp: map_upt_eq_iff)
  have idle: "set (wp_idle p) = idle_slots (wp_states p)" using inv(3) assms(2) by (auto simp: idle_inv_def)
  have sel: "is_idle_state (wp_states q ! i) \<longleftrightarrow> ?v i = None" if "i \<in> idle_slots (wp_states p)" for i
    using that by (auto simp: st idle_slots_def)
  let ?q = "q\<lparr>wp_idle := filter (\<lambda>i. ?v i = None) (wp_idle p)\<rparr>"
  have f1: "filter (\<lambda>i. is_idle_state (wp_states q ! i)) (wp_idle p) = filter (\<lambda>i. ?v i = None) (wp_idle p)"
    using sel idle by (intro filter_cong) auto
  have f2: "filter (\<lambda>i. ?v i = None) (wp_idle p) = wp_idle p" if "\<not> (\<exists>i < ?n. ?v i \<noteq> None)"
    using that by (simp add: filter_id_conv idle idle_slots_def)
  have iq: "wp_idle q = wp_idle p" using sw by (elim conjE)
  then have same: "q\<lparr>wp_idle := wp_idle p\<rparr> = q" by (metis (no_types) worker_pool.surjective worker_pool.update_convs(8))
  have eq: "wp_handle_maintain now p
      = ([ReplyNow (RepMaintenance (wp_fill_report_tail ?q (swept_report lifetime now p ?n)))], ?q)"
  proof (cases "\<exists>i < ?n. ?v i \<noteq> None")
    case True
    then show ?thesis using assms(2,3) by (simp add: wp_handle_maintain_def q(1) iq f1 Let_def)
  next
    case False
    have "?q = q" unfolding f2 [OF False] by (rule same)
    then show ?thesis using False assms(2,3) by (auto simp: wp_handle_maintain_def q(1) Let_def)
  qed
  have "idle_slots (wp_states q) = {i \<in> idle_slots (wp_states p). ?v i = None}"
    by (auto simp: st idle_slots_def split: if_splits)
  then have "idle_inv {} ?q" using inv(3) assms(2) idle by (auto simp: idle_inv_def)
  moreover have "res_inv ?q" using sw by (auto simp: res_inv_def)
  moreover have wv: "wait_view ?q = wait_view p" using sw by (simp add: wait_view_def)
  then have "wait_inv ?q" using inv(1) wait_view_cong(1) by blast
  ultimately have "wp_inv ?q" by (simp add: wp_inv_def)
  moreover have "wp_fixed ?q = wp_fixed q" "spents ?q = spents q" "wp_states ?q = wp_states q"
    by (simp_all add: wp_fixed_def spents_def)
  moreover have "wp_fixed q = wp_fixed p" using sw by (elim conjE)
  moreover have "spents q = spents p" using sw by (elim conjE)
  ultimately show ?thesis using that [OF eq _ wv] st by simp
qed

lemma maintain_ok:
  assumes "wp_inv p"
  shows "\<exists>effs q. wp_handle_maintain now p = (effs, q) \<and> turn_ok own p effs q"
proof (cases "wp_closed p = None \<and> wp_lifetime p \<noteq> None")
  case False
  then show ?thesis
    using assms by (auto simp: wp_handle_maintain_def intro!: turn_ok_told)
next
  case True
  then obtain lifetime where lt: "wp_closed p = None" "wp_lifetime p = Some lifetime" by auto
  obtain q r where q: "wp_handle_maintain now p = ([ReplyNow (RepMaintenance r)], q)" "wp_inv q"
    "wait_view q = wait_view p" "wp_fixed q = wp_fixed p" "spents q = spents p"
    "wp_idle q = filter (\<lambda>i. verdict lifetime now p i = None) (wp_idle p)"
    by (rule maintain_spec [OF assms lt, of now]) blast
  have "turn_ok own p [ReplyNow (RepMaintenance r)] q"
    by (rule turn_ok_told) (use q wait_view_cong(2) [OF q(3)] in \<open>auto simp: no_stall_def\<close>)
  then show ?thesis using q(1) by blast
qed

section \<open>Turns and runs\<close>

text \<open>A turn delivers one message, as a plain message or as a call; \<open>st\<close> is what its replies look like.\<close>

datatype ('h, 'r) pool_turn =
    HandleTurn "'r \<Rightarrow> deferred_slot_state" "'h worker_pool_msg" "take_reply_slot_error + 'r"
  | CallTurn "'r \<Rightarrow> deferred_slot_state" "'h worker_pool_msg" 'r

fun wp_turn ::
    "('h, 'r) pool_turn \<Rightarrow> ('h, 'r) worker_pool \<Rightarrow> (('h, 'r) pool_effect list \<times> ('h, 'r) worker_pool) option" where
  "wp_turn (HandleTurn st msg ctx) p = wp_handle st msg ctx p"
| "wp_turn (CallTurn st msg slot) p = wp_handle_call st msg slot p"

fun turn_states :: "('h, 'r) pool_turn \<Rightarrow> 'r \<Rightarrow> deferred_slot_state" where
  "turn_states (HandleTurn st msg ctx) = st"
| "turn_states (CallTurn st msg slot) = st"

fun turn_msg :: "('h, 'r) pool_turn \<Rightarrow> 'h worker_pool_msg" where
  "turn_msg (HandleTurn st msg ctx) = msg"
| "turn_msg (CallTurn st msg slot) = msg"

fun turn_own :: "('h, 'r) pool_turn \<Rightarrow> 'r option" where
  "turn_own (HandleTurn st msg ctx) = own_of ctx"
| "turn_own (CallTurn st msg slot) = Some slot"

fun wp_run ::
    "('h, 'r) pool_turn list \<Rightarrow> ('h, 'r) worker_pool \<Rightarrow> (('h, 'r) pool_effect list \<times> ('h, 'r) worker_pool) option" where
  "wp_run [] p = Some ([], p)"
| "wp_run (t # ts) p = do {
     (es, q) \<leftarrow> wp_turn t p;
     (es', r) \<leftarrow> wp_run ts q;
     Some (es @ es', r)
   }"

lemma dispatch_msg_ok:
  assumes "wp_inv p" and "\<forall>w \<in> set (parked p). st w = SlotOpen"
    and "\<exists>effs q. acquire p = Some (effs, q) \<and> turn_ok own p effs q"
  shows "\<exists>effs q. wp_dispatch_msg st msg acquire p = Some (effs, q) \<and> turn_ok own p effs q"
proof (cases msg)
  case MsgPressureReport
  have "turn_ok own p [ReplyNow (RepPressure (wp_pressure p))] p"
    by (rule turn_ok_told) (use assms in auto)
  then show ?thesis using MsgPressureReport by (simp add: wp_dispatch_msg_def)
next
  case (MsgMaintain now)
  then show ?thesis using maintain_ok [OF assms(1), of now own] by (auto simp: wp_dispatch_msg_def)
qed (use assms release_ok refill_ok close_ok in \<open>simp_all add: wp_dispatch_msg_def\<close>)

text \<open>Both entry points sweep first; what follows is one of the handlers.\<close>

definition acquire_of :: "('h, 'r) pool_turn \<Rightarrow> ('h, 'r) worker_pool \<Rightarrow> (('h, 'r) pool_effect list \<times> ('h, 'r) worker_pool) option" where
  "acquire_of t = (case t of
     HandleTurn st msg ctx \<Rightarrow> wp_handle_acquire ctx
   | CallTurn st msg slot \<Rightarrow> (\<lambda>q. if wp_closed q \<noteq> None
       then Some ([ReplyNow (RepAcquire AcquireClosed)], count_closed q) else wp_handle_acquire_slot slot q))"

lemma wp_turn_unfold:
  "wp_turn t p = do {
     p1 \<leftarrow> wp_sweep_waiters (turn_states t) p;
     p2 \<leftarrow> wp_sweep_in_flight (turn_states t) 0 p1;
     wp_dispatch_msg (turn_states t) (turn_msg t) (acquire_of t) p2
   }"
  by (cases t) (simp_all add: wp_handle_def wp_handle_call_def acquire_of_def)

lemma acquire_of_ok:
  assumes "wp_inv p"
  shows "\<exists>effs q. acquire_of t p = Some (effs, q) \<and> turn_ok (turn_own t) p effs q"
proof (cases t)
  case (HandleTurn st msg ctx)
  then show ?thesis using acquire_ok [OF assms, of ctx] by (simp add: acquire_of_def)
next
  case (CallTurn st msg slot)
  have "turn_ok (Some slot) p [ReplyNow (RepAcquire AcquireClosed)] (count_closed p)"
    by (rule turn_ok_told) (use assms in \<open>auto simp: count_closed_def\<close>)
  then show ?thesis
    using acquire_slot_ok [OF assms, of slot] CallTurn by (auto simp: acquire_of_def)
qed

lemma sweeps_total:
  assumes "wp_inv p"
  obtains p1 p2 where "wp_sweep_waiters st p = Some p1" "wp_sweep_in_flight st 0 p1 = Some p2"
    "wp_inv p2" "wp_fixed p2 = wp_fixed p" "spents p2 = spents p" "wp_closed p2 = wp_closed p"
    "parked p2 = filter (\<lambda>w. st w = SlotOpen) (parked p)"
    "(\<forall>e \<in> set (wp_in_flight p). st (ifd_slot e) \<noteq> SlotClosed) \<longrightarrow> wp_idle p2 = wp_idle p"
proof -
  have inv: "wait_inv p" "res_inv p" "idle_inv {} p" using assms by (auto simp: wp_inv_def)
  obtain p1 where p1: "wp_sweep_waiters st p = Some p1" "wait_inv p1" "res_view p1 = res_view p"
    "parked p1 = filter (\<lambda>w. st w = SlotOpen) (parked p)" by (rule sweep_waiters_total [OF inv(1)])
  note v = res_view_cong [OF p1(3)]
  have "res_inv p1" "idle_inv {} p1" using inv v by auto
  from sweep_in_flight_total [OF this, of st 0]
  obtain p2 where p2: "wp_sweep_in_flight st 0 p1 = Some p2" "res_inv p2" "idle_inv {} p2"
    "wait_view p2 = wait_view p1" "spents p2 = spents p1" "wp_fixed p2 = wp_fixed p1"
    "(\<forall>e \<in> set (wp_in_flight p1). st (ifd_slot e) \<noteq> SlotClosed) \<longrightarrow> wp_idle p2 = wp_idle p1" by blast
  note w = wait_view_cong [OF p2(4)]
  have "wp_inv p2" using p2(2,3) p1(2) w(1) by (simp add: wp_inv_def)
  then show ?thesis using that [OF p1(1) p2(1)] p1 p2 v w by simp
qed

lemma turn_total:
  assumes "wp_inv p"
  obtains effs q where "wp_turn t p = Some (effs, q)" "wp_inv q" "wp_fixed q = wp_fixed p"
    "queue_step (cfg_max_waiters (wp_config p)) (turn_own t)
       (filter (\<lambda>w. turn_states t w = SlotOpen) (parked p)) effs (parked q)"
    "mints p (leases_of effs) q"
    "(\<forall>e \<in> set (wp_in_flight p). turn_states t (ifd_slot e) \<noteq> SlotClosed) \<longrightarrow> no_stall p \<longrightarrow> no_stall q"
proof -
  let ?st = "turn_states t"
  obtain p1 p2 where p2: "wp_sweep_waiters ?st p = Some p1" "wp_sweep_in_flight ?st 0 p1 = Some p2"
    "wp_inv p2" "wp_fixed p2 = wp_fixed p" "spents p2 = spents p"
    "parked p2 = filter (\<lambda>w. ?st w = SlotOpen) (parked p)"
    "(\<forall>e \<in> set (wp_in_flight p). ?st (ifd_slot e) \<noteq> SlotClosed) \<longrightarrow> wp_idle p2 = wp_idle p"
    by (rule sweeps_total [OF assms])
  have cfg: "wp_config p2 = wp_config p" using p2(4) by (simp add: wp_fixed_def)
  have "\<forall>w \<in> set (parked p2). ?st w = SlotOpen" using p2(6) by simp
  from dispatch_msg_ok [where acquire = "acquire_of t" and own = "turn_own t" and msg = "turn_msg t",
      OF p2(3) this acquire_of_ok [OF p2(3), of t]]
  obtain effs q where q: "wp_dispatch_msg ?st (turn_msg t) (acquire_of t) p2 = Some (effs, q)"
    "turn_ok (turn_own t) p2 effs q" by blast
  have "wp_turn t p = Some (effs, q)" using p2(1,2) q(1) by (simp add: wp_turn_unfold)
  moreover have "mints p (leases_of effs) q"
    using q(2) granted_cong [OF p2(5,4)] p2(5) by (auto simp: turn_ok_def mints_def)
  moreover have "no_stall p \<longrightarrow> no_stall p2"
    if "\<forall>e \<in> set (wp_in_flight p). ?st (ifd_slot e) \<noteq> SlotClosed"
    using p2(6,7) that by (auto simp: no_stall_def)
  ultimately show ?thesis using that q(2) p2(4,6) cfg by (simp add: turn_ok_def)
qed

lemma run_total:
  assumes "wp_inv p"
  shows "\<exists>es q. wp_run ts p = Some (es, q) \<and> wp_inv q \<and> wp_fixed q = wp_fixed p"
  using assms
proof (induction ts arbitrary: p)
  case (Cons t ts)
  obtain es q where q: "wp_turn t p = Some (es, q)" "wp_inv q" "wp_fixed q = wp_fixed p"
    by (rule turn_total [OF Cons.prems, of t])
  then show ?case using Cons.IH [OF q(2)] by auto
qed simp

section \<open>Generations\<close>

lemma leases_of_append: "leases_of (es @ es') = leases_of es @ leases_of es'"
  by (induction es rule: leases_of.induct) auto

definition gens :: "nat \<Rightarrow> 'h pool_lease list \<Rightarrow> nat list" where
  "gens i ls = map (\<lambda>l. unat (lease_generation l)) (filter (\<lambda>l. lease_resource_id l = i) ls)"

lemma upt_join: "a \<le> b \<Longrightarrow> b \<le> c \<Longrightarrow> [a..<b] @ [b..<c] = [a..<c]"
  by (metis le_add_diff_inverse upt_add_eq_append)

lemma distinct_by_parts:
  assumes "\<And>i. distinct (map g (filter (\<lambda>l. r l = i) ls))"
  shows "distinct (map (\<lambda>l. (r l, g l)) ls)"
  using assms
proof (induction ls)
  case (Cons l ls)
  have "distinct (map g (filter (\<lambda>l. r l = i) ls))" for i
    using Cons.prems [of i] by (auto split: if_splits)
  then have "distinct (map (\<lambda>l. (r l, g l)) ls)" by (rule Cons.IH)
  then show ?case using Cons.prems [of "r l"] by auto
qed simp

text \<open>The generations a turn issues for a resource continue exactly where the last turn stopped.\<close>

lemma mints_gens:
  assumes "mints p ls q" and "i < length (spents p)" and "unat (spents p ! i) + 1 < 2 ^ 64"
  shows "gens i ls = [unat (spents p ! i)..<unat (spents q ! i)]"
    "unat (spents p ! i) \<le> unat (spents q ! i)" "unat (spents q ! i) \<le> unat (spents p ! i) + 1"
proof -
  have *: "gens i ls = [unat (spents p ! i)..<unat (spents q ! i)]
    \<and> unat (spents p ! i) \<le> unat (spents q ! i) \<and> unat (spents q ! i) \<le> unat (spents p ! i) + 1"
  proof (cases "ls = []")
    case True
    then show ?thesis using assms(1) by (auto simp: mints_def gens_def)
  next
    case False
    then obtain l where l: "ls = [l]" "granted p l q" using assms(1) by (auto simp: mints_def)
    show ?thesis
    proof (cases "lease_resource_id l = i")
      case True
      have "unat (sat_add (spents p ! i) 1) = unat (spents p ! i) + 1"
        using assms(3) by (simp add: unat_sat_add)
      then show ?thesis using True l assms(2) by (simp add: granted_def gens_def)
    next
      case False
      then show ?thesis using l by (simp add: granted_def gens_def)
    qed
  qed
  then show "gens i ls = [unat (spents p ! i)..<unat (spents q ! i)]"
    "unat (spents p ! i) \<le> unat (spents q ! i)" "unat (spents q ! i) \<le> unat (spents p ! i) + 1" by auto
qed

lemma mints_range:
  assumes "mints p ls q"
  shows "length (spents q) = length (spents p)"
    "\<forall>l \<in> set ls. lease_pool_id l = wp_pool_id p \<and> lease_resource_id l < length (spents p)"
  using assms by (auto simp: mints_def granted_def)

lemma run_gens:
  assumes "wp_inv p" and "\<forall>i < length (spents p). unat (spents p ! i) + length ts < 2 ^ 64"
    and "wp_run ts p = Some (es, q)"
  shows "length (spents q) = length (spents p)
    \<and> (\<forall>l \<in> set (leases_of es). lease_pool_id l = wp_pool_id p \<and> lease_resource_id l < length (spents p))
    \<and> (\<forall>i < length (spents p). gens i (leases_of es) = [unat (spents p ! i)..<unat (spents q ! i)]
        \<and> unat (spents p ! i) \<le> unat (spents q ! i) \<and> unat (spents q ! i) \<le> unat (spents p ! i) + length ts)"
  using assms
proof (induction ts arbitrary: p es)
  case Nil
  then show ?case by (simp add: gens_def)
next
  case (Cons t ts)
  obtain es1 p1 where p1: "wp_turn t p = Some (es1, p1)" "wp_inv p1" "wp_fixed p1 = wp_fixed p"
    "mints p (leases_of es1) p1" by (rule turn_total [OF Cons.prems(1), of t])
  then obtain es2 where es: "wp_run ts p1 = Some (es2, q)" "es = es1 @ es2"
    using Cons.prems(3) by (auto split: Option.bind_splits)
  have step: "gens i (leases_of es1) = [unat (spents p ! i)..<unat (spents p1 ! i)]
      \<and> unat (spents p ! i) \<le> unat (spents p1 ! i) \<and> unat (spents p1 ! i) \<le> unat (spents p ! i) + 1"
    if "i < length (spents p)" for i
    using mints_gens [OF p1(4) that] Cons.prems(2) that by fastforce
  note rng = mints_range [OF p1(4)]
  have "\<forall>i < length (spents p1). unat (spents p1 ! i) + length ts < 2 ^ 64"
    using step Cons.prems(2) rng(1) by fastforce
  from Cons.IH [OF p1(2) this es(1)] have IH: "length (spents q) = length (spents p)"
    "\<forall>l \<in> set (leases_of es2). lease_pool_id l = wp_pool_id p \<and> lease_resource_id l < length (spents p)"
    "\<forall>i < length (spents p). gens i (leases_of es2) = [unat (spents p1 ! i)..<unat (spents q ! i)]
      \<and> unat (spents p1 ! i) \<le> unat (spents q ! i) \<and> unat (spents q ! i) \<le> unat (spents p1 ! i) + length ts"
    using rng p1(3) by (simp_all add: wp_fixed_def)
  have "gens i (leases_of es) = [unat (spents p ! i)..<unat (spents q ! i)]
      \<and> unat (spents p ! i) \<le> unat (spents q ! i) \<and> unat (spents q ! i) \<le> unat (spents p ! i) + length (t # ts)"
    if i: "i < length (spents p)" for i
  proof -
    have "gens i (leases_of es) = gens i (leases_of es1) @ gens i (leases_of es2)"
      by (simp add: es(2) leases_of_append gens_def)
    then show ?thesis
      using step [OF i] IH(3) i upt_join by fastforce
  qed
  then show ?case using IH(1,2) rng(2) by (auto simp: es(2) leases_of_append)
qed

text \<open>A lease that a bounded run issued is either outstanding or behind its resource's generation.\<close>

fun past :: "u64 \<Rightarrow> resource_state \<Rightarrow> bool" where
  "past g (ResIdle n) \<longleftrightarrow> g < n"
| "past g (ResLeased h) \<longleftrightarrow> g < h"
| "past g (ResRetired n) \<longleftrightarrow> g < n"

lemma past_or_leased:
  assumes "unat g < unat (spent_generation s)" and "unat (spent_generation s) < 2 ^ 64 - 1"
  shows "past g s \<or> s = ResLeased g"
proof (cases s)
  case (ResLeased h)
  then have "unat g \<le> unat h" using assms by (auto simp: unat_sat_add)
  then show ?thesis using ResLeased by (auto simp: word_less_nat_alt word_unat_eq_iff)
qed (use assms in \<open>auto simp: word_less_nat_alt\<close>)

section \<open>The life cycle of a resource\<close>

inductive resource_step :: "resource_state \<Rightarrow> resource_state \<Rightarrow> bool" where
  lease: "resource_step (ResIdle n) (ResLeased n)"
| give_back: "resource_step (ResLeased g) (ResIdle (sat_add g 1))"
| drop_leased: "resource_step (ResLeased g) (ResRetired (sat_add g 1))"
| drop_idle: "resource_step (ResIdle n) (ResRetired n)"
| refill: "resource_step (ResRetired n) (ResIdle n)"

lemma past_step: "resource_step s s' \<Longrightarrow> past g s \<Longrightarrow> past g s'"
  by (induction rule: resource_step.induct) (auto intro: less_le_trans sat_add_one_ge)

lemma past_steps: "resource_step\<^sup>*\<^sup>* s s' \<Longrightarrow> past g s \<Longrightarrow> past g s'"
  by (induction rule: rtranclp_induct) (auto dest: past_step)

definition evolves :: "('h, 'r) worker_pool \<Rightarrow> ('h, 'r) worker_pool \<Rightarrow> bool" where
  "evolves p q \<longleftrightarrow> list_all2 resource_step\<^sup>*\<^sup>* (wp_states p) (wp_states q) \<and> wp_pool_id q = wp_pool_id p"

lemma evolves_same: "wp_states q = wp_states p \<Longrightarrow> wp_pool_id q = wp_pool_id p \<Longrightarrow> evolves p q"
  by (simp add: evolves_def list_all2_refl)

lemma evolves_trans: "evolves p q \<Longrightarrow> evolves q r \<Longrightarrow> evolves p r"
  unfolding evolves_def by (auto intro: list_all2_trans rtranclp_trans)

lemma evolves_step:
  assumes "wp_states q = (wp_states p)[i := s]" and "wp_pool_id q = wp_pool_id p"
    and "resource_step (wp_states p ! i) s"
  shows "evolves p q"
proof -
  have "resource_step\<^sup>*\<^sup>* (wp_states p ! j) ((wp_states p)[i := s] ! j)" if "j < length (wp_states p)" for j
    using that assms(3) by (cases "j = i") auto
  then show ?thesis using assms(1,2) by (simp add: evolves_def list_all2_conv_all_nth)
qed

lemma remove_waiter_slot_states:
  "wp_remove_waiter_slot idx p = Some (w, q) \<Longrightarrow> wp_states q = wp_states p \<and> wp_pool_id q = wp_pool_id p"
  by (auto simp: wp_remove_waiter_slot_def split: option.splits if_splits)

lemma sweep_waiters_loop_states:
  "wp_sweep_waiters_loop st idxs r p = Some (r', q) \<Longrightarrow> wp_states q = wp_states p \<and> wp_pool_id q = wp_pool_id p"
  by (induction idxs arbitrary: r p)
    (auto dest!: remove_waiter_slot_states simp: count_cancel_def
      split: if_splits option.splits Option.bind_splits)

lemma sweep_waiters_evolves: "wp_sweep_waiters st p = Some q \<Longrightarrow> evolves p q"
  by (rule evolves_same)
    (auto simp: wp_sweep_waiters_def dest!: sweep_waiters_loop_states split: Option.bind_splits)

lemma recover_evolves:
  assumes "wp_recover_dispatched i g p = Some q"
  shows "evolves p q"
proof (cases "wp_states p ! i = ResLeased g")
  case True
  then show ?thesis
    using assms by (intro evolves_step [of q p i "ResIdle (sat_add g 1)"])
      (auto simp: wp_recover_dispatched_def split: if_splits intro: resource_step.intros)
next
  case False
  then have "q = p" using assms by (auto simp: wp_recover_dispatched_def split: if_splits resource_state.splits)
  then show ?thesis by (simp add: evolves_same)
qed

lemma sweep_in_flight_evolves:
  assumes "wp_sweep_in_flight st i p = Some q"
  shows "evolves p q"
proof (rule wp_sweep_in_flight.raw_induct [where P = "\<lambda>st i p q. evolves p q", OF _ assms], goal_cases)
  case (1 f st i p q)
  have "evolves p (p\<lparr>wp_in_flight := swap_remove i (wp_in_flight p)\<rparr>)" by (simp add: evolves_same)
  with 1 show ?case
    by (auto simp: Let_def split: if_splits deferred_slot_state.splits Option.bind_splits
        intro: evolves_same evolves_trans dest!: recover_evolves)
qed

lemma mint_evolves: "wp_mint_lease i p = Some (l, q) \<Longrightarrow> evolves p q"
  by (rule evolves_step [where i = i and s = "ResLeased (spent_generation (wp_states p ! i))"])
    (auto simp: wp_mint_lease_def split: if_splits resource_state.splits option.splits
      intro: resource_step.intros)

lemma track_evolves: "evolves p q \<Longrightarrow> evolves p (wp_track_dispatch i g slot q)"
  by (simp add: evolves_def wp_track_dispatch_def)

lemma dispatch_loop_evolves: "wp_dispatch_loop i queue p = Some (e, q) \<Longrightarrow> evolves p q"
proof (induction queue arbitrary: p)
  case Nil
  then show ?case by (auto intro: evolves_same)
next
  case (Cons idx queue)
  then obtain w p1 where p1: "wp_remove_waiter_slot idx (p\<lparr>wp_waiter_queue := queue\<rparr>) = Some (w, p1)"
    by (auto split: Option.bind_splits)
  then have "evolves p p1" by (auto dest!: remove_waiter_slot_states intro: evolves_same)
  moreover have "evolves p1 q"
    using Cons p1 by (auto split: option.splits Option.bind_splits dest!: mint_evolves intro: track_evolves)
  ultimately show ?case by (rule evolves_trans)
qed

lemma dispatch_evolves: "wp_dispatch_to_next_waiter st i p = Some (e, q) \<Longrightarrow> evolves p q"
  by (auto simp: wp_dispatch_to_next_waiter_def split: Option.bind_splits
      dest!: sweep_waiters_evolves dispatch_loop_evolves intro: evolves_trans)

end
