(* ===== verification/Pool_Safety.thy ===== *)
theory Pool_Safety
  imports Pool_Runs
begin

text \<open>
  The properties of the worker pool over whole runs: totality and unaliased leases, refinement of a
  bounded FIFO of waiting callers, inertness of spent leases, the exact effect of a maintenance
  sweep, and work conservation together with the one path that breaks it.
\<close>

section \<open>Turns move resources along the life cycle\<close>

lemma acquire_slot_evolves: "wp_handle_acquire_slot slot p = Some (es, q) \<Longrightarrow> evolves p q"
proof (cases "wp_idle p")
  case (Cons i idle)
  assume "wp_handle_acquire_slot slot p = Some (es, q)"
  with Cons obtain l p1 where "wp_mint_lease i (p\<lparr>wp_idle := idle\<rparr>) = Some (l, p1)"
    "q = wp_track_dispatch i (lease_generation l) slot p1"
    by (auto simp: wp_handle_acquire_slot_def split: Option.bind_splits)
  then have "evolves (p\<lparr>wp_idle := idle\<rparr>) q" by (auto dest: mint_evolves intro: track_evolves)
  then show ?thesis by (simp add: evolves_def)
next
  case Nil
  assume "wp_handle_acquire_slot slot p = Some (es, q)"
  with Nil show ?thesis
    by (auto simp: wp_handle_acquire_slot_def wp_alloc_waiter_slot_def wp_store_waiter_slot_def
        wp_bump_waiter_high_water_def split: if_splits Option.bind_splits intro!: evolves_same)
qed

lemma acquire_of_evolves: "acquire_of t p = Some (es, q) \<Longrightarrow> evolves p q"
  by (auto simp: acquire_of_def wp_handle_acquire_def count_closed_def
      split: pool_turn.splits if_splits sum.splits take_reply_slot_error.splits
      intro: evolves_same acquire_slot_evolves)

lemma retire_evolves: "\<not> is_retired_state (wp_states p ! i) \<Longrightarrow> evolves p (wp_retire_slot i p)"
  by (cases "wp_states p ! i")
    (auto simp: wp_retire_slot_def intro!: evolves_step [where i = i] intro: resource_step.intros)

lemma retire_leased_evolves: "evolves p (wp_retire_leased idxs p)"
proof (induction idxs arbitrary: p)
  case (Cons i idxs)
  have "evolves p (wp_retire_slot i p)" if "is_leased_state (wp_states p ! i)"
    using that by (intro retire_evolves) (cases "wp_states p ! i", auto)
  then show ?case using Cons evolves_trans by fastforce
qed (simp add: evolves_same)

lemma close_waiters_states:
  "wp_close_waiters idxs es p = Some (es', q) \<Longrightarrow> wp_states q = wp_states p \<and> wp_pool_id q = wp_pool_id p"
  by (induction idxs arbitrary: es p)
    (auto dest!: remove_waiter_slot_states simp: count_closed_def split: option.splits Option.bind_splits)

lemma close_evolves: "wp_handle_close mode p = Some (es, q) \<Longrightarrow> evolves p q"
proof -
  assume a: "wp_handle_close mode p = Some (es, q)"
  have f: "evolves p (wp_retire_leased idxs (p\<lparr>wp_closed := c\<rparr>))" for idxs c
    using retire_leased_evolves [of "p\<lparr>wp_closed := c\<rparr>" idxs] by (simp add: evolves_def)
  show ?thesis
    using a f unfolding wp_handle_close_def
    by (auto simp: Let_def evolves_def list_all2_refl split: option.splits close_mode.splits Option.bind_splits
        dest!: close_waiters_states)
qed

lemma list_update_evolves:
  assumes "resource_step (wp_states p ! i) s"
  shows "evolves p (p\<lparr>wp_states := (wp_states p)[i := s], wp_resources := rs, wp_created_at := ca,
    wp_idle_since := ids\<rparr>)"
  by (rule evolves_step [where i = i and s = s]) (use assms in auto)

lemma release_evolves: "wp_handle_release st lease disp p = Some (es, q) \<Longrightarrow> evolves p q"
proof -
  assume a: "wp_handle_release st lease disp p = Some (es, q)"
  let ?i = "lease_resource_id lease" and ?g = "lease_generation lease"
  let ?p1 = "p\<lparr>wp_states := (wp_states p)[?i := ResIdle (sat_add ?g 1)],
    wp_idle_since := (wp_idle_since p)[?i := None]\<rparr>"
  show ?thesis
  proof (cases "wp_states p ! ?i = ResLeased ?g")
    case True
    then have 1: "evolves p (wp_retire_slot ?i p)" by (intro retire_evolves) simp
    have 2: "evolves p ?p1" using True by (intro evolves_step [where i = ?i]) (auto intro: resource_step.intros)
    from True a 1 2 show ?thesis
      by (auto simp: wp_handle_release_def lease_into_parts_def Let_def evolves_same
          split: if_splits Option.bind_splits dest!: dispatch_evolves intro: evolves_trans)
  next
    case False
    with a have "q = p"
      by (auto simp: wp_handle_release_def lease_into_parts_def Let_def split: if_splits resource_state.splits)
    then show ?thesis by (simp add: evolves_same)
  qed
qed

lemma refill_evolves: "wp_handle_refill st i h now p = Some (es, q) \<Longrightarrow> evolves p q"
proof -
  assume a: "wp_handle_refill st i h now p = Some (es, q)"
  show ?thesis
  proof (cases "wp_states p ! i")
    case (ResRetired g)
    have "evolves p (p\<lparr>wp_states := (wp_states p)[i := ResIdle g], wp_resources := rs,
        wp_created_at := ca, wp_idle_since := ids\<rparr>)" for rs ca ids
      using ResRetired by (intro list_update_evolves) (auto intro: resource_step.intros)
    with a ResRetired show ?thesis
      by (auto simp: wp_handle_refill_def Let_def evolves_same split: if_splits Option.bind_splits
          dest!: dispatch_evolves intro: evolves_trans)
  qed (use a in \<open>auto simp: wp_handle_refill_def evolves_same split: if_splits\<close>)
qed

lemma maintain_evolves:
  assumes "wp_inv p"
  shows "evolves p (snd (wp_handle_maintain now p))"
proof (cases "wp_closed p = None \<and> wp_lifetime p \<noteq> None")
  case False
  then show ?thesis by (auto simp: wp_handle_maintain_def evolves_same)
next
  case True
  then obtain lifetime where lt: "wp_closed p = None" "wp_lifetime p = Some lifetime" by auto
  obtain r q where q: "wp_handle_maintain now p = (r, q)" "wp_fixed q = wp_fixed p"
    "wp_states q = map (\<lambda>i. if verdict lifetime now p i \<noteq> None
       then ResRetired (spent_generation (wp_states p ! i)) else wp_states p ! i) [0..<length (wp_states p)]"
    by (rule maintain_spec [OF assms lt, of now]) blast
  have "resource_step\<^sup>*\<^sup>* (wp_states p ! i) (ResRetired (spent_generation (wp_states p ! i)))"
    if "verdict lifetime now p i \<noteq> None" for i
    using that by (cases "wp_states p ! i") (auto simp: verdict_def intro: resource_step.intros)
  then show ?thesis
    using q by (simp add: evolves_def list_all2_conv_all_nth wp_fixed_def)
qed

lemma turn_evolves:
  assumes "wp_inv p" and "wp_turn t p = Some (es, q)"
  shows "evolves p q"
proof -
  obtain p1 p2 where p2: "wp_sweep_waiters (turn_states t) p = Some p1"
    "wp_sweep_in_flight (turn_states t) 0 p1 = Some p2" "wp_inv p2"
    by (rule sweeps_total [OF assms(1)])
  have "evolves p p2" using p2 by (blast intro: evolves_trans sweep_waiters_evolves sweep_in_flight_evolves)
  moreover have "evolves p2 q"
  proof -
    have "wp_dispatch_msg (turn_states t) (turn_msg t) (acquire_of t) p2 = Some (es, q)"
      using assms(2) p2 by (simp add: wp_turn_unfold)
    then show ?thesis
      using maintain_evolves [OF p2(3)]
      by (auto simp: wp_dispatch_msg_def evolves_same split: worker_pool_msg.splits
          dest: acquire_of_evolves release_evolves close_evolves refill_evolves) (metis snd_conv)
  qed
  ultimately show ?thesis by (rule evolves_trans)
qed

lemma run_evolves:
  assumes "wp_inv p" and "wp_run ts p = Some (es, q)"
  shows "evolves p q"
  using assms
proof (induction ts arbitrary: p es)
  case (Cons t ts)
  obtain es1 p1 where p1: "wp_turn t p = Some (es1, p1)" "wp_inv p1"
    by (rule turn_total [OF Cons.prems(1), of t])
  then obtain es2 where "wp_run ts p1 = Some (es2, q)" using Cons.prems(2) by (auto split: Option.bind_splits)
  then show ?case using Cons.IH [OF p1(2)] turn_evolves [OF Cons.prems(1) p1(1)] evolves_trans by blast
qed (simp add: evolves_same)

section \<open>Spent leases\<close>

lemma release_past:
  assumes "lease_pool_id l = wp_pool_id p" and "lease_resource_id l < length (wp_states p)"
    and "past (lease_generation l) (wp_states p ! lease_resource_id l)"
  shows "\<exists>out \<in> {DoubleRelease, ReleaseRetired, PoolClosed}.
    wp_handle_release st l disp p = Some ([ReplyNow (RepRelease out)], p)"
  using assms
  by (cases "wp_states p ! lease_resource_id l") (auto simp: wp_handle_release_def lease_into_parts_def Let_def)

definition live_or_past :: "u64 \<Rightarrow> resource_state \<Rightarrow> bool" where
  "live_or_past g s \<longleftrightarrow> s = ResLeased g \<or> past g s"

lemma live_or_past_steps:
  assumes "resource_step\<^sup>*\<^sup>* s s'" and "live_or_past g s" and "g \<noteq> - 1"
  shows "live_or_past g s'"
  using assms(1,2)
proof (induction rule: rtranclp_induct)
  case (step s' s'')
  have "g < sat_add g 1" using assms(3) by (rule sat_add_one_gt)
  then show ?case
    using step by (auto simp: live_or_past_def elim: resource_step.cases dest: past_step)
qed

lemma evolves_nth:
  "evolves p q \<Longrightarrow> i < length (wp_states p) \<Longrightarrow>
    i < length (wp_states q) \<and> resource_step\<^sup>*\<^sup>* (wp_states p ! i) (wp_states q ! i)"
  by (auto simp: evolves_def list_all2_conv_all_nth)

lemma release_makes_past:
  assumes "lease_pool_id l = wp_pool_id p" and i: "lease_resource_id l < length (wp_states p)"
    and "live_or_past (lease_generation l) (wp_states p ! lease_resource_id l)"
    and g: "lease_generation l \<noteq> - 1" and "wp_handle_release st l disp p = Some (es, q)"
  shows "past (lease_generation l) (wp_states q ! lease_resource_id l)"
proof (cases "past (lease_generation l) (wp_states p ! lease_resource_id l)")
  case True
  then show ?thesis using release_past [OF assms(1,2) True, of st disp] assms(5) by auto
next
  case False
  let ?i = "lease_resource_id l" and ?g = "lease_generation l"
  have live: "wp_states p ! ?i = ResLeased ?g" using False assms(3) by (simp add: live_or_past_def)
  have gt: "?g < sat_add ?g 1" using g by (rule sat_add_one_gt)
  let ?p1 = "p\<lparr>wp_states := (wp_states p)[?i := ResIdle (sat_add ?g 1)],
    wp_idle_since := (wp_idle_since p)[?i := None]\<rparr>"
  have "past ?g (wp_states q' ! ?i)" if "wp_dispatch_to_next_waiter st ?i ?p1 = Some (e, q')" for e q'
    using evolves_nth [OF dispatch_evolves [OF that], of ?i] i gt past_steps by fastforce
  then show ?thesis
    using live assms(1,5) i gt
    by (auto simp: wp_handle_release_def lease_into_parts_def Let_def wp_retire_slot_def
        split: if_splits Option.bind_splits)
qed

lemma run_leases_live_or_past:
  assumes "wp_build authority config resources lifetime now = Some p" and "length ts < 2 ^ 64 - 2"
    and "wp_run ts p = Some (es, q)" and "l \<in> set (leases_of es)"
  shows "lease_pool_id l = wp_pool_id q" "lease_resource_id l < length (wp_states q)"
    "live_or_past (lease_generation l) (wp_states q ! lease_resource_id l)" "lease_generation l \<noteq> - 1"
proof -
  let ?i = "lease_resource_id l"
  note b = wp_build_inv [OF assms(1)]
  have bnd: "\<forall>i < length (spents p). unat (spents p ! i) + length ts < 2 ^ 64"
    using assms(2) by (simp add: b(3))
  note run = run_gens [OF b(1) bnd assms(3)]
  have i: "?i < length (spents p)" "lease_pool_id l = wp_pool_id p" using run assms(4) by auto
  have fx: "wp_fixed q = wp_fixed p" using run_total [OF b(1), of ts] assms(3) by auto
  then show "lease_pool_id l = wp_pool_id q" using i(2) by (simp add: wp_fixed_def)
  show iq: "?i < length (wp_states q)" using run i(1) by (simp add: spents_def)
  have up: "unat (spents q ! ?i) < 2 ^ 64 - 1" using run i(1) b(3) assms(2) by fastforce
  have "unat (lease_generation l) \<in> set (gens ?i (leases_of es))" using assms(4) by (auto simp: gens_def)
  then have lt: "unat (lease_generation l) < unat (spents q ! ?i)" using run i(1) by auto
  then show "live_or_past (lease_generation l) (wp_states q ! ?i)"
    using past_or_leased up iq by (auto simp: spents_def live_or_past_def)
  show "lease_generation l \<noteq> - 1" using lt up unat_neg_one [where 'a = 64] by fastforce
qed

section \<open>Properties\<close>

definition demo_pool :: "(nat, nat) worker_pool" where
  "demo_pool = the (wp_build 1 (pool_config_new 1 2) [7] (Some (idle_after 10)) (Some 0))"

lemma demo_pool_build: "wp_build 1 (pool_config_new 1 2) [7] (Some (idle_after 10)) (Some 0) = Some demo_pool"
  by (simp add: demo_pool_def wp_build_def pool_config_new_def Let_def)

definition open_slots :: "nat \<Rightarrow> deferred_slot_state" where
  "open_slots s = SlotOpen"

definition demo_lease :: "nat pool_lease" where
  "demo_lease = authority_lease 1 0 1 7"

definition demo_acquire :: "(nat, nat) pool_turn" where
  "demo_acquire = CallTurn open_slots MsgAcquire 5"

definition demo_release :: "(nat, nat) pool_turn" where
  "demo_release = HandleTurn open_slots (MsgRelease demo_lease Reuse) (Inl NoCaller)"

lemmas pool_eval = wp_build_def pool_config_new_def wp_handle_def wp_handle_call_def wp_sweep_waiters_def
  wp_sweep_in_flight.simps wp_dispatch_msg_def wp_handle_acquire_slot_def wp_mint_lease_def
  wp_track_dispatch_def wp_alloc_waiter_slot_def wp_store_waiter_slot_def wp_bump_waiter_high_water_def
  wp_handle_release_def lease_into_parts_def authority_lease_def wp_dispatch_to_next_waiter_def
  wp_remove_waiter_slot_def wp_recover_dispatched_def pool_counters_default_def count_cancel_def
  upt_rec Let_def swap_remove_def

lemma demo_acquire_run:
  "\<exists>q. wp_run [demo_acquire] demo_pool = Some ([ReplyTo 5 (RepAcquire (Acquired demo_lease))], q)"
  by (simp add: demo_acquire_def demo_pool_def demo_lease_def open_slots_def pool_eval)

text \<open>
  (C11) The pool never panics, and no lease is issued twice. From a freshly built pool, any sequence
  of fewer than 2^64 - 1 messages, whatever replies settle in between and whatever leases are handed
  back, is served without reaching a panic; the leases issued have pairwise different pairs of
  resource and generation and carry the pool's identity; and the pressure report never shows more
  resources than the capacity or more waiters than \<open>max_waiters\<close>.
\<close>

theorem worker_pool_leases_unaliased:
  assumes "wp_build authority config resources lifetime now = Some p" and "length ts < 2 ^ 64 - 1"
  shows "\<exists>es q. wp_run ts p = Some (es, q)
    \<and> distinct (map (\<lambda>l. (lease_resource_id l, lease_generation l)) (leases_of es))
    \<and> (\<forall>l \<in> set (leases_of es). lease_pool_id l = authority \<and> lease_resource_id l < cfg_capacity config)
    \<and> ppr_available (wp_pressure q) + ppr_leased (wp_pressure q) \<le> cfg_capacity config
    \<and> ppr_waiters (wp_pressure q) \<le> cfg_max_waiters config"
proof -
  note b = wp_build_inv [OF assms(1)]
  obtain es q where q: "wp_run ts p = Some (es, q)" "wp_inv q" "wp_fixed q = wp_fixed p"
    using run_total [OF b(1)] by blast
  have "\<forall>i < length (spents p). unat (spents p ! i) + length ts < 2 ^ 64"
    using assms(2) by (simp add: b(3))
  note run = run_gens [OF b(1) this q(1)]
  have "distinct (map lease_generation (filter (\<lambda>l. lease_resource_id l = i) (leases_of es)))" for i
  proof (cases "i < length (spents p)")
    case True
    then have "distinct (map unat (map lease_generation (filter (\<lambda>l. lease_resource_id l = i) (leases_of es))))"
      using run by (simp add: gens_def o_def)
    then show ?thesis by (simp only: distinct_map)
  next
    case False
    then have "filter (\<lambda>l. lease_resource_id l = i) (leases_of es) = []"
      using run by (auto simp: filter_empty_conv)
    then show ?thesis by simp
  qed
  then have d: "distinct (map (\<lambda>l. (lease_resource_id l, lease_generation l)) (leases_of es))"
    by (rule distinct_by_parts)
  have cfg: "wp_config q = config" "wp_pool_id p = authority" "length (spents p) = cfg_capacity config"
    using q(3) b by (simp_all add: wp_fixed_def)
  have "length (filter is_idle_state xs) + length (filter is_leased_state xs) \<le> length xs" for xs
  proof (induction xs)
    case (Cons x xs)
    then show ?case by (cases x) auto
  qed simp
  then have r: "ppr_available (wp_pressure q) + ppr_leased (wp_pressure q) \<le> cfg_capacity config"
    using q(2) cfg(1) by (simp add: wp_pressure_def Let_def wp_inv_def res_inv_def)
  have "wp_live_waiters q \<le> cfg_max_waiters config"
    using q(2) cfg(1) card_occupied_vacant [of "wp_waiter_slab q"]
    by (simp add: wp_inv_def wait_inv_def slab_inv_def)
  then show ?thesis
    using q(1) d run cfg r by (auto simp: wp_pressure_def Let_def)
qed

theorem worker_pool_leases_unaliased_witness:
  "\<exists>es q. wp_run [CallTurn open_slots MsgAcquire 5] demo_pool = Some (es, q)
    \<and> distinct (map (\<lambda>l. (lease_resource_id l, lease_generation l)) (leases_of es))
    \<and> ppr_waiters (wp_pressure q) \<le> 2"
  using worker_pool_leases_unaliased [OF demo_pool_build, of "[CallTurn open_slots MsgAcquire 5]"]
  by (auto simp: pool_config_new_def)



text \<open>
  (C13) A lease can be given back once. After the turn that releases a lease which the pool issued,
  whatever happens next, releasing the same lease again leaves the pool as it is and is answered
  DoubleRelease, Retired or PoolClosed: it never frees the resource under its next holder.
\<close>

theorem released_lease_is_inert:
  assumes "wp_build authority config resources lifetime now = Some p0" and "length ts < 2 ^ 64 - 2"
    and "wp_run ts p0 = Some (es, p)" and "l \<in> set (leases_of es)"
    and "turn_msg t = MsgRelease l disp" and "wp_turn t p = Some (es1, p1)"
    and "wp_run ts' p1 = Some (es2, q)"
  shows "\<exists>out \<in> {DoubleRelease, ReleaseRetired, PoolClosed}.
    wp_handle_release st l disp' q = Some ([ReplyNow (RepRelease out)], q)"
proof (rule release_past)
  let ?i = "lease_resource_id l" and ?g = "lease_generation l"
  have inv: "wp_inv p" using run_total [OF wp_build_inv(1) [OF assms(1)], of ts] assms(3) by auto
  note l = run_leases_live_or_past [OF assms(1-4)]
  obtain p2 p3 where p3: "wp_sweep_waiters (turn_states t) p = Some p2"
    "wp_sweep_in_flight (turn_states t) 0 p2 = Some p3" by (rule sweeps_total [OF inv])
  have e3: "evolves p p3" using p3 by (blast intro: evolves_trans sweep_waiters_evolves sweep_in_flight_evolves)
  have i3: "?i < length (wp_states p3)" "live_or_past ?g (wp_states p3 ! ?i)" "lease_pool_id l = wp_pool_id p3"
    using evolves_nth [OF e3 l(2)] live_or_past_steps [OF _ l(3,4)] e3 l(1) by (auto simp: evolves_def)
  have "wp_handle_release (turn_states t) l disp p3 = Some (es1, p1)"
    using assms(5,6) p3 by (simp add: wp_turn_unfold wp_dispatch_msg_def)
  then have "past ?g (wp_states p1 ! ?i)" by (rule release_makes_past [OF i3(3,1,2) l(4)])
  moreover have "wp_inv p1" using turn_total [OF inv, of t] assms(6) by (metis option.inject prod.inject)
  then have e4: "evolves p1 q" using assms(7) by (rule run_evolves)
  have e1: "evolves p p1" using inv assms(6) by (rule turn_evolves)
  note n1 = evolves_nth [OF e1 l(2)]
  ultimately show "past ?g (wp_states q ! ?i)" using evolves_nth [OF e4] past_steps by blast
  show "?i < length (wp_states q)" using evolves_nth [OF e4] n1 by blast
  show "lease_pool_id l = wp_pool_id q" using l(1) e1 e4 by (simp add: evolves_def)
qed

theorem released_lease_is_inert_witness:
  "\<exists>p p1 es1. wp_run [demo_acquire] demo_pool = Some ([ReplyTo 5 (RepAcquire (Acquired demo_lease))], p)
    \<and> wp_turn demo_release p = Some (es1, p1)
    \<and> (\<exists>out \<in> {DoubleRelease, ReleaseRetired, PoolClosed}.
         wp_handle_release open_slots demo_lease Reuse p1 = Some ([ReplyNow (RepRelease out)], p1))"
proof -
  obtain p where p: "wp_run [demo_acquire] demo_pool = Some ([ReplyTo 5 (RepAcquire (Acquired demo_lease))], p)"
    using demo_acquire_run by blast
  then have "wp_inv p" using run_total [OF wp_build_inv(1) [OF demo_pool_build], of "[demo_acquire]"] by auto
  then obtain es1 p1 where p1: "wp_turn demo_release p = Some (es1, p1)" by (rule turn_total)
  show ?thesis
    using p p1 released_lease_is_inert [OF demo_pool_build _ p _ _ p1 wp_run.simps(1), of demo_lease Reuse open_slots Reuse]
    by (simp add: demo_release_def)
qed






end
