(* ===== verification/Rpc_Frame.thy ===== *)
theory Rpc_Frame
  imports Bytes_Be
begin

text \<open>
  The wire frames of \<open>tina-rpc/src/frame.rs\<close>: the in-memory frame, its limits, the encoder and the
  decoder. A Rust \<open>String\<close> is the list of its bytes; \<open>utf8_valid\<close> is the check of
  \<open>std::str::from_utf8\<close>. \<open>Result<T, E>\<close> is \<open>E + T\<close>.
\<close>

section \<open>UTF-8\<close>

definition byte_in :: "u8 \<Rightarrow> u8 \<Rightarrow> u8 \<Rightarrow> bool" where
  "byte_in lo hi b \<longleftrightarrow> lo \<le> b \<and> b \<le> hi"

text \<open>The well-formed byte sequences: no overlong forms, no surrogates, nothing above U+10FFFF.\<close>

fun utf8_valid :: "bytes \<Rightarrow> bool" where
  "utf8_valid [] = True"
| "utf8_valid (a # bs) =
     (if a < 0x80 then utf8_valid bs
      else case bs of
        [] \<Rightarrow> False
      | b # cs \<Rightarrow>
          if byte_in 0xC2 0xDF a then byte_in 0x80 0xBF b \<and> utf8_valid cs
          else (case cs of
            [] \<Rightarrow> False
          | c # ds \<Rightarrow>
              if byte_in 0xE0 0xEF a then
                byte_in (if a = 0xE0 then 0xA0 else 0x80) (if a = 0xED then 0x9F else 0xBF) b
                \<and> byte_in 0x80 0xBF c \<and> utf8_valid ds
              else (case ds of
                [] \<Rightarrow> False
              | d # es \<Rightarrow>
                  byte_in 0xF0 0xF4 a
                  \<and> byte_in (if a = 0xF0 then 0x90 else 0x80) (if a = 0xF4 then 0x8F else 0xBF) b
                  \<and> byte_in 0x80 0xBF c \<and> byte_in 0x80 0xBF d \<and> utf8_valid es)))"

section \<open>Frames and limits\<close>

definition FRAME_VERSION_V1 :: u8 where "FRAME_VERSION_V1 = 1"
definition LENGTH_PREFIX_SIZE :: nat where "LENGTH_PREFIX_SIZE = 4"
definition MIN_BODY_SIZE :: nat where "MIN_BODY_SIZE = 13"
definition MAX_SERVICE_LEN :: nat where "MAX_SERVICE_LEN = 255"
definition MAX_METHOD_LEN :: nat where "MAX_METHOD_LEN = 255"

datatype frame_kind = KRequest | KReply | KError

datatype frame_error =
    FeFull | FeUnknownService | FeUnknownMethod | FeDecode | FeProtocol | FeInternal

record frame =
  fr_version :: u8
  fr_kind :: frame_kind
  fr_error :: "frame_error option"
  fr_request_id :: u64
  fr_service :: bytes
  fr_method :: bytes
  fr_payload :: bytes

definition frame_request :: "u64 \<Rightarrow> bytes \<Rightarrow> bytes \<Rightarrow> bytes \<Rightarrow> frame" where
  "frame_request request_id service method payload =
     \<lparr>fr_version = FRAME_VERSION_V1, fr_kind = KRequest, fr_error = None, fr_request_id = request_id,
      fr_service = service, fr_method = method, fr_payload = payload\<rparr>"

definition frame_reply :: "u64 \<Rightarrow> bytes \<Rightarrow> bytes \<Rightarrow> bytes \<Rightarrow> frame" where
  "frame_reply request_id service method payload =
     \<lparr>fr_version = FRAME_VERSION_V1, fr_kind = KReply, fr_error = None, fr_request_id = request_id,
      fr_service = service, fr_method = method, fr_payload = payload\<rparr>"

definition frame_error_of :: "u64 \<Rightarrow> bytes \<Rightarrow> bytes \<Rightarrow> frame_error \<Rightarrow> bytes \<Rightarrow> frame" where
  "frame_error_of request_id service method code payload =
     \<lparr>fr_version = FRAME_VERSION_V1, fr_kind = KError, fr_error = Some code, fr_request_id = request_id,
      fr_service = service, fr_method = method, fr_payload = payload\<rparr>"

record frame_limits =
  max_frame_size :: nat

definition limits_new :: "nat \<Rightarrow> frame_limits" where
  "limits_new n = \<lparr>max_frame_size = n\<rparr>"

definition limits_default :: frame_limits where
  "limits_default = limits_new (1024 * 1024)"

datatype encode_error =
    ServiceTooLong nat
  | MethodTooLong nat
  | FrameTooLarge nat nat
  | EncLimitsTooSmall nat nat
  | EncLimitsTooLarge nat
  | InconsistentFrame

datatype decode_error =
    LengthPrefixTruncated
  | BodyTooSmall nat nat
  | BodyTooLarge nat nat
  | BodyTruncated nat nat
  | DecLimitsTooSmall nat nat
  | DecLimitsTooLarge nat
  | UnsupportedVersion u8
  | UnknownKind u8
  | UnknownErrorCode u8
  | ServiceLengthOverrun
  | MethodLengthOverrun
  | ServiceNotUtf8
  | MethodNotUtf8
  | UnexpectedErrorCode
  | MissingErrorCode
  | TrailingBytes nat

definition check_limits_for_decode :: "frame_limits \<Rightarrow> decode_error + unit" where
  "check_limits_for_decode limits =
     (if max_frame_size limits < MIN_BODY_SIZE
      then Inl (DecLimitsTooSmall (max_frame_size limits) MIN_BODY_SIZE)
      else if max_frame_size limits > 2 ^ 32 - 1 then Inl (DecLimitsTooLarge (max_frame_size limits))
      else Inr ())"

definition check_limits_for_encode :: "frame_limits \<Rightarrow> encode_error + unit" where
  "check_limits_for_encode limits =
     (if max_frame_size limits < MIN_BODY_SIZE
      then Inl (EncLimitsTooSmall (max_frame_size limits) MIN_BODY_SIZE)
      else if max_frame_size limits > 2 ^ 32 - 1 then Inl (EncLimitsTooLarge (max_frame_size limits))
      else Inr ())"

section \<open>Codes\<close>

fun kind_to_byte :: "frame_kind \<Rightarrow> u8" where
  "kind_to_byte KRequest = 0"
| "kind_to_byte KReply = 1"
| "kind_to_byte KError = 2"

definition kind_of_byte :: "u8 \<Rightarrow> decode_error + frame_kind" where
  "kind_of_byte b = (if b = 0 then Inr KRequest else if b = 1 then Inr KReply
     else if b = 2 then Inr KError else Inl (UnknownKind b))"

fun error_to_byte :: "frame_error \<Rightarrow> u8" where
  "error_to_byte FeFull = 1"
| "error_to_byte FeUnknownService = 2"
| "error_to_byte FeUnknownMethod = 3"
| "error_to_byte FeDecode = 4"
| "error_to_byte FeProtocol = 5"
| "error_to_byte FeInternal = 6"

definition encode_error_code :: "frame \<Rightarrow> u8 option" where
  "encode_error_code frame = (case (fr_kind frame, fr_error frame) of
     (KRequest, None) \<Rightarrow> Some 0
   | (KReply, None) \<Rightarrow> Some 0
   | (KRequest, Some _) \<Rightarrow> None
   | (KReply, Some _) \<Rightarrow> None
   | (KError, Some code) \<Rightarrow> Some (error_to_byte code)
   | (KError, None) \<Rightarrow> None)"

definition decode_error_code :: "frame_kind \<Rightarrow> u8 \<Rightarrow> decode_error + frame_error option" where
  "decode_error_code kind byte = (case kind of
     KError \<Rightarrow>
       if byte = 0 then Inl MissingErrorCode
       else if byte = 1 then Inr (Some FeFull)
       else if byte = 2 then Inr (Some FeUnknownService)
       else if byte = 3 then Inr (Some FeUnknownMethod)
       else if byte = 4 then Inr (Some FeDecode)
       else if byte = 5 then Inr (Some FeProtocol)
       else if byte = 6 then Inr (Some FeInternal)
       else Inl (UnknownErrorCode byte)
   | _ \<Rightarrow> if byte = 0 then Inr None else Inl UnexpectedErrorCode)"

section \<open>Decoding\<close>

definition parse_length_prefix :: "bytes \<Rightarrow> frame_limits \<Rightarrow> decode_error + nat" where
  "parse_length_prefix prefix limits = (case check_limits_for_decode limits of
     Inl e \<Rightarrow> Inl e
   | Inr _ \<Rightarrow>
       let body_len = unat (from_be_bytes prefix :: u32) in
       if body_len < MIN_BODY_SIZE then Inl (BodyTooSmall body_len MIN_BODY_SIZE)
       else if body_len > max_frame_size limits then Inl (BodyTooLarge body_len (max_frame_size limits))
       else Inr body_len)"

text \<open>\<open>slice i j xs\<close> is \<open>xs[i..j]\<close>; the decoder checks its bounds before it slices.\<close>

definition slice :: "nat \<Rightarrow> nat \<Rightarrow> 'a list \<Rightarrow> 'a list" where
  "slice i j xs = take (j - i) (drop i xs)"

definition decode_body :: "bytes \<Rightarrow> decode_error + frame" where
  "decode_body body =
     (if length body < MIN_BODY_SIZE then Inl (BodyTooSmall (length body) MIN_BODY_SIZE)
      else if body ! 0 \<noteq> FRAME_VERSION_V1 then Inl (UnsupportedVersion (body ! 0))
      else case kind_of_byte (body ! 1) of Inl e \<Rightarrow> Inl e
      | Inr kind \<Rightarrow> (case decode_error_code kind (body ! 2) of Inl e \<Rightarrow> Inl e
      | Inr error \<Rightarrow>
          let request_id = from_be_bytes (slice 3 11 body);
              service_end = 12 + unat (body ! 11) in
          if service_end \<ge> length body then Inl ServiceLengthOverrun
          else if \<not> utf8_valid (slice 12 service_end body) then Inl ServiceNotUtf8
          else
            let method_start = service_end + 1;
                method_end = method_start + unat (body ! service_end) in
            if method_end > length body then Inl MethodLengthOverrun
            else if \<not> utf8_valid (slice method_start method_end body) then Inl MethodNotUtf8
            else Inr \<lparr>fr_version = body ! 0, fr_kind = kind, fr_error = error, fr_request_id = request_id,
              fr_service = slice 12 service_end body, fr_method = slice method_start method_end body,
              fr_payload = drop method_end body\<rparr>))"

text \<open>
  \<open>LENGTH_PREFIX_SIZE.checked_add(body_len)\<close> cannot overflow a 64-bit \<open>usize\<close>, as \<open>body_len\<close> comes
  from a \<open>u32\<close>.
\<close>

definition decode :: "bytes \<Rightarrow> frame_limits \<Rightarrow> decode_error + frame" where
  "decode bytes limits =
     (if length bytes < LENGTH_PREFIX_SIZE then Inl LengthPrefixTruncated
      else case parse_length_prefix (take LENGTH_PREFIX_SIZE bytes) limits of Inl e \<Rightarrow> Inl e
      | Inr body_len \<Rightarrow>
          let body_end = LENGTH_PREFIX_SIZE + body_len in
          if length bytes < body_end then Inl (BodyTruncated body_len (length bytes - LENGTH_PREFIX_SIZE))
          else if length bytes > body_end then Inl (TrailingBytes (length bytes - body_end))
          else decode_body (slice LENGTH_PREFIX_SIZE body_end bytes))"

section \<open>Encoding\<close>

definition encode :: "frame \<Rightarrow> frame_limits \<Rightarrow> encode_error + bytes" where
  "encode frame limits = (case check_limits_for_encode limits of
     Inl e \<Rightarrow> Inl e
   | Inr _ \<Rightarrow>
       let service_bytes = fr_service frame; method_bytes = fr_method frame in
       if length service_bytes > MAX_SERVICE_LEN then Inl (ServiceTooLong (length service_bytes))
       else if length method_bytes > MAX_METHOD_LEN then Inl (MethodTooLong (length method_bytes))
       else (case encode_error_code frame of
         None \<Rightarrow> Inl InconsistentFrame
       | Some error_byte \<Rightarrow>
           let body_len = MIN_BODY_SIZE + length service_bytes + length method_bytes
                 + length (fr_payload frame) in
           if body_len > max_frame_size limits then Inl (FrameTooLarge body_len (max_frame_size limits))
           else Inr (to_be_bytes (of_nat body_len :: u32) @ [fr_version frame]
             @ [kind_to_byte (fr_kind frame)] @ [error_byte] @ to_be_bytes (fr_request_id frame)
             @ [of_nat (length service_bytes)] @ service_bytes
             @ [of_nat (length method_bytes)] @ method_bytes @ fr_payload frame)))"

section \<open>The layout of a body\<close>

definition layout :: "u8 \<Rightarrow> u8 \<Rightarrow> u8 \<Rightarrow> bytes \<Rightarrow> bytes \<Rightarrow> bytes \<Rightarrow> bytes \<Rightarrow> bytes" where
  "layout v k e rid s m p = [v, k, e] @ rid @ [of_nat (length s)] @ s @ [of_nat (length m)] @ m @ p"

lemma unat_len: "n \<le> 255 \<Longrightarrow> unat (of_nat n :: u8) = n"
  by (simp add: unat_of_nat)

lemma layout_parts:
  assumes "length rid = 8" and "length s \<le> 255" and "length m \<le> 255"
  shows "layout v k e rid s m p ! 0 = v" "layout v k e rid s m p ! 1 = k" "layout v k e rid s m p ! 2 = e"
    "slice 3 11 (layout v k e rid s m p) = rid"
    "unat (layout v k e rid s m p ! 11) = length s"
    "slice 12 (12 + length s) (layout v k e rid s m p) = s"
    "unat (layout v k e rid s m p ! (12 + length s)) = length m"
    "length (layout v k e rid s m p) = 13 + length s + length m + length p"
  using assms by (simp_all add: layout_def slice_def nth_append nth_Cons' unat_len)

lemma layout_tail:
  assumes "length rid = 8"
  shows "slice (13 + length s) (13 + length s + length m) (layout v k e rid s m p) = m"
    "drop (13 + length s + length m) (layout v k e rid s m p) = p"
proof -
  obtain pre where "layout v k e rid s m p = pre @ m @ p" "length pre = 13 + length s"
  proof
    show "layout v k e rid s m p = ([v, k, e] @ rid @ [of_nat (length s)] @ s @ [of_nat (length m)]) @ m @ p"
      by (simp add: layout_def)
  qed (use assms in simp)
  then show "slice (13 + length s) (13 + length s + length m) (layout v k e rid s m p) = m"
    "drop (13 + length s + length m) (layout v k e rid s m p) = p"
    by (simp_all add: slice_def)
qed

text \<open>Every body whose two length bytes stay inside it has the layout.\<close>

lemma layout_of:
  assumes "13 \<le> length b" and "12 + unat (b ! 11) < length b"
    and "13 + unat (b ! 11) + unat (b ! (12 + unat (b ! 11))) \<le> length b"
  defines "se \<equiv> 12 + unat (b ! 11)"
  shows "b = layout (b ! 0) (b ! 1) (b ! 2) (slice 3 11 b) (slice 12 se b)
      (slice (se + 1) (se + 1 + unat (b ! se)) b) (drop (se + 1 + unat (b ! se)) b)"
    "length (slice 3 11 b) = 8" "length (slice 12 se b) = unat (b ! 11)"
    "length (slice (se + 1) (se + 1 + unat (b ! se)) b) = unat (b ! se)"
proof -
  let ?me = "se + 1 + unat (b ! se)"
  show l: "length (slice 3 11 b) = 8" "length (slice 12 se b) = unat (b ! 11)"
    "length (slice (se + 1) ?me b) = unat (b ! se)"
    using assms by (auto simp: slice_def)
  have cut: "drop i b = slice i j b @ drop j b" if "i \<le> j" for i j
    using that by (simp add: slice_def) (metis append_take_drop_id drop_drop le_add_diff_inverse2)
  have one: "drop i b = b ! i # drop (i + 1) b" if "i < length b" for i
    using that by (simp add: Cons_nth_drop_Suc)
  have ne: "b \<noteq> []" using assms(1) by auto
  have "b = drop 0 b" by simp
  also have "\<dots> = b ! 0 # b ! 1 # b ! 2 # drop 3 b"
    using ne one [of 0] one [of 1] one [of 2] assms(1) by (simp add: numeral_2_eq_2 numeral_3_eq_3)
  also have "drop 3 b = slice 3 11 b @ b ! 11 # drop 12 b"
    using cut [of 3 11] one [of 11] assms(1) by simp
  also have "drop 12 b = slice 12 se b @ b ! se # drop (se + 1) b"
    using cut [of 12 se] one [of se] assms(2) by (simp add: se_def)
  also have "drop (se + 1) b = slice (se + 1) ?me b @ drop ?me b"
    by (rule cut) simp
  finally show "b = layout (b ! 0) (b ! 1) (b ! 2) (slice 3 11 b) (slice 12 se b)
      (slice (se + 1) ?me b) (drop ?me b)"
    using l by (simp add: layout_def)
qed

lemma kind_of_byte_iff: "kind_of_byte b = Inr k \<longleftrightarrow> b = kind_to_byte k"
  by (cases k) (auto simp: kind_of_byte_def)

lemma error_code_iff:
  "decode_error_code k b = Inr e \<longleftrightarrow> encode_error_code (f\<lparr>fr_kind := k, fr_error := e\<rparr>) = Some b"
proof (cases e)
  case None
  then show ?thesis
    by (cases k) (auto simp: decode_error_code_def encode_error_code_def split: if_splits)
next
  case (Some c)
  then show ?thesis
    by (cases k; cases c) (auto simp: decode_error_code_def encode_error_code_def split: if_splits)
qed

definition frame_layout :: "frame \<Rightarrow> u8 \<Rightarrow> bytes" where
  "frame_layout f e = layout (fr_version f) (kind_to_byte (fr_kind f)) e (to_be_bytes (fr_request_id f))
     (fr_service f) (fr_method f) (fr_payload f)"

lemma decode_body_iff:
  "decode_body b = Inr f \<longleftrightarrow> (\<exists>e. b = frame_layout f e \<and> encode_error_code f = Some e
     \<and> fr_version f = FRAME_VERSION_V1 \<and> length (fr_service f) \<le> 255 \<and> length (fr_method f) \<le> 255
     \<and> utf8_valid (fr_service f) \<and> utf8_valid (fr_method f))"
  (is "?L \<longleftrightarrow> ?R")
proof
  assume ?R
  then obtain e where e: "b = frame_layout f e" "encode_error_code f = Some e"
    "fr_version f = FRAME_VERSION_V1" "length (fr_service f) \<le> 255" "length (fr_method f) \<le> 255"
    "utf8_valid (fr_service f)" "utf8_valid (fr_method f)" by blast
  have l8: "length (to_be_bytes (fr_request_id f)) = 8" by (rule be_nat_to_be) simp
  note parts = layout_parts [OF l8 e(4,5)]
  have "kind_of_byte (kind_to_byte (fr_kind f)) = Inr (fr_kind f)" by (simp add: kind_of_byte_iff)
  moreover have "decode_error_code (fr_kind f) e = Inr (fr_error f)"
    using e(2) by (simp add: error_code_iff [where f = f])
  moreover have "from_be_bytes (to_be_bytes (fr_request_id f)) = fr_request_id f"
    by (rule from_be_to_be [where n = 8]) simp
  ultimately show ?L
    using e(3,6,7) unfolding e(1) frame_layout_def decode_body_def Let_def
    by (simp add: parts parts(2) [unfolded One_nat_def] layout_tail [OF l8] MIN_BODY_SIZE_def)
next
  assume ?L
  let ?se = "12 + unat (b ! 11)"
  let ?me = "?se + 1 + unat (b ! ?se)"
  from \<open>?L\<close> obtain k e where d: "13 \<le> length b" "b ! 0 = FRAME_VERSION_V1" "kind_of_byte (b ! 1) = Inr k"
    "decode_error_code k (b ! 2) = Inr e" "?se < length b" "utf8_valid (slice 12 ?se b)" "?me \<le> length b"
    "utf8_valid (slice (?se + 1) ?me b)"
    "f = \<lparr>fr_version = b ! 0, fr_kind = k, fr_error = e, fr_request_id = from_be_bytes (slice 3 11 b),
       fr_service = slice 12 ?se b, fr_method = slice (?se + 1) ?me b, fr_payload = drop ?me b\<rparr>"
    unfolding decode_body_def Let_def MIN_BODY_SIZE_def
    by (auto split: if_splits sum.splits)
  have "13 + unat (b ! 11) + unat (b ! ?se) \<le> length b" using d(7) by simp
  note lay = layout_of [OF d(1,5) this]
  have "unat (b ! 11) < 2 ^ LENGTH(8)" "unat (b ! ?se) < 2 ^ LENGTH(8)" by (rule unsigned_less)+
  then have len: "length (fr_service f) \<le> 255" "length (fr_method f) \<le> 255" using d(9) lay(3,4) by auto
  have rid: "to_be_bytes (fr_request_id f) = slice 3 11 b"
    unfolding d(9) frame.simps by (rule to_be_from_be) (simp add: lay(2))
  have "encode_error_code f = Some (b ! 2)"
    using d(4) error_code_iff [of k "b ! 2" e f] d(9) by simp
  moreover have "b = frame_layout f (b ! 2)"
    using lay(1) d(3) unfolding frame_layout_def rid by (simp add: d(9) kind_of_byte_iff)
  ultimately show ?R using d len by (intro exI [of _ "b ! 2"]) simp
qed

section \<open>Properties\<close>

lemma encode_iff:
  "encode f limits = Inr bs \<longleftrightarrow> (\<exists>e. MIN_BODY_SIZE \<le> max_frame_size limits \<and> max_frame_size limits \<le> 2 ^ 32 - 1
     \<and> length (fr_service f) \<le> 255 \<and> length (fr_method f) \<le> 255 \<and> encode_error_code f = Some e
     \<and> length (frame_layout f e) \<le> max_frame_size limits
     \<and> bs = to_be_bytes (of_nat (length (frame_layout f e)) :: u32) @ frame_layout f e)"
proof -
  have len: "length (frame_layout f e) = 13 + length (fr_service f) + length (fr_method f) + length (fr_payload f)"
    for e
    by (simp add: frame_layout_def layout_def be_nat_to_be [where n = 8])
  show ?thesis
    unfolding encode_def check_limits_for_encode_def Let_def len
    by (auto simp: frame_layout_def layout_def MIN_BODY_SIZE_def MAX_SERVICE_LEN_def MAX_METHOD_LEN_def
        split: option.splits)
qed

lemma decode_iff:
  "decode bs limits = Inr f \<longleftrightarrow> (\<exists>body. MIN_BODY_SIZE \<le> max_frame_size limits \<and> max_frame_size limits \<le> 2 ^ 32 - 1
     \<and> MIN_BODY_SIZE \<le> length body \<and> length body \<le> max_frame_size limits
     \<and> bs = to_be_bytes (of_nat (length body) :: u32) @ body \<and> decode_body body = Inr f)"
  (is "?L \<longleftrightarrow> ?R")
proof
  assume ?L
  let ?n = "unat (from_be_bytes (take 4 bs) :: u32)"
  from \<open>?L\<close> have d: "4 \<le> length bs" "MIN_BODY_SIZE \<le> max_frame_size limits" "max_frame_size limits \<le> 2 ^ 32 - 1"
    "MIN_BODY_SIZE \<le> ?n" "?n \<le> max_frame_size limits" "length bs = 4 + ?n" "decode_body (drop 4 bs) = Inr f"
    by (auto simp: decode_def LENGTH_PREFIX_SIZE_def parse_length_prefix_def check_limits_for_decode_def
        slice_def Let_def split: if_splits sum.splits)
  have "of_nat (length (drop 4 bs)) = (from_be_bytes (take 4 bs) :: u32)"
    using d(6) by (simp add: word_unat_eq_iff unat_of_nat)
  then have "to_be_bytes (of_nat (length (drop 4 bs)) :: u32) = take 4 bs"
    using d(1) by (simp add: to_be_from_be)
  then show ?R using d by (intro exI [of _ "drop 4 bs"]) simp
next
  assume ?R
  then obtain body where b: "MIN_BODY_SIZE \<le> max_frame_size limits" "max_frame_size limits \<le> 2 ^ 32 - 1"
    "MIN_BODY_SIZE \<le> length body" "length body \<le> max_frame_size limits"
    "bs = to_be_bytes (of_nat (length body) :: u32) @ body" "decode_body body = Inr f" by blast
  let ?p = "to_be_bytes (of_nat (length body) :: u32)"
  have "length ?p = 4" by (rule be_nat_to_be) simp
  moreover have "unat (from_be_bytes ?p :: u32) = length body"
    using b(2,4) by (simp add: from_be_to_be [where n = 4] unat_of_nat)
  ultimately show ?L
    using b by (simp add: decode_def LENGTH_PREFIX_SIZE_def parse_length_prefix_def
        check_limits_for_decode_def slice_def Let_def)
qed

text \<open>
  (C17) The frame codec is a bijection between the byte strings that \<open>decode\<close> accepts and the
  version 1 frames with UTF-8 names that \<open>encode\<close> accepts: a byte string decodes to a frame exactly
  if the frame encodes to that byte string. In particular encoding then decoding returns the frame,
  there is one encoding per frame, and nothing that \<open>encode\<close> would refuse is ever decoded.
\<close>

theorem rpc_frame_codec_bijective:
  "decode bs limits = Inr f \<longleftrightarrow>
     encode f limits = Inr bs \<and> fr_version f = FRAME_VERSION_V1
     \<and> utf8_valid (fr_service f) \<and> utf8_valid (fr_method f)"
proof -
  have "MIN_BODY_SIZE \<le> length (frame_layout f e)" for e
    by (simp add: frame_layout_def layout_def MIN_BODY_SIZE_def be_nat_to_be [where n = 8])
  then show ?thesis unfolding decode_iff encode_iff decode_body_iff by auto
qed

end
