(* ===== verification/Chunked_Decoder.thy ===== *)
theory Chunked_Decoder
  imports Tina_Prelude
begin

text \<open>
  The decoder of HTTP/1.1 chunked bodies in \<open>tina-http/src/chunked_decoder.rs\<close>, and the way its
  callers drive it: they append every read to the bytes not consumed yet, call \<open>feed_all\<close> and drop
  what it consumed.

  The fixed array \<open>size_buf\<close> with its fill count \<open>size_len\<close> is the list of its first \<open>size_len\<close>
  bytes. A chunk borrowed from the input is the list of its bytes.
\<close>

section \<open>State\<close>

definition MAX_SIZE_LINE_LEN :: nat where
  "MAX_SIZE_LINE_LEN = 64"

datatype chunked_error = BadChunkSize | MissingCrlf | ChunkedBodyTooLarge | TrailersNotSupported

datatype chunk_state = StSize | StData nat | StDataCrlf | StTrailers | StDone

record chunked_decoder =
  cd_max_body_bytes :: nat
  cd_decoded_total :: nat
  cd_state :: chunk_state
  cd_size_buf :: bytes
  cd_trailer_partial :: u8
  cd_has_trailer_partial :: bool

datatype chunked_progress =
    NeedMore
  | Chunk bytes
  | Complete
  | Failed chunked_error

datatype size_result =
    SizeComplete nat nat
  | SizeNeedMore nat
  | SizeError chunked_error nat

datatype feed_all_result = AllComplete | AllFailed chunked_error | AllNeedMore

definition cd_new :: "nat \<Rightarrow> chunked_decoder" where
  "cd_new max_body_bytes = \<lparr>cd_max_body_bytes = max_body_bytes, cd_decoded_total = 0, cd_state = StSize,
     cd_size_buf = [], cd_trailer_partial = 0, cd_has_trailer_partial = False\<rparr>"

definition cd_is_complete :: "chunked_decoder \<Rightarrow> bool" where
  "cd_is_complete d \<longleftrightarrow> cd_state d = StDone"

definition preferred_read_size :: "nat \<Rightarrow> chunked_decoder \<Rightarrow> nat" where
  "preferred_read_size mx d = (case cd_state d of StData remaining \<Rightarrow> max (min remaining mx) 1 | _ \<Rightarrow> 1)"

section \<open>Size lines\<close>

definition is_blank :: "u8 \<Rightarrow> bool" where
  "is_blank b \<longleftrightarrow> b = 32 \<or> b = 9"

definition is_ascii_hexdigit :: "u8 \<Rightarrow> bool" where
  "is_ascii_hexdigit b \<longleftrightarrow> 48 \<le> b \<and> b \<le> 57 \<or> 65 \<le> b \<and> b \<le> 70 \<or> 97 \<le> b \<and> b \<le> 102"

definition hex_digit :: "u8 \<Rightarrow> nat" where
  "hex_digit b = (if b \<le> 57 then unat b - 48 else if b \<le> 70 then unat b - 55 else unat b - 87)"

definition hex_value :: "bytes \<Rightarrow> nat" where
  "hex_value = foldl (\<lambda>n b. n * 16 + hex_digit b) 0"

text \<open>All trailing blanks are cut off, unless nothing else is there.\<close>

definition trim_blanks :: "bytes \<Rightarrow> bytes" where
  "trim_blanks xs = (if \<forall>b \<in> set xs. is_blank b then xs else rev (dropWhile is_blank (rev xs)))"

definition parse_chunk_size_line :: "bytes \<Rightarrow> chunked_error + nat" where
  "parse_chunk_size_line line =
     (if line = [] then Inl BadChunkSize
      else if is_blank (hd line) then Inl BadChunkSize
      else
        let size_part = (case position (\<lambda>b. b = 59) line of None \<Rightarrow> line | Some pos \<Rightarrow> take pos line);
            trimmed = trim_blanks size_part in
        if trimmed = [] then Inl BadChunkSize
        else if \<not> (\<forall>b \<in> set trimmed. is_ascii_hexdigit b) then Inl BadChunkSize
        else if hex_value trimmed > usize_max then Inl BadChunkSize
        else Inr (hex_value trimmed))"

text \<open>The first index at which CR LF starts.\<close>

fun find_crlf :: "bytes \<Rightarrow> nat option" where
  "find_crlf (a # b # xs) = (if a = 13 \<and> b = 10 then Some 0 else map_option Suc (find_crlf (b # xs)))"
| "find_crlf _ = None"

definition size_line_done ::
    "bytes \<Rightarrow> nat \<Rightarrow> chunked_decoder \<Rightarrow> size_result \<times> chunked_decoder" where
  "size_line_done line consumed d =
     (case parse_chunk_size_line line of
        Inr sz \<Rightarrow> (SizeComplete sz consumed, d\<lparr>cd_size_buf := []\<rparr>)
      | Inl e \<Rightarrow> (SizeError e consumed, d\<lparr>cd_size_buf := []\<rparr>))"

definition cd_feed_size :: "bytes \<Rightarrow> chunked_decoder \<Rightarrow> size_result \<times> chunked_decoder" where
  "cd_feed_size input d =
     (let buf = cd_size_buf d in
      if buf \<noteq> [] \<and> last buf = 13 then
        if input = [] then (SizeNeedMore 0, d)
        else if hd input = 10 then size_line_done (butlast buf) 1 d
        else (SizeError MissingCrlf 0, d\<lparr>cd_size_buf := []\<rparr>)
      else (case find_crlf input of
          Some i \<Rightarrow>
            if length buf + i \<ge> MAX_SIZE_LINE_LEN
            then (SizeError BadChunkSize (i + 2), d\<lparr>cd_size_buf := []\<rparr>)
            else size_line_done (buf @ take i input) (i + 2) d
        | None \<Rightarrow>
            if MAX_SIZE_LINE_LEN < length buf then (SizeError BadChunkSize 0, d\<lparr>cd_size_buf := []\<rparr>)
            else if length input \<ge> MAX_SIZE_LINE_LEN - length buf
            then (SizeError BadChunkSize (length input), d\<lparr>cd_size_buf := []\<rparr>)
            else (SizeNeedMore (length input), d\<lparr>cd_size_buf := buf @ input\<rparr>)))"

section \<open>Feeding\<close>

definition cd_feed_data ::
    "nat \<Rightarrow> nat \<Rightarrow> bytes \<Rightarrow> chunked_decoder \<Rightarrow> chunked_progress \<times> nat \<times> chunked_decoder" where
  "cd_feed_data data_remaining consumed remaining d =
     (let tk = min data_remaining (length remaining) in
      if tk = 0 then (NeedMore, consumed, d)
      else if cd_decoded_total d + tk > usize_max then (Failed ChunkedBodyTooLarge, consumed, d)
      else
        let new_remaining = data_remaining - tk in
        (Chunk (take tk remaining), consumed + tk,
         d\<lparr>cd_decoded_total := cd_decoded_total d + tk,
           cd_state := (if new_remaining = 0 then StDataCrlf else StData new_remaining)\<rparr>))"

definition cd_feed_trailers ::
    "nat \<Rightarrow> bytes \<Rightarrow> chunked_decoder \<Rightarrow> chunked_progress \<times> nat \<times> chunked_decoder" where
  "cd_feed_trailers consumed remaining d =
     (if cd_has_trailer_partial d \<and> cd_trailer_partial d = 13 then
        if remaining = [] then (NeedMore, consumed, d)
        else if hd remaining = 10
        then (Complete, consumed + 1, d\<lparr>cd_has_trailer_partial := False, cd_state := StDone\<rparr>)
        else (Failed TrailersNotSupported, consumed, d\<lparr>cd_has_trailer_partial := False\<rparr>)
      else if length remaining < 2 then
        if length remaining = 1 \<and> hd remaining = 13
        then (NeedMore, consumed + length remaining, d\<lparr>cd_trailer_partial := 13, cd_has_trailer_partial := True\<rparr>)
        else if length remaining = 1 then (Failed TrailersNotSupported, consumed, d)
        else (NeedMore, consumed + length remaining, d)
      else if take 2 remaining = [13, 10] then (Complete, consumed + 2, d\<lparr>cd_state := StDone\<rparr>)
      else (Failed TrailersNotSupported, consumed, d))"

lemma find_crlf_Some:
  "find_crlf xs = Some i \<Longrightarrow> i + 1 < length xs \<and> xs ! i = 13 \<and> xs ! (i + 1) = 10"
  by (induction xs arbitrary: i rule: find_crlf.induct) (auto split: if_splits)

lemma feed_size_consumes:
  "cd_feed_size input d = (SizeComplete sz n, d') \<Longrightarrow> 0 < n"
  by (auto simp: cd_feed_size_def size_line_done_def Let_def split: if_splits option.splits sum.splits)

text \<open>One call of \<open>feed\<close>, from the loop head with \<open>consumed\<close> bytes behind and \<open>remaining\<close> ahead.\<close>

function cd_feed_loop ::
    "nat \<Rightarrow> bytes \<Rightarrow> chunked_decoder \<Rightarrow> chunked_progress \<times> nat \<times> chunked_decoder" where
  "cd_feed_loop consumed remaining d =
     (if remaining = [] \<and> cd_state d \<noteq> StDone then (NeedMore, consumed, d)
      else case cd_state d of
        StSize \<Rightarrow>
          (case cd_feed_size remaining d of
             (SizeComplete sz n, d1) \<Rightarrow>
               if sz = 0 then cd_feed_loop (consumed + n) (drop n remaining) (d1\<lparr>cd_state := StTrailers\<rparr>)
               else if cd_decoded_total d1 + sz > usize_max then (Failed ChunkedBodyTooLarge, consumed + n, d1)
               else if cd_decoded_total d1 + sz > cd_max_body_bytes d1
               then (Failed ChunkedBodyTooLarge, consumed + n, d1)
               else cd_feed_loop (consumed + n) (drop n remaining) (d1\<lparr>cd_state := StData sz\<rparr>)
           | (SizeNeedMore n, d1) \<Rightarrow> (NeedMore, consumed + n, d1)
           | (SizeError e n, d1) \<Rightarrow> (Failed e, consumed + n, d1))
      | StData data_remaining \<Rightarrow> cd_feed_data data_remaining consumed remaining d
      | StDataCrlf \<Rightarrow>
          if length remaining < 2 then (NeedMore, consumed, d)
          else if take 2 remaining \<noteq> [13, 10] then (Failed MissingCrlf, consumed, d)
          else cd_feed_loop (consumed + 2) (drop 2 remaining) (d\<lparr>cd_state := StSize\<rparr>)
      | StTrailers \<Rightarrow> cd_feed_trailers consumed remaining d
      | StDone \<Rightarrow> (Complete, consumed, d))"
  by pat_completeness auto
termination
  by (relation "measure (\<lambda>(_, remaining, _). length remaining)")
    (auto dest: feed_size_consumes [OF sym])

declare cd_feed_loop.simps [simp del]

definition cd_feed :: "bytes \<Rightarrow> chunked_decoder \<Rightarrow> chunked_progress \<times> nat \<times> chunked_decoder" where
  "cd_feed input d = cd_feed_loop 0 input d"

lemma feed_loop_states:
  "cd_state d = StDone \<Longrightarrow> cd_feed_loop c xs d = (Complete, c, d)"
  "cd_state d \<noteq> StDone \<Longrightarrow> cd_feed_loop c [] d = (NeedMore, c, d)"
  "cd_state d = StData k \<Longrightarrow> xs \<noteq> [] \<Longrightarrow> cd_feed_loop c xs d = cd_feed_data k c xs d"
  "cd_state d = StTrailers \<Longrightarrow> xs \<noteq> [] \<Longrightarrow> cd_feed_loop c xs d = cd_feed_trailers c xs d"
  "cd_state d = StDataCrlf \<Longrightarrow> cd_feed_loop c xs d =
     (if length xs < 2 then (NeedMore, c, d)
      else if take 2 xs \<noteq> [13, 10] then (Failed MissingCrlf, c, d)
      else cd_feed_loop (c + 2) (drop 2 xs) (d\<lparr>cd_state := StSize\<rparr>))"
  by (simp_all add: cd_feed_loop.simps [of c])

lemma feed_loop_size:
  assumes "cd_state d = StSize" and "xs \<noteq> []"
  shows "cd_feed_size xs d = (SizeComplete sz n, d1) \<Longrightarrow> cd_feed_loop c xs d =
      (if sz = 0 then cd_feed_loop (c + n) (drop n xs) (d1\<lparr>cd_state := StTrailers\<rparr>)
       else if cd_decoded_total d1 + sz > usize_max \<or> cd_decoded_total d1 + sz > cd_max_body_bytes d1
       then (Failed ChunkedBodyTooLarge, c + n, d1)
       else cd_feed_loop (c + n) (drop n xs) (d1\<lparr>cd_state := StData sz\<rparr>))"
    and "cd_feed_size xs d = (SizeNeedMore n, d1) \<Longrightarrow> cd_feed_loop c xs d = (NeedMore, c + n, d1)"
    and "cd_feed_size xs d = (SizeError e n, d1) \<Longrightarrow> cd_feed_loop c xs d = (Failed e, c + n, d1)"
  using assms by (simp_all add: cd_feed_loop.simps [of c])

text \<open>
  What \<open>feed\<close> answers on a chunk, and that a chunk is never empty: \<open>feed_all\<close> makes progress.
\<close>

lemma feed_loop_chunk:
  "cd_feed_loop c xs d = (Chunk bs, n, d') \<Longrightarrow> c < n"
proof (induction "length xs" arbitrary: c xs d rule: less_induct)
  case less
  show ?case
  proof (cases "cd_state d")
    case StSize
    show ?thesis
    proof (cases "xs = []")
      case False
      obtain r d1 where r: "cd_feed_size xs d = (r, d1)" by (cases "cd_feed_size xs d")
      show ?thesis
      proof (cases r)
        case (SizeComplete sz k)
        then have "0 < k" using r feed_size_consumes by blast
        then have "length (drop k xs) < length xs" using False by simp
        then show ?thesis
          using less.hyps [of "drop k xs" "c + k"] less.prems \<open>0 < k\<close>
            feed_loop_size(1) [OF StSize False r [unfolded SizeComplete], of c]
          by (fastforce split: if_splits)
      qed (use feed_loop_size(2,3) [OF StSize False] r less.prems in auto)
    qed (use StSize less.prems in \<open>simp add: feed_loop_states\<close>)
  next
    case StDataCrlf
    then show ?thesis
      using less.hyps [of "drop 2 xs" "c + 2"] less.prems
      by (fastforce simp: feed_loop_states split: if_splits)
  next
    case (StData k)
    then show ?thesis
      using less.prems
      by (cases "xs = []") (auto simp: feed_loop_states cd_feed_data_def Let_def split: if_splits)
  next
    case StTrailers
    then show ?thesis
      using less.prems by (cases "xs = []") (auto simp: feed_loop_states cd_feed_trailers_def split: if_splits)
  next
    case StDone
    then show ?thesis using less.prems by (simp add: feed_loop_states)
  qed
qed

lemma feed_chunk:
  "cd_feed xs d = (Chunk bs, n, d') \<Longrightarrow> 0 < n \<and> xs \<noteq> []"
  using feed_loop_chunk [of 0 xs d bs n d'] feed_loop_states(1) [of d 0 xs] feed_loop_states(2) [of d 0]
  by (cases "cd_state d = StDone") (auto simp: cd_feed_def)

text \<open>
  \<open>input\<close> is the part of the input at and after \<open>total_consumed\<close>; the answer counts the bytes
  consumed from there on.
\<close>

function cd_feed_all ::
    "bytes \<Rightarrow> bytes \<Rightarrow> chunked_decoder \<Rightarrow> feed_all_result \<times> nat \<times> bytes \<times> chunked_decoder" where
  "cd_feed_all input accumulator d =
     (case cd_feed input d of
        (Chunk data, consumed, d1) \<Rightarrow>
          (case cd_feed_all (drop consumed input) (accumulator @ data) d1 of
             (r, later, accumulator', d2) \<Rightarrow> (r, consumed + later, accumulator', d2))
      | (Complete, consumed, d1) \<Rightarrow> (AllComplete, consumed, accumulator, d1)
      | (Failed e, consumed, d1) \<Rightarrow> (AllFailed e, consumed, accumulator, d1)
      | (NeedMore, consumed, d1) \<Rightarrow> (AllNeedMore, consumed, accumulator, d1))"
  by pat_completeness auto
termination
  by (relation "measure (\<lambda>(input, _, _). length input)") (auto dest!: feed_chunk [OF sym])

declare cd_feed_all.simps [simp del]

section \<open>The callers\<close>

text \<open>
  A caller keeps the bytes not consumed yet and the body decoded so far. Each read is appended, and
  decoding stops at the first answer other than \<open>NeedMore\<close>.
\<close>

fun cd_reads ::
    "bytes list \<Rightarrow> bytes \<Rightarrow> bytes \<Rightarrow> chunked_decoder \<Rightarrow> feed_all_result \<times> bytes \<times> bytes" where
  "cd_reads [] left body d = (AllNeedMore, left, body)"
| "cd_reads (r # rs) left body d =
     (case cd_feed_all (left @ r) body d of
        (AllNeedMore, n, body', d') \<Rightarrow> cd_reads rs (drop n (left @ r)) body' d'
      | (res, n, body', d') \<Rightarrow> (res, drop n (left @ r), body'))"

section \<open>Well-formed bodies on the wire\<close>




















section \<open>Bounds\<close>

definition cd_inv :: "chunked_decoder \<Rightarrow> bool" where
  "cd_inv d \<longleftrightarrow> cd_decoded_total d \<le> cd_max_body_bytes d
     \<and> (\<forall>k. cd_state d = StData k \<longrightarrow> 0 < k \<and> cd_decoded_total d + k \<le> cd_max_body_bytes d)"

definition bound_spec :: "nat \<Rightarrow> chunked_decoder \<Rightarrow> chunked_progress \<Rightarrow> nat \<Rightarrow> chunked_decoder \<Rightarrow> bool" where
  "bound_spec len d pr k d' \<longleftrightarrow> cd_inv d' \<and> cd_max_body_bytes d' = cd_max_body_bytes d
     \<and> cd_decoded_total d' = cd_decoded_total d + (case pr of Chunk bs \<Rightarrow> length bs | _ \<Rightarrow> 0)
     \<and> (pr = NeedMore \<longrightarrow> len \<le> k + 1)"

lemma feed_size_frame:
  assumes "cd_feed_size xs d = (r, d1)"
  shows "\<exists>buf. d1 = d\<lparr>cd_size_buf := buf\<rparr>" and "r = SizeNeedMore n \<Longrightarrow> length xs \<le> n + 1"
proof -
  have "\<exists>buf. d = d\<lparr>cd_size_buf := buf\<rparr>" by (rule exI [of _ "cd_size_buf d"]) simp
  then show "\<exists>buf. d1 = d\<lparr>cd_size_buf := buf\<rparr>"
    using assms by (auto simp: cd_feed_size_def size_line_done_def Let_def split: if_splits option.splits sum.splits)
  show "r = SizeNeedMore n \<Longrightarrow> length xs \<le> n + 1"
    using assms by (auto simp: cd_feed_size_def size_line_done_def Let_def split: if_splits option.splits sum.splits)
qed

lemma feed_loop_bound:
  assumes "cd_inv d"
  shows "\<exists>pr k d'. cd_feed_loop c xs d = (pr, c + k, d') \<and> bound_spec (length xs) d pr k d'"
  using assms
proof (induction "length xs" arbitrary: c xs d rule: less_induct)
  case less
  have stop: "\<exists>pr k d'. cd_feed_loop c xs d = (pr, c + k, d') \<and> bound_spec (length xs) d pr k d'"
    if "cd_feed_loop c xs d = (pr, c + k, d')" "bound_spec (length xs) d pr k d'" for pr k d'
    using that by blast
  have step: "\<exists>pr k d'. cd_feed_loop c xs d = (pr, c + k, d') \<and> bound_spec (length xs) d pr k d'"
    if "cd_feed_loop c xs d = cd_feed_loop (c + m) (drop m xs) d2" "0 < m" "xs \<noteq> []" "cd_inv d2"
      "cd_max_body_bytes d2 = cd_max_body_bytes d" "cd_decoded_total d2 = cd_decoded_total d" for m d2
  proof -
    have "length (drop m xs) < length xs" using that(2,3) by simp
    from less.hyps [OF this that(4), of "c + m"] obtain pr k d' where
      "cd_feed_loop (c + m) (drop m xs) d2 = (pr, c + (m + k), d')" "bound_spec (length (drop m xs)) d2 pr k d'"
      by (auto simp: add.assoc)
    moreover from this(2) have "bound_spec (length xs) d pr (m + k) d'"
      using that(5,6) by (auto simp: bound_spec_def)
    ultimately show ?thesis using that(1) by auto
  qed
  show ?case
  proof (cases "xs = []")
    case True
    then show ?thesis
      using less.prems stop [of NeedMore 0 d] stop [of Complete 0 d]
      by (cases "cd_state d = StDone") (simp_all add: feed_loop_states bound_spec_def)
  next
    case ne: False
    show ?thesis
    proof (cases "cd_state d")
      case StSize
      obtain r d1 where r: "cd_feed_size xs d = (r, d1)" by (cases "cd_feed_size xs d")
      obtain buf where d1: "d1 = d\<lparr>cd_size_buf := buf\<rparr>" using feed_size_frame(1) [OF r] by blast
      have inv1: "cd_inv d1" using less.prems by (simp add: cd_inv_def d1)
      show ?thesis
      proof (cases r)
        case (SizeComplete sz n)
        note loop = feed_loop_size(1) [OF StSize ne r [unfolded SizeComplete], of c]
        have n: "0 < n" using r SizeComplete feed_size_consumes by blast
        consider "sz = 0" | "sz \<noteq> 0" "cd_decoded_total d1 + sz > usize_max \<or> cd_decoded_total d1 + sz > cd_max_body_bytes d1"
          | "sz \<noteq> 0" "cd_decoded_total d1 + sz \<le> usize_max" "cd_decoded_total d1 + sz \<le> cd_max_body_bytes d1" by linarith
        then show ?thesis
        proof cases
          case 1
          then show ?thesis
            using loop inv1 n ne by (intro step [of n "d1\<lparr>cd_state := StTrailers\<rparr>"]) (simp_all add: d1 cd_inv_def)
        next
          case 2
          then show ?thesis using loop inv1 by (intro stop [of "Failed ChunkedBodyTooLarge" n d1]) (simp_all add: d1 bound_spec_def)
        next
          case 3
          then show ?thesis
            using loop inv1 n ne by (intro step [of n "d1\<lparr>cd_state := StData sz\<rparr>"]) (simp_all add: d1 cd_inv_def)
        qed
      next
        case (SizeNeedMore n)
        then show ?thesis
          using feed_loop_size(2) [OF StSize ne] feed_size_frame(2) [OF r SizeNeedMore] r inv1
          by (intro stop [of NeedMore n d1]) (simp_all add: d1 bound_spec_def)
      next
        case (SizeError e n)
        then show ?thesis
          using feed_loop_size(3) [OF StSize ne] r inv1
          by (intro stop [of "Failed e" n d1]) (simp_all add: d1 bound_spec_def)
      qed
    next
      case (StData k)
      then have "\<exists>pr j d'. cd_feed_data k c xs d = (pr, c + j, d') \<and> bound_spec (length xs) d pr j d'"
        using less.prems ne by (auto simp: cd_feed_data_def Let_def bound_spec_def cd_inv_def min_def)
      then show ?thesis using StData ne by (simp add: feed_loop_states)
    next
      case StDataCrlf
      show ?thesis
      proof (cases "length xs < 2 \<or> take 2 xs \<noteq> [13, 10]")
        case True
        then show ?thesis
          using StDataCrlf less.prems stop [of NeedMore 0 d] stop [of "Failed MissingCrlf" 0 d]
          by (cases "length xs < 2") (simp_all add: feed_loop_states bound_spec_def)
      next
        case False
        then show ?thesis
          using StDataCrlf less.prems ne
          by (intro step [of 2 "d\<lparr>cd_state := StSize\<rparr>"]) (simp_all add: feed_loop_states cd_inv_def)
      qed
    next
      case StTrailers
      then have "\<exists>pr j d'. cd_feed_trailers c xs d = (pr, c + j, d') \<and> bound_spec (length xs) d pr j d'"
        using less.prems by (simp add: cd_feed_trailers_def bound_spec_def cd_inv_def)
      then show ?thesis using StTrailers ne by (simp add: feed_loop_states)
    next
      case StDone
      then show ?thesis
        using less.prems stop [of Complete 0 d] by (simp add: feed_loop_states bound_spec_def)
    qed
  qed
qed

lemma feed_all_bound:
  assumes "cd_inv d" and "cd_decoded_total d = length acc" and "cd_feed_all xs acc d = (r, k, acc', d')"
  shows "cd_inv d' \<and> cd_decoded_total d' = length acc' \<and> cd_max_body_bytes d' = cd_max_body_bytes d
    \<and> (r = AllNeedMore \<longrightarrow> length xs \<le> k + 1)"
  using assms
proof (induction "length xs" arbitrary: xs d acc k rule: less_induct)
  case less
  from feed_loop_bound [OF less.prems(1), of 0 xs]
  obtain pr n d1 where f: "cd_feed xs d = (pr, n, d1)" "bound_spec (length xs) d pr n d1"
    by (auto simp: cd_feed_def)
  show ?case
  proof (cases pr)
    case (Chunk bs)
    obtain j where j: "cd_feed_all (drop n xs) (acc @ bs) d1 = (r, j, acc', d')" "k = n + j"
      using less.prems(3) f(1) Chunk by (subst (asm) cd_feed_all.simps) (auto split: prod.splits)
    have "length (drop n xs) < length xs" using f(1) Chunk feed_chunk by fastforce
    from less.hyps [OF this _ _ j(1)] show ?thesis
      using f(2) less.prems(2) Chunk j(2) by (auto simp: bound_spec_def)
  qed (use less.prems f cd_feed_all.simps [of xs acc d] in \<open>auto simp: bound_spec_def\<close>)
qed

lemma reads_bound:
  assumes "cd_inv d" and "cd_decoded_total d = length acc" and "length left \<le> 1"
    and "cd_reads rs left acc d = (r, tail, body)"
  shows "length body \<le> cd_max_body_bytes d \<and> (r = AllNeedMore \<longrightarrow> length tail \<le> 1)"
  using assms
proof (induction rs arbitrary: left acc d)
  case Nil
  then show ?case by (auto simp: cd_inv_def)
next
  case (Cons x rs)
  obtain r1 k acc1 d1 where f: "cd_feed_all (left @ x) acc d = (r1, k, acc1, d1)"
    by (metis prod_cases4)
  note b = feed_all_bound [OF Cons.prems(1,2) f]
  show ?case
  proof (cases "r1 = AllNeedMore")
    case True
    then have "cd_reads rs (drop k (left @ x)) acc1 d1 = (r, tail, body)" using Cons.prems(4) f by simp
    moreover have "length (left @ x) \<le> k + 1" using b True by blast
    then have "length (drop k (left @ x)) \<le> 1" unfolding length_drop by linarith
    ultimately show ?thesis using Cons.IH [of d1 acc1 "drop k (left @ x)"] b by metis
  next
    case False
    then show ?thesis using Cons.prems(4) f b by (cases r1) (auto simp: cd_inv_def)
  qed
qed

lemmas cd_eval = cd_new_def cd_feed_def cd_feed_all.simps cd_feed_loop.simps cd_feed_size_def size_line_done_def
  cd_feed_data_def cd_feed_trailers_def parse_chunk_size_line_def trim_blanks_def is_blank_def
  is_ascii_hexdigit_def hex_value_def hex_digit_def MAX_SIZE_LINE_LEN_def usize_max_def Let_def

section \<open>Properties\<close>



text \<open>
  (C19) The decoder bounds what a peer can make it hold. Whatever bytes arrive in whatever reads,
  the decoded body never exceeds \<open>max_body_bytes\<close>, and between reads a caller never has to keep more
  than one byte that the decoder did not take.
\<close>

theorem chunked_body_bounded:
  assumes "cd_reads rs [] [] (cd_new max_body) = (r, tail, body)"
  shows "length body \<le> max_body \<and> (r = AllNeedMore \<longrightarrow> length tail \<le> 1)"
proof -
  have "cd_inv (cd_new max_body)" "cd_decoded_total (cd_new max_body) = length []"
    "cd_max_body_bytes (cd_new max_body) = max_body"
    by (simp_all add: cd_inv_def cd_new_def)
  then show ?thesis using reads_bound [OF _ _ _ assms] by simp
qed

theorem chunked_body_bounded_witness:
  "cd_reads [[53, 13, 10, 104]] [] [] (cd_new 10) = (AllNeedMore, [], [104])
    \<and> length [104 :: u8] \<le> 10 \<and> length ([] :: bytes) \<le> 1"
proof -
  have "cd_reads [[53, 13, 10, 104]] [] [] (cd_new 10) = (AllNeedMore, [], [104])"
    by (simp add: cd_eval)
  with chunked_body_bounded [OF this] show ?thesis by simp
qed


end
