(* ===== verification/Rt_Types.thy ===== *)
theory Rt_Types
  imports Mailbox Restart Capacity
begin

text \<open>
  The vocabulary of the single-shard runtime \<open>Runtime\<close> of \<open>tina-runtime\<close>: addresses, trace events
  (\<open>trace.rs\<close>), erased effects, calls and spawns (\<open>dispatch.rs\<close>, \<open>call/mod.rs\<close>), envelopes to other
  shards (\<open>remote.rs\<close>), and the environment the runtime runs in.

  A boxed value (\<open>Box<dyn Any>\<close>: a message, a reply, a stop result, a backend request or its
  output) is an element of the type \<open>'m\<close>. The state of an isolate is an element of \<open>'h\<close>. Everything
  outside the runtime (the shard value that handlers share, the clock, the I/O driver, the lanes to
  other shards, what closures of the application capture) is one value of type \<open>'d\<close>, the world.
  Identifiers are natural numbers: their 64-bit counters are far from exhaustion in any run.
\<close>

section \<open>Addresses and reasons\<close>

record reg_address =
  ra_system :: nat
  ra_shard :: nat
  ra_isolate :: nat
  ra_generation :: nat

datatype send_rejected_reason = RejForeignSystem nat nat | RejFull | RejClosed

datatype call_rejected_reason =
  CrForeignSystem nat nat | CrReplyAbandoned | CrHandlerPanicked | CrUnsupportedMessage

datatype cancel_cause = CallerCancelled | CallerTimedOut | OwnerStopped | RuntimeStopped

datatype call_reply_rejected =
    RrForeignSystem nat nat | RrNoPendingCall | RrCallerCancelled | RrCallerTimedOut
  | RrOwnerStopped | RrRuntimeStopped | RrReplyPathFull | RrRequesterShardClosed

datatype deferred_reply_rejected =
    DrForeignSystem nat nat | DrCallerClosed | DrCallerCancelled | DrCallerTimedOut
  | DrOwnerStopped | DrRuntimeStopped | DrReplyPathFull | DrRequesterShardClosed | DrTypeMismatch

fun call_reply_reason_for_cause :: "cancel_cause \<Rightarrow> call_reply_rejected" where
  "call_reply_reason_for_cause CallerCancelled = RrCallerCancelled"
| "call_reply_reason_for_cause CallerTimedOut = RrCallerTimedOut"
| "call_reply_reason_for_cause OwnerStopped = RrOwnerStopped"
| "call_reply_reason_for_cause RuntimeStopped = RrRuntimeStopped"

fun deferred_reply_reason_for_cause :: "cancel_cause \<Rightarrow> deferred_reply_rejected" where
  "deferred_reply_reason_for_cause CallerCancelled = DrCallerCancelled"
| "deferred_reply_reason_for_cause CallerTimedOut = DrCallerTimedOut"
| "deferred_reply_reason_for_cause OwnerStopped = DrOwnerStopped"
| "deferred_reply_reason_for_cause RuntimeStopped = DrRuntimeStopped"

datatype completion_rejected = MailboxFull | RequesterClosed | ResourceClosed | TerminalActionOnFailure

datatype terminal_action = ActStopRequester | ActNoop

datatype restart_skipped =
    NotRestartable | FactoryPanicked | RemoteNotRestartable | SkParentMailboxFull
  | SkParentMailboxClosed | SkReservationsUnsupported

datatype terminal_disposed =
    StoppedWithoutResult | TdTypeMismatch | MapperPanicked | StaleGeneration | TdDuplicate
  | TdParentMailboxFull | TdParentMailboxClosed | TdParentStopped | TdShutdown

datatype supervision_rejected = BudgetExceeded u32 u32 | SupervisorStopped

text \<open>
  \<open>CallKind\<close> and \<open>CallError\<close> name every backend operation and failure. The dispatcher singles out
  the kinds and errors written here; the others are numbered.
\<close>

datatype call_kind = KindObservedSend | KindIsolateCall | KindCancelCall | KindTcpBind | KindTlsBind
  | KindBackend nat

datatype call_error = TargetFull | TargetClosed | TimedOut | RejectedError call_rejected_reason
  | BackendError nat

datatype persistence_info = SnapshotCommit | JournalAppend nat | Recovery

datatype effect_kind =
    KNoop | KReply | KReject | KSend | KSpawn | KSpawnObserved | KSpawnObservedOn | KStop | KFail
  | KStopWith | KRestartChildren | KStopChildren | KIo | KBatch | KReplyTo | KFact

section \<open>Events\<close>

datatype 'm event_kind =
    MailboxAccepted
  | HandlerStarted
  | HandlerPanicked
  | HandlerReportedFailure
  | HandlerFinished effect_kind
  | EffectObserved effect_kind
  | SendDispatchAttempted nat nat nat
  | SendAccepted nat nat nat
  | SendRejected nat nat nat send_rejected_reason
  | Spawned nat
  | ChildStarted nat nat nat
  | RemoteChildStopRequested nat nat nat nat
  | RemoteChildStopped nat nat nat nat
  | RemoteChildControlRejected nat send_rejected_reason
  | RemoteChildControlPressure nat
  | SupervisorRestartTriggered restart_policy nat nat
  | SupervisorRestartRejected nat nat supervision_rejected
  | RestartChildAttempted nat nat nat
  | RestartChildSkipped nat nat nat restart_skipped
  | RestartChildCompleted nat nat nat nat nat
  | ChildStopped nat nat nat
  | ChildTerminalDelivered nat nat nat
  | ChildTerminalDisposed nat nat nat terminal_disposed
  | IsolateStopped
  | MessageAbandoned
  | CallDispatchAttempted nat call_kind
  | CallCompleted nat call_kind
  | CallContinuationOverflowed nat call_kind
  | CallFailed nat call_kind call_error
  | CallCompletionRejected nat call_kind completion_rejected
  | CallCompletionAction nat call_kind terminal_action
  | CallReplyRejected nat call_reply_rejected
  | CallReplyAbandoned nat
  | CallRejected nat call_rejected_reason
  | CallCancelled nat cancel_cause
  | SnapshotCommitted
  | SnapshotCommitFailed call_error
  | JournalAppended nat
  | JournalAppendFailed nat call_error
  | RecoveryStarted
  | RecoveryFinished
  | RecoveryFailed call_error
  | DeferredReplyCaptured nat nat
  | DeferredReplySent nat nat
  | DeferredReplyRejected nat nat deferred_reply_rejected
  | DeferredReplyDropped nat nat
  | FactObserved 'm
  | DriverCompletionQuarantined nat

record 'm rt_event =
  ev_id :: nat
  ev_cause :: "nat option"
  ev_shard :: nat
  ev_isolate :: nat
  ev_kind :: "'m event_kind"

datatype trace_retention = RetainFull | RetainBounded nat | RetainOff

section \<open>Messages and calls\<close>

datatype call_context = LocalContext nat | RemoteContext nat reg_address nat nat

record 'm delivered =
  dv_message :: 'm
  dv_context :: "call_context option"

type_synonym 'm erased_outcome = "('m, call_rejected_reason) call_outcome"

datatype send_outcome = SoForeignSystem nat nat | SoAccepted | SoFull | SoClosed

fun send_outcome_from_rejected :: "send_rejected_reason \<Rightarrow> send_outcome" where
  "send_outcome_from_rejected (RejForeignSystem e a) = SoForeignSystem e a"
| "send_outcome_from_rejected RejFull = SoFull"
| "send_outcome_from_rejected RejClosed = SoClosed"

datatype cancel_outcome = Cancelled | NotAdmitted | AlreadyCompleted | AlreadyCancelled | WrongShard

datatype 'm call_completion = CompMessage 'm | CompStopRequester | CompNoop

record 'm erased_send =
  es_system :: nat
  es_shard :: nat
  es_isolate :: nat
  es_generation :: nat
  es_message :: 'm

text \<open>
  \<open>ErasedCallKind\<close>. Closures handed over with a call run once; they are functions of the outcome.
  A caller-held \<open>CallHandleShared\<close> is named by the address of its cell.
\<close>

datatype 'm erased_call =
    Backend 'm "'m \<Rightarrow> 'm call_completion"
  | ObservedSend "'m erased_send" "send_outcome \<Rightarrow> 'm"
  | IsolateCall "'m erased_send" duration "'m erased_outcome \<Rightarrow> 'm" nat "nat option"
  | CancelCall nat "cancel_outcome \<Rightarrow> 'm"

record call_handle =
  hs_state :: call_handle_state
  hs_call_id :: "nat option"
  hs_shard_id :: "nat option"

datatype deferred_routing = RouteLocal | RouteRemote reg_address nat

record slot_record =
  sl_slot_id :: nat
  sl_call_id :: nat
  sl_isolate :: nat
  sl_routing :: deferred_routing

record slot_cell =
  sc_state :: deferred_slot_state
  sc_type :: nat

section \<open>Spawns and effects\<close>

datatype spawn_observed_error =
    SoeZeroMailboxCapacity | SoeDestinationUnavailable | SoeFactoryPanicked | SoeParentMailboxFull
  | SoeParentMailboxClosed | SoeReservationsUnsupported

text \<open>
  A restart recipe is the factory of a child with its mailbox capacity and the factory of its
  first message. A factory may act on the world, and panics with \<open>None\<close>. The flag says whether the
  recipe may serve an owner on another shard (\<open>CrossShardRestartableSpawnAdapter\<close>).
\<close>

datatype ('h, 'm, 'd) restart_recipe =
  Recipe "'d \<Rightarrow> 'h option \<times> 'd" nat "('d \<Rightarrow> 'm option \<times> 'd) option" bool

datatype ('h, 'm, 'd) erased_spawn =
    SpawnAdapter 'h nat "'m option"
  | RestartableAdapter "('h, 'm, 'd) restart_recipe"

text \<open>
  \<open>SpawnObserved\<close> carries the spawn, the continuation told the address or the error, the
  continuation told of each replacement, and the mapper of the final result. The runtime catches a
  panic of the mapper (\<open>None\<close>); \<open>Some None\<close> is a result of the wrong type.
\<close>

datatype ('h, 'm, 'd) effect =
    Noop
  | Reply 'm
  | Reject call_rejected_reason
  | Send "'m erased_send"
  | Spawn "('h, 'm, 'd) erased_spawn"
  | SpawnObserved "('h, 'm, 'd) erased_spawn" "spawn_observed_error + reg_address \<Rightarrow> 'm"
      "(reg_address \<Rightarrow> 'm) option" "('m \<Rightarrow> 'm option option) option"
  | SpawnObservedOn nat "('h, 'm, 'd) erased_spawn" nat bool "spawn_observed_error + reg_address \<Rightarrow> 'm"
  | Stop
  | Fail
  | StopWith 'm
  | RestartChildren
  | StopChildren
  | Io "'m erased_call"
  | Batch "('h, 'm, 'd) effect list"
  | ReplyTo nat 'm
  | Fact 'm

fun effect_kind_of :: "('h, 'm, 'd) effect \<Rightarrow> effect_kind" where
  "effect_kind_of Noop = KNoop"
| "effect_kind_of (Reply _) = KReply"
| "effect_kind_of (Reject _) = KReject"
| "effect_kind_of (Send _) = KSend"
| "effect_kind_of (Spawn _) = KSpawn"
| "effect_kind_of (SpawnObserved _ _ _ _) = KSpawnObserved"
| "effect_kind_of (SpawnObservedOn _ _ _ _ _) = KSpawnObservedOn"
| "effect_kind_of Stop = KStop"
| "effect_kind_of Fail = KFail"
| "effect_kind_of (StopWith _) = KStopWith"
| "effect_kind_of RestartChildren = KRestartChildren"
| "effect_kind_of StopChildren = KStopChildren"
| "effect_kind_of (Io _) = KIo"
| "effect_kind_of (Batch _) = KBatch"
| "effect_kind_of (ReplyTo _ _) = KReplyTo"
| "effect_kind_of (Fact _) = KFact"

text \<open>
  Does executing the effect answer the call that is being handled, and does it stop the isolate
  before it would?
\<close>

fun consumes_call_context :: "('h, 'm, 'd) effect \<Rightarrow> bool"
  and stops_before_consuming :: "('h, 'm, 'd) effect \<Rightarrow> bool"
  and batch_consumes :: "('h, 'm, 'd) effect list \<Rightarrow> bool"
  and batch_stops :: "('h, 'm, 'd) effect list \<Rightarrow> bool" where
  "consumes_call_context (Reply _) = True"
| "consumes_call_context (Reject _) = True"
| "consumes_call_context (Batch effects) = batch_consumes effects"
| "consumes_call_context _ = False"
| "stops_before_consuming Stop = True"
| "stops_before_consuming Fail = True"
| "stops_before_consuming (StopWith _) = True"
| "stops_before_consuming (Reply _) = False"
| "stops_before_consuming (Reject _) = False"
| "stops_before_consuming (Batch effects) = batch_stops effects"
| "stops_before_consuming _ = False"
| "batch_consumes [] = False"
| "batch_consumes (e # effects) =
     (if consumes_call_context e then True
      else if stops_before_consuming e then False else batch_consumes effects)"
| "batch_stops [] = False"
| "batch_stops (e # effects) =
     (if consumes_call_context e then False
      else if stops_before_consuming e then True else batch_stops effects)"

section \<open>Envelopes and the environment\<close>

datatype 'm remote_outcome = RoReplied 'm | RoFull | RoClosed | RoRejected call_rejected_reason

datatype ('h, 'm, 'd) envelope =
    EnvSend "'m erased_send" "call_context option" nat
  | EnvCallReply nat reg_address nat "'m remote_outcome"
  | EnvSpawnRequest nat nat reg_address nat "('h, 'm, 'd) erased_spawn" nat
  | EnvSpawnReply nat reg_address nat "spawn_observed_error + reg_address"
  | EnvSpawnCancel nat nat reg_address nat
  | EnvChildStop reg_address reg_address nat nat
  | EnvChildStopped reg_address reg_address nat nat
  | EnvChildRestart reg_address reg_address nat nat
  | EnvChildRestarted reg_address nat reg_address "restart_skipped + reg_address" nat

fun env_target_shard :: "('h, 'm, 'd) envelope \<Rightarrow> nat" where
  "env_target_shard (EnvSend send _ _) = es_shard send"
| "env_target_shard (EnvCallReply _ requester _ _) = ra_shard requester"
| "env_target_shard (EnvSpawnRequest _ target _ _ _ _) = target"
| "env_target_shard (EnvSpawnReply _ requester _ _) = ra_shard requester"
| "env_target_shard (EnvSpawnCancel _ target _ _) = target"
| "env_target_shard (EnvChildStop _ child _ _) = ra_shard child"
| "env_target_shard (EnvChildStopped owner _ _ _) = ra_shard owner"
| "env_target_shard (EnvChildRestart _ child _ _) = ra_shard child"
| "env_target_shard (EnvChildRestarted owner _ _ _ _) = ra_shard owner"

text \<open>What a handler is told about the message: \<open>Context\<close> and \<open>MessageCaller\<close>.\<close>

record message_caller =
  mc_call_id :: nat
  mc_isolate :: nat
  mc_routing :: deferred_routing
  mc_type :: nat
  mc_open :: bool

record handler_context =
  hc_isolate :: nat
  hc_generation :: nat
  hc_now :: instant
  hc_caller :: "message_caller option"
  hc_next_slot :: nat

text \<open>
  A turn ends with an effect, or in a panic (\<open>None\<close>); either way the handler may have captured its
  caller as a deferred reply, which consumes the caller and takes the next slot number.
\<close>

record ('h, 'm, 'd) turn_result =
  tr_effect :: "('h, 'm, 'd) effect option"
  tr_captured :: bool

text \<open>
  The environment: the handlers of the application, the run-time type of a boxed value, the
  observable parts of backend requests and outputs, the clock, the driver (trait \<open>RuntimeDriver\<close>),
  the router to other shards (a panic is \<open>None\<close>), and whether the application still holds the
  handle of a deferred reply.
\<close>

record ('h, 'm, 'd) rt_env =
  env_handle :: "'h \<Rightarrow> 'm \<Rightarrow> handler_context \<Rightarrow> 'd \<Rightarrow> 'h \<times> ('h, 'm, 'd) turn_result \<times> 'd"
  env_type_id :: "'m \<Rightarrow> nat"
  env_unit_type :: nat
  env_request_kind :: "'m \<Rightarrow> call_kind"
  env_request_persistence :: "'m \<Rightarrow> persistence_info option"
  env_output_failure :: "'m \<Rightarrow> call_error option"
  env_tcp_bound :: "'m \<Rightarrow> nat option"
  env_tls_bound :: "'m \<Rightarrow> nat option"
  env_now :: "'d \<Rightarrow> instant \<times> 'd"
  env_submit :: "nat \<Rightarrow> 'm \<Rightarrow> instant \<Rightarrow> 'd \<Rightarrow> (nat \<times> 'm) option \<times> 'd"
  env_advance :: "instant \<Rightarrow> 'd \<Rightarrow> (nat \<times> 'm) list \<times> 'd"
  env_cancel :: "nat \<Rightarrow> 'd \<Rightarrow> 'd"
  env_take_cancelled :: "'d \<Rightarrow> nat list \<times> 'd"
  env_route :: "nat \<Rightarrow> ('h, 'm, 'd) envelope \<Rightarrow> 'd \<Rightarrow> ((send_rejected_reason + unit) \<times> 'd) option"
  env_handle_dropped :: "nat \<Rightarrow> 'd \<Rightarrow> bool"

end
