(* ===== verification/Rt_State.thy ===== *)
theory Rt_State
  imports Rt_Types "HOL-Library.Monad_Syntax" "HOL-Library.Product_Lexorder"
begin

text \<open>
  The state of the runtime (struct \<open>Runtime\<close> of \<open>tina-runtime/src/lib.rs\<close>) and its bookkeeping: the
  erased mailboxes, the table of calls in flight, the promoted deferred replies, the trace with its
  retention, and the registry of isolates (\<open>registration.rs\<close>).

  An operation takes the state and returns the new one; \<open>None\<close> is a panic. Indexing \<open>entries\<close> out
  of range panics, so every access goes through \<open>get_entry\<close>.
\<close>

section \<open>Ordered maps\<close>

text \<open>A \<open>BTreeMap\<close> is its list of entries in ascending order of keys.\<close>

type_synonym ('k, 'v) btree = "('k \<times> 'v) list"

fun bt_insert :: "'k::linorder \<Rightarrow> 'v \<Rightarrow> ('k, 'v) btree \<Rightarrow> ('k, 'v) btree" where
  "bt_insert k v [] = [(k, v)]"
| "bt_insert k v ((k', v') # xs) =
     (if k < k' then (k, v) # (k', v') # xs
      else if k = k' then (k, v) # xs
      else (k', v') # bt_insert k v xs)"

definition bt_remove :: "'k \<Rightarrow> ('k, 'v) btree \<Rightarrow> ('k, 'v) btree" where
  "bt_remove k = filter (\<lambda>(k', _). k' \<noteq> k)"

lemma map_of_bt_insert [simp]: "map_of (bt_insert k v xs) = (map_of xs)(k \<mapsto> v)"
  by (induction k v xs rule: bt_insert.induct) (auto simp: fun_eq_iff)

lemma map_of_bt_remove [simp]: "map_of (bt_remove k xs) = (map_of xs)(k := None)"
  by (induction xs) (auto simp: bt_remove_def fun_eq_iff)

lemma bt_insert_set: "set (bt_insert k v xs) \<subseteq> insert (k, v) (set xs)"
  by (induction k v xs rule: bt_insert.induct) auto

lemma bt_insert_keys [simp]: "fst ` set (bt_insert k v xs) = insert k (fst ` set xs)"
  by (induction k v xs rule: bt_insert.induct) (auto simp: image_iff)

lemma bt_remove_set: "set (bt_remove k xs) = {x \<in> set xs. fst x \<noteq> k}"
  by (auto simp: bt_remove_def)

definition bt_sorted :: "('k::linorder, 'v) btree \<Rightarrow> bool" where
  "bt_sorted xs \<longleftrightarrow> sorted_wrt (<) (map fst xs)"

lemma bt_sorted_insert [intro]: "bt_sorted xs \<Longrightarrow> bt_sorted (bt_insert k v xs)"
proof (induction k v xs rule: bt_insert.induct)
  case (2 k v k' v' xs)
  have "k' < y" if "y \<in> set (map fst (bt_insert k v xs))" "\<not> k < k'" "k \<noteq> k'" for y
  proof -
    have "y = k \<or> y \<in> fst ` set xs" using that(1) bt_insert_keys [of k v xs] by (auto simp: image_iff)
    then show ?thesis using 2(2) that(2,3) by (auto simp: bt_sorted_def)
  qed
  with 2 show ?case by (auto simp: bt_sorted_def)
qed (simp add: bt_sorted_def)

lemma bt_sorted_remove [intro]: "bt_sorted xs \<Longrightarrow> bt_sorted (bt_remove k xs)"
  unfolding bt_sorted_def bt_remove_def by (induction xs) auto

lemma bt_sorted_distinct: "bt_sorted xs \<Longrightarrow> distinct (map fst xs)"
  unfolding bt_sorted_def by (induction xs) auto

section \<open>Data\<close>

text \<open>\<open>AnyMailboxAdapter\<close> over a default mailbox, the mailbox the default factory creates.\<close>

record 'm any_mailbox =
  am_mailbox :: "'m default_mailbox"
  am_closed :: bool

record ('h, 'm) rt_entry =
  en_id :: nat
  en_generation :: nat
  en_parent :: "nat option"
  en_stopped :: bool
  en_stopped_event :: "nat option"
  en_mailbox :: "'m any_mailbox"
  en_contexts :: "call_context option list"
  en_overflow :: "'m delivered list"
  en_handler :: 'h

record ('h, 'm, 'd) child_record =
  cr_parent :: nat
  cr_child :: reg_address
  cr_ordinal :: nat
  cr_capacity :: nat
  cr_recipe :: "('h, 'm, 'd) restart_recipe option"
  cr_restart_continuation :: "(reg_address \<Rightarrow> 'm) option"
  cr_terminal_continuation :: "('m \<Rightarrow> 'm option option) option"
  cr_slot_reserved :: bool
  cr_settled_generation :: "nat option"
  cr_previous_child :: "reg_address option"
  cr_remote_request_id :: "nat option"
  cr_remote_owner :: "reg_address option"
  cr_remote_restartable :: bool
  cr_terminal :: bool

record supervisor_record =
  sr_parent :: reg_address
  sr_config :: supervisor_config
  sr_budget :: restart_budget_state

record ('h, 'm, 'd) spawn_outcome =
  so_child :: reg_address
  so_capacity :: nat
  so_recipe :: "('h, 'm, 'd) restart_recipe option"
  so_restart_continuation :: "(reg_address \<Rightarrow> 'm) option"
  so_terminal_continuation :: "('m \<Rightarrow> 'm option option) option"
  so_slot_reserved :: bool
  so_bootstrap :: "'m option"

record 'm pending_remote_spawn =
  ps_request_id :: nat
  ps_requester :: reg_address
  ps_target_shard :: nat
  ps_ordinal :: nat
  ps_capacity :: nat
  ps_restartable :: bool
  ps_continuation :: "spawn_observed_error + reg_address \<Rightarrow> 'm"

record driver_call_head =
  dh_call_id :: nat
  dh_kind :: call_kind
  dh_requester :: reg_address
  dh_cause :: nat
  dh_persistence :: "persistence_info option"
  dh_context :: "call_context option"

record 'm driver_call =
  dc_head :: driver_call_head
  dc_translator :: "'m \<Rightarrow> 'm call_completion"

record 'm pending_isolate_call =
  pi_call_id :: nat
  pi_requester :: reg_address
  pi_cause :: nat
  pi_deadline :: instant
  pi_order :: nat
  pi_context :: "call_context option"
  pi_translator :: "'m erased_outcome \<Rightarrow> 'm"
  pi_type :: nat
  pi_handle :: "nat option"

record 'm call_table =
  ct_driver :: "(nat, 'm driver_call) btree"
  ct_isolate :: "(nat, 'm pending_isolate_call) btree"
  ct_deadlines :: "(instant \<times> nat, nat) btree"

text \<open>What the runtime tells observers outside it (\<open>ObservationRegistry\<close>).\<close>

datatype 'm notice =
    NoteStopped nat nat
  | NoteResult nat nat 'm
  | NoteStoppedWithoutResult nat nat
  | NoteChildRestarted nat nat nat nat reg_address
  | NoteTcpBound "call_error + nat"
  | NoteTlsBound "call_error + nat"
  | NoteOperationCompleted nat nat call_kind nat
  | NoteOperationFailed nat nat call_kind nat call_error

record ('h, 'm, 'd) rt =
  rt_system :: nat
  rt_shard :: nat
  rt_entries :: "('h, 'm) rt_entry list"
  rt_indexes :: "nat \<rightharpoonup> nat"
  rt_has_stopped :: bool
  rt_children :: "('h, 'm, 'd) child_record list"
  rt_supervisors :: "supervisor_record list"
  rt_next_isolate :: nat
  rt_next_event :: nat
  rt_next_call :: nat
  rt_trace :: "'m rt_event list"
  rt_trace_start :: nat
  rt_retention :: trace_retention
  rt_dropped :: nat
  rt_observed :: "'m rt_event list"
  rt_world :: 'd
  rt_calls :: "'m call_table"
  rt_pending_spawns :: "'m pending_remote_spawn list"
  rt_tombstones :: "nat list"
  rt_control_capacity :: nat
  rt_control_full :: u64
  rt_completions :: "(nat \<times> 'm) list"
  rt_drain_budget :: nat
  rt_next_ordinal :: nat
  rt_notices :: "'m notice list"
  rt_next_slot :: nat
  rt_captures :: "slot_record list"
  rt_slots :: "slot_record list"
  rt_slot_cells :: "nat \<Rightarrow> slot_cell"
  rt_handles :: "nat \<Rightarrow> call_handle"
  rt_cancelled :: "(nat \<times> cancel_cause) list"
  rt_evictions :: u64
  rt_unsupported :: u64

section \<open>Erased mailboxes\<close>

definition am_new :: "nat \<Rightarrow> 'm any_mailbox" where
  "am_new capacity = \<lparr>am_mailbox = dm_new capacity, am_closed = False\<rparr>"

definition am_recv :: "'m any_mailbox \<Rightarrow> 'm option \<times> 'm any_mailbox" where
  "am_recv q = (case dm_recv (am_mailbox q) of (r, b) \<Rightarrow> (r, q\<lparr>am_mailbox := b\<rparr>))"

definition am_is_empty :: "'m any_mailbox \<Rightarrow> bool" where
  "am_is_empty q = dm_is_empty (am_mailbox q)"

definition am_try_send :: "'m \<Rightarrow> 'm any_mailbox \<Rightarrow> 'm send_result \<times> 'm any_mailbox" where
  "am_try_send m q =
     (if am_closed q then (Inl (SendClosed m), q)
      else case dm_try_send m (am_mailbox q) of
        (Inr u, b) \<Rightarrow> (Inr u, q\<lparr>am_mailbox := b\<rparr>)
      | (Inl (SendFull m'), b) \<Rightarrow> (Inl (SendFull m'), q\<lparr>am_mailbox := b\<rparr>)
      | (Inl (SendClosed m'), b) \<Rightarrow> (Inl (SendClosed m'), q\<lparr>am_mailbox := b, am_closed := True\<rparr>))"

definition am_close :: "'m any_mailbox \<Rightarrow> 'm any_mailbox" where
  "am_close q = q\<lparr>am_closed := True, am_mailbox := dm_close (am_mailbox q)\<rparr>"

definition am_try_reserve :: "'m any_mailbox \<Rightarrow> (reservation_error + unit) \<times> 'm any_mailbox" where
  "am_try_reserve q =
     (if am_closed q \<or> dm_is_closed (am_mailbox q) then (Inl ReserveClosed, q\<lparr>am_closed := True\<rparr>)
      else case dm_try_reserve (am_mailbox q) of
        (Inr u, b) \<Rightarrow> (Inr u, q\<lparr>am_mailbox := b\<rparr>)
      | (Inl ReserveFull, b) \<Rightarrow> (Inl ReserveFull, q\<lparr>am_mailbox := b\<rparr>)
      | (Inl ReserveClosed, b) \<Rightarrow> (Inl ReserveClosed, q\<lparr>am_mailbox := b, am_closed := True\<rparr>)
      | (Inl ReserveUnsupported, b) \<Rightarrow> (Inl ReserveUnsupported, q\<lparr>am_mailbox := b\<rparr>))"

definition am_release :: "'m any_mailbox \<Rightarrow> 'm any_mailbox" where
  "am_release q = q\<lparr>am_mailbox := snd (dm_release_reserved (am_mailbox q))\<rparr>"

definition am_try_send_reserved :: "'m \<Rightarrow> 'm any_mailbox \<Rightarrow> 'm send_result \<times> 'm any_mailbox" where
  "am_try_send_reserved m q =
     (case dm_try_send_reserved m (am_mailbox q) of
        (Inr u, b) \<Rightarrow> (Inr u, q\<lparr>am_mailbox := b\<rparr>)
      | (Inl (SendFull m'), b) \<Rightarrow> (Inl (SendFull m'), q\<lparr>am_mailbox := b\<rparr>)
      | (Inl (SendClosed m'), b) \<Rightarrow> (Inl (SendClosed m'), q\<lparr>am_mailbox := b, am_closed := True\<rparr>))"

section \<open>Trace\<close>

definition compact_trace_prefix :: "('h, 'm, 'd) rt \<Rightarrow> ('h, 'm, 'd) rt" where
  "compact_trace_prefix s =
     (if rt_trace_start s = 0 then s
      else s\<lparr>rt_trace := drop (rt_trace_start s) (rt_trace s), rt_trace_start := 0\<rparr>)"

definition active_trace_len :: "('h, 'm, 'd) rt \<Rightarrow> nat" where
  "active_trace_len s = length (rt_trace s) - rt_trace_start s"

definition compact_trace_prefix_if_empty_or_large :: "nat \<Rightarrow> ('h, 'm, 'd) rt \<Rightarrow> ('h, 'm, 'd) rt" where
  "compact_trace_prefix_if_empty_or_large threshold s =
     (if rt_trace_start s = 0 then s
      else if rt_trace_start s \<ge> length (rt_trace s) \<or> rt_trace_start s \<ge> threshold
      then compact_trace_prefix s
      else s)"

definition enforce_trace_retention :: "('h, 'm, 'd) rt \<Rightarrow> ('h, 'm, 'd) rt" where
  "enforce_trace_retention s =
     (case rt_retention s of
        RetainFull \<Rightarrow> compact_trace_prefix s
      | RetainBounded capacity \<Rightarrow>
          let active = active_trace_len s;
              s = (if active > capacity
                   then s\<lparr>rt_trace_start := rt_trace_start s + (active - capacity),
                          rt_dropped := rt_dropped s + (active - capacity)\<rparr>
                   else s)
          in compact_trace_prefix_if_empty_or_large (max capacity 1) s
      | RetainOff \<Rightarrow>
          s\<lparr>rt_dropped := rt_dropped s + active_trace_len s, rt_trace := [], rt_trace_start := 0\<rparr>)"

text \<open>
  \<open>push_event\<close>: the observer is told of every event, before retention decides what the trace keeps.
\<close>

definition retain_event :: "'m rt_event \<Rightarrow> ('h, 'm, 'd) rt \<Rightarrow> ('h, 'm, 'd) rt" where
  "retain_event event s =
     (case rt_retention s of
        RetainFull \<Rightarrow> (let s = compact_trace_prefix s in s\<lparr>rt_trace := rt_trace s @ [event]\<rparr>)
      | RetainBounded capacity \<Rightarrow>
          if capacity > 0 then
            let s = (if active_trace_len s = capacity then
                       let s = s\<lparr>rt_trace_start := rt_trace_start s + 1, rt_dropped := rt_dropped s + 1\<rparr>
                       in if rt_trace_start s \<ge> capacity then compact_trace_prefix s else s
                     else s)
            in s\<lparr>rt_trace := rt_trace s @ [event]\<rparr>
          else s\<lparr>rt_dropped := rt_dropped s + 1\<rparr>
      | RetainOff \<Rightarrow> s\<lparr>rt_dropped := rt_dropped s + 1\<rparr>)"

definition push_event ::
    "nat \<Rightarrow> nat option \<Rightarrow> 'm event_kind \<Rightarrow> ('h, 'm, 'd) rt \<Rightarrow> nat \<times> ('h, 'm, 'd) rt" where
  "push_event isolate cause kind s =
     (let i = rt_next_event s;
          event = \<lparr>ev_id = i, ev_cause = cause, ev_shard = rt_shard s, ev_isolate = isolate, ev_kind = kind\<rparr>;
          s = s\<lparr>rt_next_event := i + 1, rt_observed := rt_observed s @ [event]\<rparr>
      in (i, retain_event event s))"

abbreviation log_event ::
    "nat \<Rightarrow> nat option \<Rightarrow> 'm event_kind \<Rightarrow> ('h, 'm, 'd) rt \<Rightarrow> ('h, 'm, 'd) rt" where
  "log_event isolate cause kind s \<equiv> snd (push_event isolate cause kind s)"

definition trace_view :: "('h, 'm, 'd) rt \<Rightarrow> 'm rt_event list" where
  "trace_view s = drop (rt_trace_start s) (rt_trace s)"

definition set_trace_retention :: "trace_retention \<Rightarrow> ('h, 'm, 'd) rt \<Rightarrow> ('h, 'm, 'd) rt" where
  "set_trace_retention retention s = enforce_trace_retention (s\<lparr>rt_retention := retention\<rparr>)"

text \<open>\<open>trace_for_proof\<close>: the error carries the number of dropped events.\<close>

definition trace_for_proof :: "('h, 'm, 'd) rt \<Rightarrow> nat + 'm rt_event list" where
  "trace_for_proof s = (if rt_dropped s > 0 then Inl (rt_dropped s) else Inr (trace_view s))"

definition set_driver_completion_drain_budget :: "nat \<Rightarrow> ('h, 'm, 'd) rt \<Rightarrow> ('h, 'm, 'd) rt" where
  "set_driver_completion_drain_budget budget s = s\<lparr>rt_drain_budget := max budget 1\<rparr>"

definition notify :: "'m notice \<Rightarrow> ('h, 'm, 'd) rt \<Rightarrow> ('h, 'm, 'd) rt" where
  "notify n s = s\<lparr>rt_notices := rt_notices s @ [n]\<rparr>"

section \<open>World and clock\<close>

definition clock_now :: "('h, 'm, 'd) rt_env \<Rightarrow> ('h, 'm, 'd) rt \<Rightarrow> instant \<times> ('h, 'm, 'd) rt" where
  "clock_now E s = (case env_now E (rt_world s) of (t, w) \<Rightarrow> (t, s\<lparr>rt_world := w\<rparr>))"

definition route_remote ::
    "('h, 'm, 'd) rt_env \<Rightarrow> ('h, 'm, 'd) envelope \<Rightarrow> ('h, 'm, 'd) rt
     \<Rightarrow> ((send_rejected_reason + unit) \<times> ('h, 'm, 'd) rt) option" where
  "route_remote E envelope s =
     do { (r, w) \<leftarrow> env_route E (rt_shard s) envelope (rt_world s); Some (r, s\<lparr>rt_world := w\<rparr>) }"

section \<open>Registry\<close>

definition self_address :: "nat \<Rightarrow> nat \<Rightarrow> ('h, 'm, 'd) rt \<Rightarrow> reg_address" where
  "self_address isolate generation s =
     \<lparr>ra_system = rt_system s, ra_shard = rt_shard s, ra_isolate = isolate, ra_generation = generation\<rparr>"

definition get_entry :: "nat \<Rightarrow> ('h, 'm, 'd) rt \<Rightarrow> ('h, 'm) rt_entry option" where
  "get_entry i s = (if i < length (rt_entries s) then Some (rt_entries s ! i) else None)"

definition set_entry :: "nat \<Rightarrow> ('h, 'm) rt_entry \<Rightarrow> ('h, 'm, 'd) rt \<Rightarrow> ('h, 'm, 'd) rt" where
  "set_entry i e s = s\<lparr>rt_entries := (rt_entries s)[i := e]\<rparr>"

definition entry_index :: "reg_address \<Rightarrow> ('h, 'm, 'd) rt \<Rightarrow> nat option" where
  "entry_index address s =
     (if ra_system address \<noteq> rt_system s \<or> ra_shard address \<noteq> rt_shard s then None
      else do {
        index \<leftarrow> rt_indexes s (ra_isolate address);
        entry \<leftarrow> get_entry index s;
        if en_generation entry = ra_generation address then Some index else None })"

definition entry_by_isolate :: "nat \<Rightarrow> ('h, 'm, 'd) rt \<Rightarrow> ('h, 'm) rt_entry option" where
  "entry_by_isolate isolate s = find (\<lambda>entry. en_id entry = isolate) (rt_entries s)"

fun index_list :: "nat \<Rightarrow> ('h, 'm) rt_entry list \<Rightarrow> (nat \<rightharpoonup> nat) \<Rightarrow> (nat \<rightharpoonup> nat)" where
  "index_list i [] m = m"
| "index_list i (e # es) m = index_list (i + 1) es (m(en_id e \<mapsto> i))"

definition rebuild_entry_indexes :: "('h, 'm, 'd) rt \<Rightarrow> ('h, 'm, 'd) rt" where
  "rebuild_entry_indexes s = s\<lparr>rt_indexes := index_list 0 (rt_entries s) Map.empty\<rparr>"

definition child_record_index_by_child :: "reg_address \<Rightarrow> ('h, 'm, 'd) rt \<Rightarrow> nat option" where
  "child_record_index_by_child child s =
     position (\<lambda>r. cr_child r = child \<and> cr_remote_owner r = None) (rt_children s)"

definition same_isolate :: "reg_address \<Rightarrow> reg_address \<Rightarrow> bool" where
  "same_isolate child address \<longleftrightarrow> ra_system address = ra_system child
     \<and> ra_shard address = ra_shard child \<and> ra_isolate address = ra_isolate child"

definition child_record_index_for_terminal :: "reg_address \<Rightarrow> ('h, 'm, 'd) rt \<Rightarrow> nat option" where
  "child_record_index_for_terminal child s =
     (case child_record_index_by_child child s of
        Some i \<Rightarrow> Some i
      | None \<Rightarrow> position (\<lambda>r. cr_remote_owner r = None
          \<and> (same_isolate child (cr_child r)
             \<or> (case cr_previous_child r of None \<Rightarrow> False | Some p \<Rightarrow> same_isolate child p)))
          (rt_children s))"

definition supervisor_index :: "nat \<Rightarrow> ('h, 'm, 'd) rt \<Rightarrow> nat option" where
  "supervisor_index parent s = position (\<lambda>r. ra_isolate (sr_parent r) = parent) (rt_supervisors s)"

definition register_entry ::
    "'h \<Rightarrow> nat option \<Rightarrow> nat \<Rightarrow> ('h, 'm, 'd) rt \<Rightarrow> reg_address \<times> ('h, 'm, 'd) rt" where
  "register_entry isolate parent capacity s =
     (let i = rt_next_isolate s;
          entry = \<lparr>en_id = i, en_generation = 0, en_parent = parent, en_stopped = False,
                   en_stopped_event = None, en_mailbox = am_new capacity, en_contexts = [],
                   en_overflow = [], en_handler = isolate\<rparr>
      in (self_address i 0 s,
          s\<lparr>rt_next_isolate := i + 1, rt_entries := rt_entries s @ [entry],
            rt_indexes := (rt_indexes s)(i \<mapsto> length (rt_entries s))\<rparr>))"

text \<open>
  \<open>register_with_capacity_and_bootstrap\<close>: the first message is admitted before the isolate is
  registered; if the mailbox refuses it, only the identifier is used up.
\<close>

definition register_with_bootstrap ::
    "'h \<Rightarrow> nat \<Rightarrow> 'm \<Rightarrow> ('h, 'm, 'd) rt \<Rightarrow> ('m try_send_error + reg_address) \<times> ('h, 'm, 'd) rt" where
  "register_with_bootstrap isolate capacity bootstrap s =
     (let i = rt_next_isolate s; s = s\<lparr>rt_next_isolate := i + 1\<rparr> in
      case dm_try_send bootstrap (dm_new capacity) of
        (Inl err, _) \<Rightarrow> (Inl err, s)
      | (Inr _, mailbox) \<Rightarrow>
          (Inr (self_address i 0 s),
           s\<lparr>rt_entries := rt_entries s @
               [\<lparr>en_id = i, en_generation = 0, en_parent = None, en_stopped = False,
                 en_stopped_event = None,
                 en_mailbox = \<lparr>am_mailbox = mailbox, am_closed = False\<rparr>,
                 en_contexts = [None], en_overflow = [], en_handler = isolate\<rparr>],
             rt_indexes := (rt_indexes s)(i \<mapsto> length (rt_entries s))\<rparr>))"

definition try_registered_address :: "reg_address \<Rightarrow> ('h, 'm, 'd) rt \<Rightarrow> reg_address option" where
  "try_registered_address address s =
     (if ra_system address \<noteq> rt_system s \<or> ra_shard address \<noteq> rt_shard s then None
      else do {
        entry \<leftarrow> entry_by_isolate (ra_isolate address) s;
        if en_generation entry \<noteq> ra_generation address then None
        else Some \<lparr>ra_system = rt_system s, ra_shard = ra_shard address,
                   ra_isolate = ra_isolate address, ra_generation = ra_generation address\<rparr> })"

text \<open>\<open>try_supervise\<close>: \<open>False\<close> is the error \<open>UnknownParent\<close>.\<close>

definition try_supervise ::
    "reg_address \<Rightarrow> supervisor_config \<Rightarrow> ('h, 'm, 'd) rt \<Rightarrow> bool \<times> ('h, 'm, 'd) rt" where
  "try_supervise parent config s =
     (case try_registered_address parent s of
        None \<Rightarrow> (False, s)
      | Some parent \<Rightarrow>
          let budget = budget_tracker (sc_budget config) in
          case position (\<lambda>r. sr_parent r = parent) (rt_supervisors s) of
            Some i \<Rightarrow> (True, s\<lparr>rt_supervisors := (rt_supervisors s)
                          [i := (rt_supervisors s ! i)\<lparr>sr_config := config, sr_budget := budget\<rparr>]\<rparr>)
          | None \<Rightarrow> (True, s\<lparr>rt_supervisors := rt_supervisors s @
                          [\<lparr>sr_parent = parent, sr_config = config, sr_budget = budget\<rparr>]\<rparr>))"

section \<open>Entry messages\<close>

definition enqueue_entry_message ::
    "nat \<Rightarrow> 'm \<Rightarrow> call_context option \<Rightarrow> ('h, 'm, 'd) rt
     \<Rightarrow> ('m send_result \<times> ('h, 'm, 'd) rt) option" where
  "enqueue_entry_message index message context s =
     do {
       entry \<leftarrow> get_entry index s;
       case am_try_send message (en_mailbox entry) of
         (Inr u, q) \<Rightarrow> Some (Inr u, set_entry index
            (entry\<lparr>en_mailbox := q, en_contexts := en_contexts entry @ [context]\<rparr>) s)
       | (Inl err, q) \<Rightarrow> Some (Inl err, set_entry index (entry\<lparr>en_mailbox := q\<rparr>) s) }"

definition recv_entry_message ::
    "nat \<Rightarrow> ('h, 'm, 'd) rt \<Rightarrow> ('m delivered option \<times> ('h, 'm, 'd) rt) option" where
  "recv_entry_message index s =
     do {
       entry \<leftarrow> get_entry index s;
       case en_overflow entry of
         d # ds \<Rightarrow> Some (Some d, set_entry index (entry\<lparr>en_overflow := ds\<rparr>) s)
       | [] \<Rightarrow>
           (case am_recv (en_mailbox entry) of
              (None, q) \<Rightarrow> Some (None, set_entry index (entry\<lparr>en_mailbox := q\<rparr>) s)
            | (Some message, q) \<Rightarrow>
                (case en_contexts entry of
                   [] \<Rightarrow> Some (Some \<lparr>dv_message = message, dv_context = None\<rparr>,
                              set_entry index (entry\<lparr>en_mailbox := q\<rparr>) s)
                 | c # cs \<Rightarrow> Some (Some \<lparr>dv_message = message, dv_context = c\<rparr>,
                              set_entry index (entry\<lparr>en_mailbox := q, en_contexts := cs\<rparr>) s))) }"

definition entry_has_pending_message :: "nat \<Rightarrow> ('h, 'm, 'd) rt \<Rightarrow> bool option" where
  "entry_has_pending_message index s =
     do { entry \<leftarrow> get_entry index s; Some (en_overflow entry \<noteq> [] \<or> \<not> am_is_empty (en_mailbox entry)) }"

text \<open>Where a continuation that must not be lost went: \<open>ContinuationDelivery\<close>.\<close>

datatype continuation_delivery = ToMailbox | ToOverflow

definition enqueue_call_continuation ::
    "nat \<Rightarrow> 'm \<Rightarrow> call_context option \<Rightarrow> ('h, 'm, 'd) rt
     \<Rightarrow> (('m try_send_error + continuation_delivery) \<times> ('h, 'm, 'd) rt) option" where
  "enqueue_call_continuation index message context s =
     do {
       entry \<leftarrow> get_entry index s;
       case am_try_send message (en_mailbox entry) of
         (Inr u, q) \<Rightarrow> Some (Inr ToMailbox, set_entry index
            (entry\<lparr>en_mailbox := q, en_contexts := en_contexts entry @ [context]\<rparr>) s)
       | (Inl (SendFull message), q) \<Rightarrow> Some (Inr ToOverflow, set_entry index
            (entry\<lparr>en_mailbox := q,
                   en_overflow := en_overflow entry @ [\<lparr>dv_message = message, dv_context = context\<rparr>]\<rparr>) s)
       | (Inl (SendClosed message), q) \<Rightarrow>
            Some (Inl (SendClosed message), set_entry index (entry\<lparr>en_mailbox := q\<rparr>) s) }"

text \<open>Same-shard delivery (\<open>remote.rs\<close>), and the host's \<open>try_send\<close> (\<open>host_call.rs\<close>).\<close>

fun send_error_reason :: "'m try_send_error \<Rightarrow> send_rejected_reason" where
  "send_error_reason (SendFull _) = RejFull"
| "send_error_reason (SendClosed _) = RejClosed"

definition dispatch_local_send_with_context ::
    "'m erased_send \<Rightarrow> call_context option \<Rightarrow> ('h, 'm, 'd) rt
     \<Rightarrow> ((send_rejected_reason + unit) \<times> ('h, 'm, 'd) rt) option" where
  "dispatch_local_send_with_context send context s =
     (if es_system send \<noteq> rt_system s
      then Some (Inl (RejForeignSystem (rt_system s) (es_system send)), s)
      else if es_shard send \<noteq> rt_shard s then None
      else case rt_indexes s (es_isolate send) of
        None \<Rightarrow> Some (Inl RejClosed, s)
      | Some index \<Rightarrow> do {
          entry \<leftarrow> get_entry index s;
          if en_generation entry \<noteq> es_generation send then Some (Inl RejClosed, s)
          else do {
            (r, s) \<leftarrow> enqueue_entry_message index (es_message send) context s;
            Some (map_sum send_error_reason id r, s) } })"

definition dispatch_local_send ::
    "'m erased_send \<Rightarrow> ('h, 'm, 'd) rt \<Rightarrow> ((send_rejected_reason + unit) \<times> ('h, 'm, 'd) rt) option" where
  "dispatch_local_send send s = dispatch_local_send_with_context send None s"

definition rt_try_send ::
    "reg_address \<Rightarrow> 'm \<Rightarrow> ('h, 'm, 'd) rt
     \<Rightarrow> ((send_rejected_reason + unit) \<times> ('h, 'm, 'd) rt) option" where
  "rt_try_send address message s =
     (if ra_system address \<noteq> rt_system s
      then Some (Inl (RejForeignSystem (rt_system s) (ra_system address)), s)
      else if ra_shard address \<noteq> rt_shard s then None
      else case entry_index address s of
        None \<Rightarrow> Some (Inl RejClosed, s)
      | Some index \<Rightarrow> do {
          (r, s) \<leftarrow> enqueue_entry_message index message None s;
          Some (map_sum send_error_reason id r, s) })"

section \<open>Calls in flight\<close>

definition ct_new :: "'m call_table" where
  "ct_new = \<lparr>ct_driver = [], ct_isolate = [], ct_deadlines = []\<rparr>"

definition insert_driver :: "'m driver_call \<Rightarrow> 'm call_table \<Rightarrow> 'm call_table option" where
  "insert_driver call t =
     (let i = dh_call_id (dc_head call) in
      if map_of (ct_driver t) i \<noteq> None then None
      else Some (t\<lparr>ct_driver := bt_insert i call (ct_driver t)\<rparr>))"

definition remove_driver :: "nat \<Rightarrow> 'm call_table \<Rightarrow> ('m driver_call \<times> 'm call_table) option" where
  "remove_driver i t =
     (case map_of (ct_driver t) i of
        None \<Rightarrow> None
      | Some call \<Rightarrow> Some (call, t\<lparr>ct_driver := bt_remove i (ct_driver t)\<rparr>))"

definition driver_call_ids_for_requester :: "reg_address \<Rightarrow> 'm call_table \<Rightarrow> nat list" where
  "driver_call_ids_for_requester requester t =
     map fst (filter (\<lambda>(_, call). dh_requester (dc_head call) = requester) (ct_driver t))"

definition has_driver_call_for_requester :: "reg_address \<Rightarrow> 'm call_table \<Rightarrow> bool" where
  "has_driver_call_for_requester requester t =
     list_ex (\<lambda>(_, call). dh_requester (dc_head call) = requester) (ct_driver t)"

definition insert_isolate :: "'m pending_isolate_call \<Rightarrow> 'm call_table \<Rightarrow> 'm call_table option" where
  "insert_isolate call t =
     (let i = pi_call_id call in
      if map_of (ct_isolate t) i \<noteq> None then None
      else Some (t\<lparr>ct_deadlines := bt_insert (pi_deadline call, pi_order call) i (ct_deadlines t),
                   ct_isolate := bt_insert i call (ct_isolate t)\<rparr>))"

definition remove_isolate ::
    "nat \<Rightarrow> 'm call_table \<Rightarrow> ('m pending_isolate_call \<times> 'm call_table) option" where
  "remove_isolate i t =
     (case map_of (ct_isolate t) i of
        None \<Rightarrow> None
      | Some call \<Rightarrow> Some (call, t\<lparr>ct_isolate := bt_remove i (ct_isolate t),
          ct_deadlines := bt_remove (pi_deadline call, pi_order call) (ct_deadlines t)\<rparr>))"

definition next_due_isolate :: "instant \<Rightarrow> 'm call_table \<Rightarrow> nat option" where
  "next_due_isolate now t =
     (case ct_deadlines t of
        [] \<Rightarrow> None
      | ((deadline, _), i) # _ \<Rightarrow> if deadline \<le> now then Some i else None)"

fun remove_isolates ::
    "nat list \<Rightarrow> 'm call_table \<Rightarrow> ('m pending_isolate_call list \<times> 'm call_table) option" where
  "remove_isolates [] t = Some ([], t)"
| "remove_isolates (i # is) t =
     do { (call, t) \<leftarrow> remove_isolate i t; (calls, t) \<leftarrow> remove_isolates is t; Some (call # calls, t) }"

definition take_isolate_calls_for_owner ::
    "nat \<Rightarrow> nat \<Rightarrow> 'm call_table \<Rightarrow> ('m pending_isolate_call list \<times> 'm call_table) option" where
  "take_isolate_calls_for_owner isolate generation t =
     remove_isolates (map fst (filter (\<lambda>(_, call). ra_isolate (pi_requester call) = isolate
       \<and> ra_generation (pi_requester call) = generation) (ct_isolate t))) t"

definition isolate_expected_reply_type :: "nat \<Rightarrow> 'm call_table \<Rightarrow> nat option" where
  "isolate_expected_reply_type i t = map_option pi_type (map_of (ct_isolate t) i)"

definition has_isolate_call_for_requester :: "reg_address \<Rightarrow> 'm call_table \<Rightarrow> bool" where
  "has_isolate_call_for_requester requester t =
     list_ex (\<lambda>(_, call). pi_requester call = requester) (ct_isolate t)"

section \<open>Call handles and the cancelled-call ring\<close>

definition set_handle_state ::
    "nat option \<Rightarrow> call_handle_state \<Rightarrow> ('h, 'm, 'd) rt \<Rightarrow> ('h, 'm, 'd) rt" where
  "set_handle_state h st s =
     (case h of None \<Rightarrow> s
      | Some h \<Rightarrow> s\<lparr>rt_handles := (rt_handles s)(h := (rt_handles s h)\<lparr>hs_state := st\<rparr>)\<rparr>)"

text \<open>
  \<open>set_call_id\<close> and \<open>set_shard_id\<close> assert that the cell is stamped once, with a call number that is
  not zero and a shard number that is not the reserved one.
\<close>

definition shard_id_unstamped :: nat where
  "shard_id_unstamped = 2 ^ 32 - 1"

definition stamp_handle :: "nat option \<Rightarrow> nat \<Rightarrow> ('h, 'm, 'd) rt \<Rightarrow> ('h, 'm, 'd) rt option" where
  "stamp_handle h call_id s =
     (case h of None \<Rightarrow> Some s
      | Some h \<Rightarrow>
          if call_id = 0 \<or> hs_call_id (rt_handles s h) \<noteq> None
             \<or> rt_shard s = shard_id_unstamped \<or> hs_shard_id (rt_handles s h) \<noteq> None
          then None
          else Some (s\<lparr>rt_handles := (rt_handles s)
                 (h := (rt_handles s h)\<lparr>hs_call_id := Some call_id, hs_shard_id := Some (rt_shard s)\<rparr>)\<rparr>))"

definition cancelled_call_ring_capacity :: nat where
  "cancelled_call_ring_capacity = 64"

definition record_cancelled_call ::
    "nat \<Rightarrow> cancel_cause \<Rightarrow> ('h, 'm, 'd) rt \<Rightarrow> ('h, 'm, 'd) rt" where
  "record_cancelled_call call_id cause s =
     (let s = (if length (rt_cancelled s) = cancelled_call_ring_capacity
               then s\<lparr>rt_cancelled := tl (rt_cancelled s), rt_evictions := sat_add (rt_evictions s) 1\<rparr>
               else s)
      in s\<lparr>rt_cancelled := rt_cancelled s @ [(call_id, cause)]\<rparr>)"

definition recently_cancelled_cause :: "nat \<Rightarrow> ('h, 'm, 'd) rt \<Rightarrow> cancel_cause option" where
  "recently_cancelled_cause call_id s = map_of (rt_cancelled s) call_id"

section \<open>Promoted deferred replies\<close>

definition take_slot ::
    "(slot_record \<Rightarrow> bool) \<Rightarrow> slot_record list \<Rightarrow> (slot_record \<times> slot_record list) option" where
  "take_slot P slots =
     (case position P slots of None \<Rightarrow> None | Some i \<Rightarrow> Some (slots ! i, swap_remove i slots))"

definition take_by_handle :: "nat \<Rightarrow> slot_record list \<Rightarrow> (slot_record \<times> slot_record list) option" where
  "take_by_handle slot = take_slot (\<lambda>r. sl_slot_id r = slot)"

definition take_by_local_call_id ::
    "nat \<Rightarrow> slot_record list \<Rightarrow> (slot_record \<times> slot_record list) option" where
  "take_by_local_call_id call_id = take_slot (\<lambda>r. sl_routing r = RouteLocal \<and> sl_call_id r = call_id)"

function sweep_slots ::
    "(slot_record \<Rightarrow> bool) \<Rightarrow> nat \<Rightarrow> slot_record list \<Rightarrow> slot_record list \<times> slot_record list" where
  "sweep_slots P i slots =
     (if i < length slots then
        if P (slots ! i) then
          (case sweep_slots P i (swap_remove i slots) of (taken, rest) \<Rightarrow> (slots ! i # taken, rest))
        else sweep_slots P (i + 1) slots
      else ([], slots))"
  by pat_completeness auto
termination
  by (relation "measure (\<lambda>(P, i, slots). length slots - i)") (auto simp: swap_remove_def)

declare sweep_slots.simps [simp del]

definition take_by_isolate :: "nat \<Rightarrow> slot_record list \<Rightarrow> slot_record list \<times> slot_record list" where
  "take_by_isolate isolate = sweep_slots (\<lambda>r. sl_isolate r = isolate) 0"

definition set_slot_state :: "nat \<Rightarrow> deferred_slot_state \<Rightarrow> ('h, 'm, 'd) rt \<Rightarrow> ('h, 'm, 'd) rt" where
  "set_slot_state slot st s =
     s\<lparr>rt_slot_cells := (rt_slot_cells s)(slot := (rt_slot_cells s slot)\<lparr>sc_state := st\<rparr>)\<rparr>"

end
