(* ===== verification/Rt_Calls.thy ===== *)
theory Rt_Calls
  imports Rt_State
begin

text \<open>
  How calls end (\<open>dispatch.rs\<close>): delivery of an outcome to the requester, completion, cancellation and
  timeout of isolate calls, deferred replies, the final result of a child, and the stopping of an
  isolate, which settles everything that waits on it.
\<close>

fun foldM :: "('a \<Rightarrow> 's \<Rightarrow> 's option) \<Rightarrow> 'a list \<Rightarrow> 's \<Rightarrow> 's option" where
  "foldM f [] s = Some s"
| "foldM f (x # xs) s = do { s \<leftarrow> f x s; foldM f xs s }"

section \<open>Isolate calls\<close>

fun outcome_failure :: "'m erased_outcome \<Rightarrow> call_error option" where
  "outcome_failure (OutReplied _) = None"
| "outcome_failure OutFull = Some TargetFull"
| "outcome_failure OutClosed = Some TargetClosed"
| "outcome_failure OutTimeout = Some TimedOut"
| "outcome_failure (OutRejected reason) = Some (RejectedError reason)"

definition deliver_isolate_call_outcome ::
    "nat \<Rightarrow> reg_address \<Rightarrow> nat \<Rightarrow> 'm erased_outcome \<Rightarrow> ('m erased_outcome \<Rightarrow> 'm) \<Rightarrow> call_context option
     \<Rightarrow> ('h, 'm, 'd) rt \<Rightarrow> ('h, 'm, 'd) rt option" where
  "deliver_isolate_call_outcome call_id requester cause outcome translator context s =
     (let failure = outcome_failure outcome;
          s = (case failure of None \<Rightarrow> s
               | Some reason \<Rightarrow> log_event (ra_isolate requester) (Some cause)
                                  (CallFailed call_id KindIsolateCall reason) s);
          message = translator outcome;
          refused = (\<lambda>reason. log_event (ra_isolate requester) (Some cause)
                                (CallCompletionRejected call_id KindIsolateCall reason))
      in case entry_index requester s of
           None \<Rightarrow> Some (refused RequesterClosed s)
         | Some index \<Rightarrow> do {
             entry \<leftarrow> get_entry index s;
             if en_stopped entry then Some (refused RequesterClosed s)
             else do {
               (r, s) \<leftarrow> enqueue_entry_message index message context s;
               Some (case r of
                       Inr _ \<Rightarrow> (if failure = None
                                 then log_event (ra_isolate requester) (Some cause)
                                        (CallCompleted call_id KindIsolateCall) s
                                 else s)
                     | Inl (SendFull _) \<Rightarrow> refused MailboxFull s
                     | Inl (SendClosed _) \<Rightarrow> refused RequesterClosed s) } })"

definition complete_isolate_call ::
    "nat \<Rightarrow> nat \<Rightarrow> 'm erased_outcome \<Rightarrow> ('h, 'm, 'd) rt \<Rightarrow> (bool \<times> ('h, 'm, 'd) rt) option" where
  "complete_isolate_call call_id cause outcome s =
     (case remove_isolate call_id (rt_calls s) of
        None \<Rightarrow> Some (False, s)
      | Some (pending, t) \<Rightarrow> do {
          let s = set_handle_state (pi_handle pending) HandleSettled (s\<lparr>rt_calls := t\<rparr>);
          s \<leftarrow> deliver_isolate_call_outcome call_id (pi_requester pending) cause outcome
                 (pi_translator pending) (pi_context pending) s;
          Some (True, s) })"

definition close_deferred_slot_for_call_with_reason ::
    "nat \<Rightarrow> deferred_reply_rejected \<Rightarrow> ('h, 'm, 'd) rt \<Rightarrow> ('h, 'm, 'd) rt" where
  "close_deferred_slot_for_call_with_reason call_id reason s =
     (case take_by_local_call_id call_id (rt_slots s) of
        None \<Rightarrow> s
      | Some (record, slots) \<Rightarrow>
          log_event (sl_isolate record) None
            (DeferredReplyRejected (sl_slot_id record) (sl_call_id record) reason)
            (set_slot_state (sl_slot_id record) SlotClosed (s\<lparr>rt_slots := slots\<rparr>)))"

text \<open>
  The loop of \<open>harvest_isolate_call_timeouts\<close> is a partial function: for a deadline whose call is
  missing it would not return.
\<close>

definition expire_isolate_call ::
    "'m pending_isolate_call \<Rightarrow> ('h, 'm, 'd) rt \<Rightarrow> ('h, 'm, 'd) rt option" where
  "expire_isolate_call entry s =
     deliver_isolate_call_outcome (pi_call_id entry) (pi_requester entry) (pi_cause entry) OutTimeout
       (pi_translator entry) (pi_context entry)
       (close_deferred_slot_for_call_with_reason (pi_call_id entry) DrCallerTimedOut
         (record_cancelled_call (pi_call_id entry) CallerTimedOut
           (set_handle_state (pi_handle entry) HandleSettled s)))"

partial_function (option) harvest_isolate_call_timeouts ::
    "instant \<Rightarrow> ('h, 'm, 'd) rt \<Rightarrow> ('h, 'm, 'd) rt option" where
  "harvest_isolate_call_timeouts now s =
     (case next_due_isolate now (rt_calls s) of
        None \<Rightarrow> Some s
      | Some call_id \<Rightarrow>
          (case remove_isolate call_id (rt_calls s) of
             None \<Rightarrow> harvest_isolate_call_timeouts now s
           | Some (entry, t) \<Rightarrow> do {
               s \<leftarrow> expire_isolate_call entry (s\<lparr>rt_calls := t\<rparr>);
               harvest_isolate_call_timeouts now s }))"

definition owner_cancel_call ::
    "nat \<Rightarrow> 'm pending_isolate_call \<Rightarrow> ('h, 'm, 'd) rt \<Rightarrow> ('h, 'm, 'd) rt" where
  "owner_cancel_call owner entry s =
     log_event owner (Some (pi_cause entry)) (CallCancelled (pi_call_id entry) OwnerStopped)
       (close_deferred_slot_for_call_with_reason (pi_call_id entry) DrOwnerStopped
         (set_handle_state (pi_handle entry) HandleCancelled s))"

definition cancel_pending_isolate_calls_for_owner ::
    "nat \<Rightarrow> nat \<Rightarrow> ('h, 'm, 'd) rt \<Rightarrow> ('h, 'm, 'd) rt option" where
  "cancel_pending_isolate_calls_for_owner isolate generation s =
     do {
       (owned, t) \<leftarrow> take_isolate_calls_for_owner isolate generation (rt_calls s);
       let s = fold (\<lambda>entry. record_cancelled_call (pi_call_id entry) OwnerStopped) owned (s\<lparr>rt_calls := t\<rparr>);
       Some (fold (owner_cancel_call isolate) owned s) }"

section \<open>Driver calls of a requester\<close>

definition cancel_driver_call ::
    "('h, 'm, 'd) rt_env \<Rightarrow> nat \<Rightarrow> ('h, 'm, 'd) rt \<Rightarrow> ('h, 'm, 'd) rt option" where
  "cancel_driver_call E call_id s =
     do {
       (call, t) \<leftarrow> remove_driver call_id (rt_calls s);
       let head = dc_head call;
       Some (log_event (ra_isolate (dh_requester head)) (Some (dh_cause head))
               (CallCompletionRejected (dh_call_id head) (dh_kind head) RequesterClosed)
               (s\<lparr>rt_calls := t, rt_world := env_cancel E (dh_call_id head) (rt_world s),
                  rt_completions := filter (\<lambda>(i, _). i \<noteq> call_id) (rt_completions s)\<rparr>)) }"

definition cancel_driver_calls_for_requester ::
    "('h, 'm, 'd) rt_env \<Rightarrow> reg_address \<Rightarrow> ('h, 'm, 'd) rt \<Rightarrow> ('h, 'm, 'd) rt option" where
  "cancel_driver_calls_for_requester E requester s =
     foldM (cancel_driver_call E) (driver_call_ids_for_requester requester (rt_calls s)) s"

section \<open>Deferred replies\<close>

definition drop_promoted_deferred_slot ::
    "nat option \<Rightarrow> slot_record \<Rightarrow> ('h, 'm, 'd) rt \<Rightarrow> ('h, 'm, 'd) rt option" where
  "drop_promoted_deferred_slot cause record s =
     (if sc_state (rt_slot_cells s (sl_slot_id record)) \<noteq> SlotOpen then Some s
      else do {
        let (dropped, s) = push_event (sl_isolate record) cause
              (DeferredReplyDropped (sl_slot_id record) (sl_call_id record))
              (set_slot_state (sl_slot_id record) SlotClosed s);
        (_, s) \<leftarrow> complete_isolate_call (sl_call_id record) dropped OutClosed s;
        Some s })"

definition sweep_dropped_deferred_slots ::
    "('h, 'm, 'd) rt_env \<Rightarrow> ('h, 'm, 'd) rt \<Rightarrow> ('h, 'm, 'd) rt option" where
  "sweep_dropped_deferred_slots E s =
     (if rt_slots s = [] then Some s
      else case sweep_slots (\<lambda>r. env_handle_dropped E (sl_slot_id r) (rt_world s)) 0 (rt_slots s) of
        (dropped, slots) \<Rightarrow> foldM (drop_promoted_deferred_slot None) dropped (s\<lparr>rt_slots := slots\<rparr>))"

definition drop_pending_capture :: "nat \<Rightarrow> slot_record \<Rightarrow> ('h, 'm, 'd) rt \<Rightarrow> ('h, 'm, 'd) rt option" where
  "drop_pending_capture cause capture s =
     do {
       let s = set_slot_state (sl_slot_id capture) SlotClosed s;
       let (captured, s) = push_event (sl_isolate capture) (Some cause)
             (DeferredReplyCaptured (sl_slot_id capture) (sl_call_id capture)) s;
       let (dropped, s) = push_event (sl_isolate capture) (Some captured)
             (DeferredReplyDropped (sl_slot_id capture) (sl_call_id capture)) s;
       (_, s) \<leftarrow> complete_isolate_call (sl_call_id capture) dropped OutClosed s;
       Some s }"

definition drop_pending_deferred_captures ::
    "nat \<Rightarrow> ('h, 'm, 'd) rt \<Rightarrow> (bool \<times> ('h, 'm, 'd) rt) option" where
  "drop_pending_deferred_captures cause s =
     do {
       let captures = rt_captures s;
       s \<leftarrow> foldM (drop_pending_capture cause) captures (s\<lparr>rt_captures := []\<rparr>);
       Some (captures \<noteq> [], s) }"

definition promote_capture :: "nat \<Rightarrow> nat \<Rightarrow> slot_record \<Rightarrow> ('h, 'm, 'd) rt \<Rightarrow> ('h, 'm, 'd) rt" where
  "promote_capture isolate cause capture s =
     (let s = log_event isolate (Some cause) (DeferredReplyCaptured (sl_slot_id capture) (sl_call_id capture)) s
      in s\<lparr>rt_slots := rt_slots s @ [capture]\<rparr>)"

definition promote_captures :: "nat \<Rightarrow> nat \<Rightarrow> ('h, 'm, 'd) rt \<Rightarrow> bool \<times> ('h, 'm, 'd) rt" where
  "promote_captures isolate cause s =
     (let captures = rt_captures s in
      if captures = [] then (False, s)
      else (True, fold (promote_capture isolate cause) captures (s\<lparr>rt_captures := []\<rparr>)))"

section \<open>Rejecting a call\<close>

definition push_call_rejected_event ::
    "nat \<Rightarrow> nat \<Rightarrow> nat \<Rightarrow> call_rejected_reason \<Rightarrow> ('h, 'm, 'd) rt \<Rightarrow> ('h, 'm, 'd) rt" where
  "push_call_rejected_event isolate cause call_id reason s =
     (let kind = (if reason = CrReplyAbandoned then CallReplyAbandoned call_id
                  else CallRejected call_id reason);
          s = (if reason = CrUnsupportedMessage then s\<lparr>rt_unsupported := rt_unsupported s + 1\<rparr> else s)
      in log_event isolate (Some cause) kind s)"

definition late_reply_reason :: "nat \<Rightarrow> ('h, 'm, 'd) rt \<Rightarrow> call_reply_rejected" where
  "late_reply_reason call_id s =
     (case recently_cancelled_cause call_id s of
        Some c \<Rightarrow> call_reply_reason_for_cause c | None \<Rightarrow> RrNoPendingCall)"

fun reply_path_reason :: "send_rejected_reason \<Rightarrow> call_reply_rejected" where
  "reply_path_reason (RejForeignSystem e a) = RrForeignSystem e a"
| "reply_path_reason RejFull = RrReplyPathFull"
| "reply_path_reason RejClosed = RrRequesterShardClosed"

definition settle_local_reply ::
    "nat \<Rightarrow> nat \<Rightarrow> nat \<Rightarrow> 'm erased_outcome \<Rightarrow> ('h, 'm, 'd) rt \<Rightarrow> ('h, 'm, 'd) rt option" where
  "settle_local_reply isolate cause call_id outcome s =
     do {
       (done, s) \<leftarrow> complete_isolate_call call_id cause outcome s;
       Some (if done then s
             else log_event isolate (Some cause) (CallReplyRejected call_id (late_reply_reason call_id s)) s) }"

definition route_remote_reply ::
    "('h, 'm, 'd) rt_env \<Rightarrow> nat \<Rightarrow> nat \<Rightarrow> nat \<Rightarrow> reg_address \<Rightarrow> nat \<Rightarrow> 'm remote_outcome
     \<Rightarrow> ('h, 'm, 'd) rt \<Rightarrow> ('h, 'm, 'd) rt option" where
  "route_remote_reply E isolate cause call_id requester request_cause outcome s =
     do {
       (r, s) \<leftarrow> route_remote E (EnvCallReply call_id requester request_cause outcome) s;
       Some (case r of
               Inr _ \<Rightarrow> s
             | Inl reason \<Rightarrow> log_event isolate (Some cause)
                 (CallReplyRejected call_id (reply_path_reason reason)) s) }"

definition reject_call_context ::
    "('h, 'm, 'd) rt_env \<Rightarrow> nat \<Rightarrow> nat \<Rightarrow> call_context \<Rightarrow> call_rejected_reason \<Rightarrow> ('h, 'm, 'd) rt
     \<Rightarrow> ('h, 'm, 'd) rt option" where
  "reject_call_context E isolate cause context reason s =
     (case context of
        LocalContext call_id \<Rightarrow>
          settle_local_reply isolate cause call_id (OutRejected reason)
            (push_call_rejected_event isolate cause call_id reason s)
      | RemoteContext call_id requester request_cause _ \<Rightarrow>
          route_remote_reply E isolate cause call_id requester request_cause (RoRejected reason)
            (push_call_rejected_event isolate cause call_id reason s))"

section \<open>Replying through a deferred slot\<close>

definition deferred_sent :: "nat \<Rightarrow> nat \<Rightarrow> slot_record \<Rightarrow> ('h, 'm, 'd) rt \<Rightarrow> ('h, 'm, 'd) rt" where
  "deferred_sent isolate cause record s =
     log_event isolate (Some cause) (DeferredReplySent (sl_slot_id record) (sl_call_id record))
       (set_slot_state (sl_slot_id record) SlotReplied s)"

definition deferred_refused ::
    "nat \<Rightarrow> nat \<Rightarrow> slot_record \<Rightarrow> deferred_reply_rejected \<Rightarrow> ('h, 'm, 'd) rt \<Rightarrow> ('h, 'm, 'd) rt" where
  "deferred_refused isolate cause record reason s =
     log_event isolate (Some cause) (DeferredReplyRejected (sl_slot_id record) (sl_call_id record) reason)
       (set_slot_state (sl_slot_id record) SlotClosed s)"

fun deferred_path_reason :: "send_rejected_reason \<Rightarrow> deferred_reply_rejected" where
  "deferred_path_reason (RejForeignSystem e a) = DrForeignSystem e a"
| "deferred_path_reason RejFull = DrReplyPathFull"
| "deferred_path_reason RejClosed = DrRequesterShardClosed"

definition execute_reply_to ::
    "('h, 'm, 'd) rt_env \<Rightarrow> nat \<Rightarrow> nat \<Rightarrow> nat \<Rightarrow> 'm \<Rightarrow> ('h, 'm, 'd) rt \<Rightarrow> ('h, 'm, 'd) rt option" where
  "execute_reply_to E isolate cause slot message s =
     (case take_by_handle slot (rt_slots s) of
        None \<Rightarrow> Some s
      | Some (record, slots) \<Rightarrow>
          let s = s\<lparr>rt_slots := slots\<rparr> in
          if env_type_id E message \<noteq> sc_type (rt_slot_cells s (sl_slot_id record))
          then Some (deferred_refused isolate cause record DrTypeMismatch s)
          else case sl_routing record of
            RouteLocal \<Rightarrow> do {
              (done, s) \<leftarrow> complete_isolate_call (sl_call_id record) cause (OutReplied message) s;
              Some (if done then deferred_sent isolate cause record s
                    else deferred_refused isolate cause record
                      (case recently_cancelled_cause (sl_call_id record) s of
                         Some c \<Rightarrow> deferred_reply_reason_for_cause c | None \<Rightarrow> DrCallerClosed) s) }
          | RouteRemote requester request_cause \<Rightarrow> do {
              (r, s) \<leftarrow> route_remote E
                 (EnvCallReply (sl_call_id record) requester request_cause (RoReplied message)) s;
              Some (case r of
                      Inr _ \<Rightarrow> deferred_sent isolate cause record s
                    | Inl reason \<Rightarrow>
                        deferred_refused isolate cause record (deferred_path_reason reason) s) })"

end
