(* ===== verification/Rt_Lifecycle.thy ===== *)
theory Rt_Lifecycle
  imports Rt_Calls
begin

text \<open>
  The life of an isolate (\<open>dispatch.rs\<close>, \<open>registration.rs\<close>): spawning, the final result of a child,
  stopping, restarting, supervision, and the collection of stopped isolates.
\<close>

section \<open>The final result of a child\<close>

text \<open>The reservation of a slot in the parent's mailbox for the final result.\<close>

definition try_reserve_terminal_slot ::
    "nat \<Rightarrow> ('h, 'm, 'd) rt \<Rightarrow> (reservation_error + unit) \<times> ('h, 'm, 'd) rt" where
  "try_reserve_terminal_slot parent s =
     (case position (\<lambda>entry. en_id entry = parent) (rt_entries s) of
        None \<Rightarrow> (Inl ReserveClosed, s)
      | Some i \<Rightarrow>
          let entry = rt_entries s ! i in
          if en_stopped entry then (Inl ReserveClosed, s)
          else case am_try_reserve (en_mailbox entry) of
                 (r, q) \<Rightarrow> (r, set_entry i (entry\<lparr>en_mailbox := q\<rparr>) s))"

definition release_terminal_slot :: "nat \<Rightarrow> ('h, 'm, 'd) rt \<Rightarrow> ('h, 'm, 'd) rt" where
  "release_terminal_slot parent s =
     (case position (\<lambda>entry. en_id entry = parent) (rt_entries s) of
        None \<Rightarrow> s
      | Some i \<Rightarrow>
          let entry = rt_entries s ! i
          in set_entry i (entry\<lparr>en_mailbox := am_release (en_mailbox entry)\<rparr>) s)"

definition terminal_disposed_event ::
    "('h, 'm, 'd) child_record \<Rightarrow> reg_address \<Rightarrow> nat option \<Rightarrow> terminal_disposed \<Rightarrow> ('h, 'm, 'd) rt
     \<Rightarrow> ('h, 'm, 'd) rt" where
  "terminal_disposed_event record child cause reason s =
     log_event (cr_parent record) cause
       (ChildTerminalDisposed (cr_ordinal record) (ra_isolate child) (ra_generation child) reason) s"

fun terminal_send_reason :: "send_rejected_reason \<Rightarrow> terminal_disposed" where
  "terminal_send_reason RejFull = TdParentMailboxFull"
| "terminal_send_reason RejClosed = TdParentMailboxClosed"
| "terminal_send_reason (RejForeignSystem _ _) = TdParentStopped"

text \<open>The tail of \<open>settle_child_terminal_observation\<close>: the mapped result goes to the parent.\<close>

definition deliver_terminal_message ::
    "('h, 'm, 'd) child_record \<Rightarrow> reg_address \<Rightarrow> bool \<Rightarrow> 'm \<Rightarrow> nat \<Rightarrow> ('h, 'm, 'd) rt
     \<Rightarrow> ('h, 'm, 'd) rt option" where
  "deliver_terminal_message record child reserved message cause s =
     (let parent = cr_parent record in
      case rt_indexes s parent of
        None \<Rightarrow> Some (terminal_disposed_event record child (Some cause) TdParentStopped s)
      | Some index \<Rightarrow> do {
          entry \<leftarrow> get_entry index s;
          if en_stopped entry then
            Some (terminal_disposed_event record child (Some cause) TdParentStopped
              (if reserved then set_entry index (entry\<lparr>en_mailbox := am_release (en_mailbox entry)\<rparr>) s
               else s))
          else do {
            let generation = en_generation entry;
            let (attempted, s) = push_event parent (Some cause)
                  (SendDispatchAttempted (rt_shard s) parent generation) s;
            (r, s) \<leftarrow>
              (if reserved then
                 (case am_try_send_reserved message (en_mailbox entry) of
                    (r, q) \<Rightarrow> Some (map_sum send_error_reason id r,
                               set_entry index (entry\<lparr>en_mailbox := q\<rparr>) s))
               else dispatch_local_send \<lparr>es_system = rt_system s, es_shard = rt_shard s,
                      es_isolate = parent, es_generation = generation, es_message = message\<rparr> s);
            Some (case r of
                    Inr _ \<Rightarrow>
                      log_event parent (Some attempted)
                        (ChildTerminalDelivered (cr_ordinal record) (ra_isolate child) (ra_generation child))
                        (log_event parent (Some attempted) (SendAccepted (rt_shard s) parent generation) s)
                  | Inl reason \<Rightarrow>
                      terminal_disposed_event record child (Some attempted) (terminal_send_reason reason)
                        (log_event parent (Some attempted)
                          (SendRejected (rt_shard s) parent generation reason) s)) } })"

definition settle_child_terminal_observation ::
    "reg_address \<Rightarrow> 'm option \<Rightarrow> nat \<Rightarrow> ('h, 'm, 'd) rt \<Rightarrow> ('m option \<times> ('h, 'm, 'd) rt) option" where
  "settle_child_terminal_observation child result cause s =
     (case child_record_index_for_terminal child s of
        None \<Rightarrow> Some (result, s)
      | Some i \<Rightarrow>
          let record = rt_children s ! i;
              current = cr_child record;
              is_previous = (case cr_previous_child record of
                               None \<Rightarrow> False | Some prior \<Rightarrow> same_isolate child prior);
              is_current = same_isolate child current;
              disposed = terminal_disposed_event record child (Some cause);
              reserved = cr_slot_reserved record;
              release = (\<lambda>s. if reserved then release_terminal_slot (cr_parent record) s else s)
          in if cr_terminal_continuation record = None \<and> \<not> reserved then Some (result, s)
             else if is_previous \<and> \<not> is_current then Some (None, disposed StaleGeneration s)
             else if cr_settled_generation record = Some (ra_generation child)
             then Some (None, disposed TdDuplicate s)
             else if is_current \<and> ra_generation current \<noteq> ra_generation child
             then Some (None, disposed StaleGeneration s)
             else if \<not> is_current then Some (result, s)
             else
               let s = s\<lparr>rt_children := (rt_children s)
                     [i := record\<lparr>cr_settled_generation := Some (ra_generation child),
                                  cr_slot_reserved := False\<rparr>]\<rparr>
               in case cr_terminal_continuation record of
                    None \<Rightarrow> Some (result, release s)
                  | Some mapper \<Rightarrow>
                      (case result of
                         None \<Rightarrow> Some (None, disposed StoppedWithoutResult (release s))
                       | Some value \<Rightarrow>
                           (case mapper value of
                              None \<Rightarrow> Some (None, disposed MapperPanicked (release s))
                            | Some None \<Rightarrow> Some (None, disposed TdTypeMismatch (release s))
                            | Some (Some message) \<Rightarrow> do {
                                s \<leftarrow> deliver_terminal_message record child reserved message cause s;
                                Some (None, s) })))"

definition dispose_child_terminal_reservation ::
    "terminal_disposed \<Rightarrow> nat option \<Rightarrow> nat \<Rightarrow> ('h, 'm, 'd) rt \<Rightarrow> ('h, 'm, 'd) rt" where
  "dispose_child_terminal_reservation reason cause i s =
     (let record = rt_children s ! i; generation = ra_generation (cr_child record) in
      if \<not> cr_slot_reserved record \<and> cr_terminal_continuation record = None then s
      else if cr_settled_generation record = Some generation then s
      else
        let s = s\<lparr>rt_children := (rt_children s)
              [i := record\<lparr>cr_slot_reserved := False, cr_settled_generation := Some generation\<rparr>]\<rparr>;
            s = (if cr_slot_reserved record then release_terminal_slot (cr_parent record) s else s)
        in terminal_disposed_event record (cr_child record) cause reason s)"

definition unsettled_reservation :: "('h, 'm, 'd) child_record \<Rightarrow> bool" where
  "unsettled_reservation r \<longleftrightarrow> (cr_slot_reserved r \<or> cr_terminal_continuation r \<noteq> None)
     \<and> cr_settled_generation r \<noteq> Some (ra_generation (cr_child r))"

definition indexes_where :: "('a \<Rightarrow> bool) \<Rightarrow> 'a list \<Rightarrow> nat list" where
  "indexes_where P xs = filter (\<lambda>i. P (xs ! i)) [0..<length xs]"

definition dispose_parent_terminal_reservations ::
    "nat \<Rightarrow> nat \<Rightarrow> ('h, 'm, 'd) rt \<Rightarrow> ('h, 'm, 'd) rt" where
  "dispose_parent_terminal_reservations parent cause s =
     fold (dispose_child_terminal_reservation TdParentStopped (Some cause))
       (indexes_where (\<lambda>r. cr_parent r = parent \<and> cr_remote_owner r = None \<and> unsettled_reservation r)
         (rt_children s)) s"

definition dispose_all_terminal_reservations_on_shutdown :: "('h, 'm, 'd) rt \<Rightarrow> ('h, 'm, 'd) rt" where
  "dispose_all_terminal_reservations_on_shutdown s =
     fold (dispose_child_terminal_reservation TdShutdown None)
       (indexes_where unsettled_reservation (rt_children s)) s"

definition prune_terminal_child_records :: "reg_address \<Rightarrow> ('h, 'm, 'd) rt \<Rightarrow> ('h, 'm, 'd) rt" where
  "prune_terminal_child_records stopped s =
     (let supervised = map (\<lambda>r. ra_isolate (sr_parent r)) (rt_supervisors s);
          mark = (\<lambda>r. if cr_child r \<noteq> stopped then r
                      else if cr_recipe r = None \<and> \<not> cr_remote_restartable r
                              \<and> cr_parent r \<notin> set supervised
                      then r\<lparr>cr_terminal := True, cr_remote_request_id := None\<rparr>
                      else r\<lparr>cr_terminal := True\<rparr>)
      in s\<lparr>rt_children := filter (\<lambda>r. cr_child r \<noteq> stopped \<or> cr_recipe r \<noteq> None
             \<or> cr_remote_restartable r \<or> cr_parent r \<in> set supervised) (map mark (rt_children s))\<rparr>)"

section \<open>Stopping\<close>

definition close_drained_local_call_context ::
    "nat \<Rightarrow> 'm delivered \<Rightarrow> ('h, 'm, 'd) rt \<Rightarrow> (bool \<times> ('h, 'm, 'd) rt) option" where
  "close_drained_local_call_context cause message s =
     (case dv_context message of
        Some (LocalContext call_id) \<Rightarrow> complete_isolate_call call_id cause OutClosed s
      | _ \<Rightarrow> Some (False, s))"

definition abandon_message ::
    "nat \<Rightarrow> nat \<Rightarrow> 'm delivered \<Rightarrow> ('h, 'm, 'd) rt \<Rightarrow> ('h, 'm, 'd) rt option" where
  "abandon_message isolate stopped message s =
     do {
       (closed, s) \<leftarrow> close_drained_local_call_context stopped message s;
       Some (if closed then s else log_event isolate (Some stopped) MessageAbandoned s) }"

partial_function (option) drain_entry ::
    "nat \<Rightarrow> nat \<Rightarrow> nat \<Rightarrow> ('h, 'm, 'd) rt \<Rightarrow> ('h, 'm, 'd) rt option" where
  "drain_entry index isolate stopped s =
     do {
       (r, s) \<leftarrow> recv_entry_message index s;
       case r of
         None \<Rightarrow> Some s
       | Some message \<Rightarrow> do {
           s \<leftarrow> abandon_message isolate stopped message s;
           drain_entry index isolate stopped s } }"

definition abandon_precollected ::
    "nat \<Rightarrow> nat \<Rightarrow> 'm delivered option \<Rightarrow> ('h, 'm, 'd) rt \<Rightarrow> ('h, 'm, 'd) rt option" where
  "abandon_precollected isolate stopped precollected s =
     (case precollected of None \<Rightarrow> Some s | Some message \<Rightarrow> abandon_message isolate stopped message s)"

definition mark_stopped ::
    "nat \<Rightarrow> nat \<Rightarrow> nat \<Rightarrow> ('h, 'm) rt_entry \<Rightarrow> ('h, 'm, 'd) rt \<Rightarrow> nat \<times> ('h, 'm, 'd) rt" where
  "mark_stopped index isolate cause entry s =
     (let entry = entry\<lparr>en_stopped := True, en_mailbox := am_close (en_mailbox entry)\<rparr>;
          (stopped, s) = push_event isolate (Some cause) IsolateStopped
            (set_entry index entry (s\<lparr>rt_has_stopped := True\<rparr>))
      in (stopped, notify (NoteStopped isolate (en_generation entry))
            (set_entry index (entry\<lparr>en_stopped_event := Some stopped\<rparr>) s)))"

definition stop_entry_full ::
    "('h, 'm, 'd) rt_env \<Rightarrow> nat \<Rightarrow> nat \<Rightarrow> nat \<Rightarrow> 'm delivered option \<Rightarrow> 'm option \<Rightarrow> ('h, 'm, 'd) rt
     \<Rightarrow> (nat \<times> ('h, 'm, 'd) rt) option" where
  "stop_entry_full E index isolate cause precollected result s =
     do {
       entry \<leftarrow> get_entry index s;
       let generation = en_generation entry;
       let address = self_address isolate generation s;
       if en_stopped entry then do {
         stopped \<leftarrow> en_stopped_event entry;
         s \<leftarrow> abandon_precollected isolate stopped precollected s;
         (_, s) \<leftarrow> settle_child_terminal_observation address result stopped s;
         Some (stopped, s) }
       else do {
         let (stopped, s) = mark_stopped index isolate cause entry s;
         (result, s) \<leftarrow> settle_child_terminal_observation address result stopped s;
         let s = prune_terminal_child_records address (dispose_parent_terminal_reservations isolate stopped s);
         let (records, slots) = take_by_isolate isolate (rt_slots s);
         s \<leftarrow> foldM (drop_promoted_deferred_slot (Some stopped)) records (s\<lparr>rt_slots := slots\<rparr>);
         s \<leftarrow> cancel_driver_calls_for_requester E address s;
         s \<leftarrow> cancel_pending_isolate_calls_for_owner isolate generation s;
         s \<leftarrow> abandon_precollected isolate stopped precollected s;
         s \<leftarrow> drain_entry index isolate stopped s;
         Some (stopped, notify (case result of
                  Some value \<Rightarrow> NoteResult isolate generation value
                | None \<Rightarrow> NoteStoppedWithoutResult isolate generation) s) } }"

definition stop_entry ::
    "('h, 'm, 'd) rt_env \<Rightarrow> nat \<Rightarrow> nat \<Rightarrow> nat \<Rightarrow> ('h, 'm, 'd) rt \<Rightarrow> ('h, 'm, 'd) rt option" where
  "stop_entry E index isolate cause s = map_option snd (stop_entry_full E index isolate cause None None s)"

definition stop_entry_with_precollected ::
    "('h, 'm, 'd) rt_env \<Rightarrow> nat \<Rightarrow> nat \<Rightarrow> nat \<Rightarrow> 'm delivered option \<Rightarrow> ('h, 'm, 'd) rt
     \<Rightarrow> ('h, 'm, 'd) rt option" where
  "stop_entry_with_precollected E index isolate cause precollected s =
     map_option snd (stop_entry_full E index isolate cause precollected None s)"

definition stop_entry_with_result ::
    "('h, 'm, 'd) rt_env \<Rightarrow> nat \<Rightarrow> nat \<Rightarrow> nat \<Rightarrow> 'm \<Rightarrow> ('h, 'm, 'd) rt \<Rightarrow> ('h, 'm, 'd) rt option" where
  "stop_entry_with_result E index isolate cause result s =
     map_option snd (stop_entry_full E index isolate cause None (Some result) s)"

section \<open>Spawning\<close>

definition enqueue_bootstrap_message ::
    "reg_address \<Rightarrow> 'm \<Rightarrow> nat \<Rightarrow> ('h, 'm, 'd) rt \<Rightarrow> ('h, 'm, 'd) rt option" where
  "enqueue_bootstrap_message child message cause s =
     do {
       index \<leftarrow> position (\<lambda>e. en_id e = ra_isolate child \<and> en_generation e = ra_generation child) (rt_entries s);
       (r, s) \<leftarrow> enqueue_entry_message index message None s;
       case r of
         Inl _ \<Rightarrow> None
       | Inr _ \<Rightarrow> Some (log_event (ra_isolate child) (Some cause) MailboxAccepted s) }"

definition enqueue_bootstrap ::
    "reg_address \<Rightarrow> 'm option \<Rightarrow> nat \<Rightarrow> ('h, 'm, 'd) rt \<Rightarrow> ('h, 'm, 'd) rt option" where
  "enqueue_bootstrap child bootstrap cause s =
     (case bootstrap of None \<Rightarrow> Some s | Some message \<Rightarrow> enqueue_bootstrap_message child message cause s)"

definition spawn_isolate ::
    "nat \<Rightarrow> 'h \<Rightarrow> nat \<Rightarrow> 'm option \<Rightarrow> ('h, 'm, 'd) rt
     \<Rightarrow> (('h, 'm, 'd) spawn_outcome \<times> ('h, 'm, 'd) rt) option" where
  "spawn_isolate parent isolate capacity bootstrap s =
     (if capacity = 0 then None
      else case register_entry isolate (Some parent) capacity s of
        (child, s) \<Rightarrow>
          Some (\<lparr>so_child = child, so_capacity = capacity, so_recipe = None,
                 so_restart_continuation = None, so_terminal_continuation = None,
                 so_slot_reserved = False, so_bootstrap = bootstrap\<rparr>, s))"

text \<open>
  Running the two factories of a recipe: \<open>None\<close> is a panic of one of them, which leaves the world as
  it was when the panic happened.
\<close>

definition run_factories ::
    "('h, 'm, 'd) restart_recipe \<Rightarrow> 'd \<Rightarrow> ('h \<times> 'm option) option \<times> 'd" where
  "run_factories recipe w =
     (case recipe of Recipe factory _ bootstrap_factory _ \<Rightarrow>
        (case factory w of
           (None, w) \<Rightarrow> (None, w)
         | (Some isolate, w) \<Rightarrow>
             (case bootstrap_factory of
                None \<Rightarrow> (Some (isolate, None), w)
              | Some f \<Rightarrow> (case f w of
                             (None, w) \<Rightarrow> (None, w)
                           | (Some message, w) \<Rightarrow> (Some (isolate, Some message), w)))))"

fun recipe_capacity :: "('h, 'm, 'd) restart_recipe \<Rightarrow> nat" where
  "recipe_capacity (Recipe _ capacity _ _) = capacity"

text \<open>
  \<open>ErasedSpawn::spawn\<close> does not catch a panic; \<open>try_spawn_observed\<close> turns it and a capacity of zero
  into an error.
\<close>

fun spawn_child ::
    "nat \<Rightarrow> ('h, 'm, 'd) erased_spawn \<Rightarrow> ('h, 'm, 'd) rt
     \<Rightarrow> (('h, 'm, 'd) spawn_outcome \<times> ('h, 'm, 'd) rt) option" where
  "spawn_child parent (SpawnAdapter isolate capacity bootstrap) s = spawn_isolate parent isolate capacity bootstrap s"
| "spawn_child parent (RestartableAdapter recipe) s =
     (case run_factories recipe (rt_world s) of
        (None, _) \<Rightarrow> None
      | (Some (isolate, bootstrap), w) \<Rightarrow> do {
          (outcome, s) \<leftarrow> spawn_isolate parent isolate (recipe_capacity recipe) bootstrap (s\<lparr>rt_world := w\<rparr>);
          Some (outcome\<lparr>so_recipe := Some recipe\<rparr>, s) })"

fun spawn_capacity :: "('h, 'm, 'd) erased_spawn \<Rightarrow> nat" where
  "spawn_capacity (SpawnAdapter _ capacity _) = capacity"
| "spawn_capacity (RestartableAdapter recipe) = recipe_capacity recipe"

definition try_spawn_observed ::
    "nat \<Rightarrow> ('h, 'm, 'd) erased_spawn \<Rightarrow> ('h, 'm, 'd) rt
     \<Rightarrow> ((spawn_observed_error + ('h, 'm, 'd) spawn_outcome) \<times> ('h, 'm, 'd) rt) option" where
  "try_spawn_observed parent spawn s =
     (if spawn_capacity spawn = 0 then Some (Inl SoeZeroMailboxCapacity, s)
      else case spawn of
        SpawnAdapter isolate capacity bootstrap \<Rightarrow>
          map_option (\<lambda>(outcome, s). (Inr outcome, s)) (spawn_isolate parent isolate capacity bootstrap s)
      | RestartableAdapter recipe \<Rightarrow>
          (case run_factories recipe (rt_world s) of
             (None, w) \<Rightarrow> Some (Inl SoeFactoryPanicked, s\<lparr>rt_world := w\<rparr>)
           | (Some (isolate, bootstrap), w) \<Rightarrow> do {
               (outcome, s) \<leftarrow> spawn_isolate parent isolate (recipe_capacity recipe) bootstrap (s\<lparr>rt_world := w\<rparr>);
               Some (Inr (outcome\<lparr>so_recipe := Some recipe\<rparr>), s) }))"

fun reservation_spawn_error :: "reservation_error \<Rightarrow> spawn_observed_error" where
  "reservation_spawn_error ReserveFull = SoeParentMailboxFull"
| "reservation_spawn_error ReserveClosed = SoeParentMailboxClosed"
| "reservation_spawn_error ReserveUnsupported = SoeReservationsUnsupported"

text \<open>
  \<open>SpawnObservedAdapter::spawn_observed\<close>: the slot for the final result is reserved before the child
  is created and given back when it cannot be. The result is the spawn, if any, and the message
  for the parent.
\<close>

definition spawn_observed ::
    "nat \<Rightarrow> ('h, 'm, 'd) erased_spawn \<Rightarrow> (spawn_observed_error + reg_address \<Rightarrow> 'm)
     \<Rightarrow> (reg_address \<Rightarrow> 'm) option \<Rightarrow> ('m \<Rightarrow> 'm option option) option \<Rightarrow> ('h, 'm, 'd) rt
     \<Rightarrow> (('h, 'm, 'd) spawn_outcome option \<times> 'm \<times> ('h, 'm, 'd) rt) option" where
  "spawn_observed parent spawn continuation restart_continuation terminal s =
     (case (if terminal = None then (Inr (), s) else try_reserve_terminal_slot parent s) of
        (Inl err, s) \<Rightarrow> Some (None, continuation (Inl (reservation_spawn_error err)), s)
      | (Inr _, s) \<Rightarrow> do {
          (r, s) \<leftarrow> try_spawn_observed parent spawn s;
          case r of
            Inl err \<Rightarrow>
              Some (None, continuation (Inl err),
                    if terminal = None then s else release_terminal_slot parent s)
          | Inr outcome \<Rightarrow>
              Some (Some (outcome\<lparr>so_restart_continuation := restart_continuation,
                                  so_terminal_continuation := terminal,
                                  so_slot_reserved := (terminal \<noteq> None)\<rparr>),
                    continuation (Inr (so_child outcome)), s) })"

definition record_child :: "nat \<Rightarrow> ('h, 'm, 'd) spawn_outcome \<Rightarrow> ('h, 'm, 'd) rt \<Rightarrow> ('h, 'm, 'd) rt" where
  "record_child parent outcome s =
     s\<lparr>rt_children := rt_children s @
        [\<lparr>cr_parent = parent, cr_child = so_child outcome,
          cr_ordinal = length (filter (\<lambda>r. cr_parent r = parent \<and> cr_remote_owner r = None) (rt_children s)),
          cr_capacity = so_capacity outcome, cr_recipe = so_recipe outcome,
          cr_restart_continuation = so_restart_continuation outcome,
          cr_terminal_continuation = so_terminal_continuation outcome,
          cr_slot_reserved = so_slot_reserved outcome, cr_settled_generation = None,
          cr_previous_child = None, cr_remote_request_id = None, cr_remote_owner = None,
          cr_remote_restartable = False, cr_terminal = False\<rparr>]\<rparr>"

definition next_child_ordinal :: "nat \<Rightarrow> ('h, 'm, 'd) rt \<Rightarrow> nat" where
  "next_child_ordinal parent s =
     length (filter (\<lambda>r. cr_parent r = parent \<and> cr_remote_owner r = None) (rt_children s))
     + length (filter (\<lambda>p. ra_isolate (ps_requester p) = parent) (rt_pending_spawns s))"

definition register_remote_child ::
    "'h \<Rightarrow> nat \<Rightarrow> 'm option \<Rightarrow> reg_address \<Rightarrow> nat \<Rightarrow> nat option \<Rightarrow> reg_address option
     \<Rightarrow> ('h, 'm, 'd) restart_recipe option \<Rightarrow> nat \<Rightarrow> ('h, 'm, 'd) rt
     \<Rightarrow> (reg_address \<times> ('h, 'm, 'd) rt) option" where
  "register_remote_child isolate capacity bootstrap owner ordinal request_id remote_owner recipe cause s =
     (let is_local = (ra_shard owner = rt_shard s);
          (child, s) = register_entry isolate (if is_local then Some (ra_isolate owner) else None) capacity s;
          record = \<lparr>cr_parent = ra_isolate owner, cr_child = child, cr_ordinal = ordinal,
                    cr_capacity = capacity, cr_recipe = recipe, cr_restart_continuation = None,
                    cr_terminal_continuation = None, cr_slot_reserved = False,
                    cr_settled_generation = None, cr_previous_child = None,
                    cr_remote_request_id = (if is_local then None else request_id),
                    cr_remote_owner = (if is_local then None else remote_owner),
                    cr_remote_restartable = False, cr_terminal = False\<rparr>;
          (spawned, s) = push_event (if is_local then ra_isolate owner else ra_isolate child) (Some cause)
            (Spawned (ra_isolate child)) (s\<lparr>rt_children := rt_children s @ [record]\<rparr>)
      in do { s \<leftarrow> enqueue_bootstrap child bootstrap spawned s; Some (child, s) })"

text \<open>\<open>SendErasedSpawn::spawn_remote\<close>, for a plain and for a restartable child.\<close>

definition spawn_remote ::
    "('h, 'm, 'd) erased_spawn \<Rightarrow> reg_address \<Rightarrow> nat \<Rightarrow> nat option \<Rightarrow> nat \<Rightarrow> ('h, 'm, 'd) rt
     \<Rightarrow> ((spawn_observed_error + reg_address) \<times> ('h, 'm, 'd) rt) option" where
  "spawn_remote spawn owner ordinal request_id cause s =
     (if spawn_capacity spawn = 0 then Some (Inl SoeZeroMailboxCapacity, s)
      else
        let remote_owner = (if ra_shard owner \<noteq> rt_shard s then Some owner else None) in
        case spawn of
          SpawnAdapter isolate capacity bootstrap \<Rightarrow>
            map_option (\<lambda>(child, s). (Inr child, s))
              (register_remote_child isolate capacity bootstrap owner ordinal request_id remote_owner None cause s)
        | RestartableAdapter recipe \<Rightarrow>
            (case run_factories recipe (rt_world s) of
               (None, w) \<Rightarrow> Some (Inl SoeFactoryPanicked, s\<lparr>rt_world := w\<rparr>)
             | (Some (isolate, bootstrap), w) \<Rightarrow>
                 map_option (\<lambda>(child, s). (Inr child, s))
                   (register_remote_child isolate (recipe_capacity recipe) bootstrap owner ordinal request_id
                      remote_owner (Some recipe) cause (s\<lparr>rt_world := w\<rparr>))))"

text \<open>\<open>ErasedRestartRecipe::create\<close>; a panic of a factory (\<open>None\<close>) is caught by the caller.\<close>

definition recipe_create ::
    "nat \<Rightarrow> ('h, 'm, 'd) restart_recipe \<Rightarrow> ('h, 'm, 'd) rt
     \<Rightarrow> ('h, 'm, 'd) spawn_outcome option \<times> ('h, 'm, 'd) rt" where
  "recipe_create parent recipe s =
     (case run_factories recipe (rt_world s) of
        (None, w) \<Rightarrow> (None, s\<lparr>rt_world := w\<rparr>)
      | (Some (isolate, bootstrap), w) \<Rightarrow>
          (case spawn_isolate parent isolate (recipe_capacity recipe) bootstrap (s\<lparr>rt_world := w\<rparr>) of
             None \<Rightarrow> (None, s\<lparr>rt_world := w\<rparr>)
           | Some (outcome, s) \<Rightarrow> (Some outcome, s)))"

text \<open>A continuation for the owner of a child; a full mailbox does not lose it.\<close>

definition continuation_result :: "'m try_send_error + continuation_delivery \<Rightarrow> send_rejected_reason + unit" where
  "continuation_result r = (case r of Inr _ \<Rightarrow> Inr () | Inl err \<Rightarrow> Inl (send_error_reason err))"

definition deliver_observed_continuation ::
    "reg_address \<Rightarrow> 'm \<Rightarrow> nat \<Rightarrow> ('h, 'm, 'd) rt \<Rightarrow> ('h, 'm, 'd) rt option" where
  "deliver_observed_continuation owner message cause s =
     do {
       let isolate = ra_isolate owner;
       let (attempted, s) = push_event isolate (Some cause)
             (SendDispatchAttempted (ra_shard owner) isolate (ra_generation owner)) s;
       (r, s) \<leftarrow>
         (if ra_system owner = rt_system s \<and> ra_shard owner = rt_shard s then
            (case entry_index owner s of
               Some index \<Rightarrow> do {
                 (r, s) \<leftarrow> enqueue_call_continuation index message None s;
                 Some (continuation_result r, s) }
             | None \<Rightarrow> Some (Inl RejClosed, s))
          else dispatch_local_send \<lparr>es_system = ra_system owner, es_shard = ra_shard owner,
                 es_isolate = isolate, es_generation = ra_generation owner, es_message = message\<rparr> s);
       Some (case r of
               Inr _ \<Rightarrow> log_event isolate (Some attempted)
                 (SendAccepted (ra_shard owner) isolate (ra_generation owner)) s
             | Inl reason \<Rightarrow> log_event isolate (Some attempted)
                 (SendRejected (ra_shard owner) isolate (ra_generation owner) reason) s) }"

section \<open>Restarting and supervision\<close>

text \<open>
  The messages collected at the start of a round are passed along; stopping an isolate before its
  turn takes its message out of the round.
\<close>

type_synonym 'm round = "'m delivered option list"

definition take_round :: "nat \<Rightarrow> 'm round \<Rightarrow> 'm delivered option \<times> 'm round" where
  "take_round i round = (if i < length round then (round ! i, round[i := None]) else (None, round))"

fun reservation_skip_reason :: "reservation_error \<Rightarrow> restart_skipped" where
  "reservation_skip_reason ReserveFull = SkParentMailboxFull"
| "reservation_skip_reason ReserveClosed = SkParentMailboxClosed"
| "reservation_skip_reason ReserveUnsupported = SkReservationsUnsupported"

definition stop_old_child ::
    "('h, 'm, 'd) rt_env \<Rightarrow> reg_address \<Rightarrow> nat \<Rightarrow> 'm round \<Rightarrow> ('h, 'm, 'd) rt
     \<Rightarrow> ('m round \<times> ('h, 'm, 'd) rt) option" where
  "stop_old_child E child cause round s =
     (case entry_index child s of
        None \<Rightarrow> Some (round, s)
      | Some index \<Rightarrow> do {
          entry \<leftarrow> get_entry index s;
          if en_stopped entry then Some (round, s)
          else do {
            let (precollected, round) = take_round index round;
            s \<leftarrow> stop_entry_with_precollected E index (ra_isolate child) cause precollected s;
            Some (round, s) } })"

definition replace_child ::
    "nat \<Rightarrow> ('h, 'm, 'd) restart_recipe \<Rightarrow> ('h, 'm, 'd) spawn_outcome \<Rightarrow> bool \<Rightarrow> ('h, 'm, 'd) rt
     \<Rightarrow> ('h, 'm, 'd) rt" where
  "replace_child i recipe outcome reserved s =
     (let record = rt_children s ! i
      in s\<lparr>rt_children := (rt_children s)
            [i := record\<lparr>cr_previous_child := Some (cr_child record), cr_child := so_child outcome,
                         cr_capacity := so_capacity outcome, cr_terminal := False,
                         cr_slot_reserved := reserved, cr_settled_generation := None,
                         cr_recipe := Some recipe\<rparr>]\<rparr>)"

definition restart_child_record ::
    "('h, 'm, 'd) rt_env \<Rightarrow> nat \<Rightarrow> nat \<Rightarrow> nat \<Rightarrow> 'm round \<Rightarrow> ('h, 'm, 'd) rt
     \<Rightarrow> ('m round \<times> ('h, 'm, 'd) rt) option" where
  "restart_child_record E parent i cause round s =
     (case entry_by_isolate parent s of
        None \<Rightarrow> Some (round, s)
      | Some parent_entry \<Rightarrow>
          let parent_generation = en_generation parent_entry;
              record = rt_children s ! i;
              ordinal = cr_ordinal record;
              old_child = cr_child record;
              (attempted, s) = push_event parent (Some cause)
                (RestartChildAttempted ordinal (ra_isolate old_child) (ra_generation old_child)) s;
              skipped = (\<lambda>reason. log_event parent (Some attempted)
                (RestartChildSkipped ordinal (ra_isolate old_child) (ra_generation old_child) reason))
          in case cr_recipe record of
               None \<Rightarrow> Some (round, skipped NotRestartable s)
             | Some recipe \<Rightarrow> do {
                 (round, s) \<leftarrow> stop_old_child E old_child attempted round s;
                 if i \<ge> length (rt_children s) then None
                 else
                   let reserve = (cr_terminal_continuation (rt_children s ! i) \<noteq> None) in
                   case (if reserve then try_reserve_terminal_slot parent s else (Inr (), s)) of
                     (Inl err, s) \<Rightarrow> Some (round, skipped (reservation_skip_reason err) s)
                   | (Inr _, s) \<Rightarrow>
                       (case recipe_create parent recipe s of
                          (None, s) \<Rightarrow>
                            Some (round, skipped FactoryPanicked
                              (if reserve then release_terminal_slot parent s else s))
                        | (Some outcome, s) \<Rightarrow> do {
                            let s = replace_child i recipe outcome reserve s;
                            let new_child = so_child outcome;
                            let (restarted, s) = push_event parent (Some attempted)
                                  (RestartChildCompleted ordinal (ra_isolate old_child)
                                    (ra_generation old_child) (ra_isolate new_child)
                                    (ra_generation new_child)) s;
                            s \<leftarrow> enqueue_bootstrap new_child (so_bootstrap outcome) restarted s;
                            s \<leftarrow> (case cr_restart_continuation (rt_children s ! i) of
                                    None \<Rightarrow> Some s
                                  | Some continuation \<Rightarrow>
                                      deliver_observed_continuation
                                        (self_address parent parent_generation s)
                                        (continuation new_child) restarted s);
                            Some (round, notify (NoteChildRestarted (rt_shard s) parent parent_generation
                                                   ordinal new_child) s) }) })"

fun restart_loop ::
    "('h, 'm, 'd) rt_env \<Rightarrow> (('h, 'm, 'd) child_record \<Rightarrow> bool) \<Rightarrow> nat \<Rightarrow> nat \<Rightarrow> nat list \<Rightarrow> 'm round
     \<Rightarrow> ('h, 'm, 'd) rt \<Rightarrow> ('m round \<times> ('h, 'm, 'd) rt) option" where
  "restart_loop E P parent cause [] round s = Some (round, s)"
| "restart_loop E P parent cause (i # is) round s =
     (if i \<ge> length (rt_children s) then None
      else if P (rt_children s ! i) then do {
        (round, s) \<leftarrow> restart_child_record E parent i cause round s;
        restart_loop E P parent cause is round s }
      else restart_loop E P parent cause is round s)"

definition supervise_failed_child ::
    "('h, 'm, 'd) rt_env \<Rightarrow> reg_address \<Rightarrow> nat \<Rightarrow> 'm round \<Rightarrow> ('h, 'm, 'd) rt
     \<Rightarrow> ('m round \<times> ('h, 'm, 'd) rt) option" where
  "supervise_failed_child E failed cause round s =
     (case child_record_index_by_child failed s of
        None \<Rightarrow> Some (round, s)
      | Some i \<Rightarrow>
          let parent = cr_parent (rt_children s ! i);
              ordinal = cr_ordinal (rt_children s ! i);
              rejected = (\<lambda>reason. log_event parent (Some cause)
                (SupervisorRestartRejected (ra_isolate failed) ordinal reason))
          in case supervisor_index parent s of
               None \<Rightarrow> Some (round, s)
             | Some j \<Rightarrow>
                 if (case entry_by_isolate parent s of None \<Rightarrow> False | Some entry \<Rightarrow> en_stopped entry)
                 then Some (round, rejected SupervisorStopped s)
                 else
                   let supervisor = rt_supervisors s ! j;
                       policy = sc_policy (sr_config supervisor);
                       (now, s) = clock_now E s
                   in case record_restart_at now (sr_budget supervisor) of
                        Inl error \<Rightarrow>
                          Some (round, rejected (BudgetExceeded (be_attempted_restart error) (be_max_restarts error)) s)
                      | Inr budget \<Rightarrow>
                          let s = s\<lparr>rt_supervisors :=
                                (rt_supervisors s)[j := supervisor\<lparr>sr_budget := budget\<rparr>]\<rparr>;
                              (triggered, s) = push_event parent (Some cause)
                                (SupervisorRestartTriggered policy (ra_isolate failed) ordinal) s
                          in restart_loop E
                               (\<lambda>r. cr_parent r = parent \<and> policy_restarts policy (from_ordinals (cr_ordinal r) ordinal))
                               parent triggered [0..<length (rt_children s)] round s)"

end
