(* ===== verification/Rt_Step.thy ===== *)
theory Rt_Step
  imports Rt_Lifecycle
begin

text \<open>
  The turn loop of the runtime (\<open>dispatch.rs\<close>): completions of the I/O driver, dispatch of calls,
  execution of effects, and one round over all isolates (\<open>step\<close>).
\<close>

section \<open>Driver completions\<close>

definition cancel_in_flight_call_for_resource_close ::
    "nat \<Rightarrow> ('h, 'm, 'd) rt \<Rightarrow> ('h, 'm, 'd) rt" where
  "cancel_in_flight_call_for_resource_close call_id s =
     (case remove_driver call_id (rt_calls s) of
        None \<Rightarrow> s
      | Some (call, t) \<Rightarrow>
          let head = dc_head call
          in log_event (ra_isolate (dh_requester head)) (Some (dh_cause head))
               (CallCompletionRejected call_id (dh_kind head) ResourceClosed) (s\<lparr>rt_calls := t\<rparr>))"

definition drop_cancelled_completion :: "nat \<Rightarrow> ('h, 'm, 'd) rt \<Rightarrow> ('h, 'm, 'd) rt" where
  "drop_cancelled_completion cancelled s =
     cancel_in_flight_call_for_resource_close cancelled
       (s\<lparr>rt_completions := filter (\<lambda>(i, _). i \<noteq> cancelled) (rt_completions s)\<rparr>)"

definition take_cancelled_by_close ::
    "('h, 'm, 'd) rt_env \<Rightarrow> ('h, 'm, 'd) rt \<Rightarrow> ('h, 'm, 'd) rt" where
  "take_cancelled_by_close E s =
     (case env_take_cancelled E (rt_world s) of
        (ids, w) \<Rightarrow> fold drop_cancelled_completion ids (s\<lparr>rt_world := w\<rparr>))"

definition push_persistence_completion_events ::
    "driver_call_head \<Rightarrow> call_error option \<Rightarrow> ('h, 'm, 'd) rt \<Rightarrow> ('h, 'm, 'd) rt" where
  "push_persistence_completion_events head failure s =
     (let note = (\<lambda>kind. log_event (ra_isolate (dh_requester head)) (Some (dh_cause head)) kind s) in
      case dh_persistence head of
        None \<Rightarrow> s
      | Some SnapshotCommit \<Rightarrow>
          (case failure of None \<Rightarrow> note SnapshotCommitted | Some reason \<Rightarrow> note (SnapshotCommitFailed reason))
      | Some (JournalAppend i) \<Rightarrow>
          (case failure of None \<Rightarrow> note (JournalAppended i) | Some reason \<Rightarrow> note (JournalAppendFailed i reason))
      | Some Recovery \<Rightarrow>
          (case failure of None \<Rightarrow> note RecoveryFinished | Some reason \<Rightarrow> note (RecoveryFailed reason)))"

definition deliver_backend_completion_action ::
    "('h, 'm, 'd) rt_env \<Rightarrow> nat \<Rightarrow> driver_call_head \<Rightarrow> nat \<Rightarrow> 'm call_completion \<Rightarrow> call_error option
     \<Rightarrow> ('h, 'm, 'd) rt \<Rightarrow> ('h, 'm, 'd) rt option" where
  "deliver_backend_completion_action E index head call_id completion failure s =
     (let isolate = ra_isolate (dh_requester head);
          note = (\<lambda>kind. log_event isolate (Some (dh_cause head)) kind)
      in case completion of
           CompMessage message \<Rightarrow> do {
             (r, s) \<leftarrow> enqueue_call_continuation index message (dh_context head) s;
             Some (case r of
                     Inr delivery \<Rightarrow>
                       let s = (if delivery = ToOverflow
                                then note (CallContinuationOverflowed call_id (dh_kind head)) s else s)
                       in if failure = None then note (CallCompleted call_id (dh_kind head)) s else s
                   | Inl _ \<Rightarrow> note (CallCompletionRejected call_id (dh_kind head) RequesterClosed) s) }
         | CompNoop \<Rightarrow>
             Some (note (CallCompletionAction call_id (dh_kind head) ActNoop)
                    (note (CallCompleted call_id (dh_kind head)) s))
         | CompStopRequester \<Rightarrow>
             (case push_event isolate (Some (dh_cause head))
                     (CallCompletionAction call_id (dh_kind head) ActStopRequester)
                     (note (CallCompleted call_id (dh_kind head)) s) of
                (action, s) \<Rightarrow> stop_entry E index isolate action s))"

definition notify_bound_address ::
    "('h, 'm, 'd) rt_env \<Rightarrow> call_kind \<Rightarrow> 'm \<Rightarrow> call_error option \<Rightarrow> ('h, 'm, 'd) rt \<Rightarrow> ('h, 'm, 'd) rt" where
  "notify_bound_address E kind result failure s =
     (let bound = (\<lambda>address. case address of
                     Some a \<Rightarrow> Some (Inr a)
                   | None \<Rightarrow> (case failure of Some reason \<Rightarrow> Some (Inl reason) | None \<Rightarrow> None))
      in if kind = KindTcpBind then
           (case bound (env_tcp_bound E result) of None \<Rightarrow> s | Some b \<Rightarrow> notify (NoteTcpBound b) s)
         else if kind = KindTlsBind then
           (case bound (env_tls_bound E result) of None \<Rightarrow> s | Some b \<Rightarrow> notify (NoteTlsBound b) s)
         else s)"

definition deliver_completion ::
    "('h, 'm, 'd) rt_env \<Rightarrow> nat \<Rightarrow> 'm \<Rightarrow> ('h, 'm, 'd) rt \<Rightarrow> ('h, 'm, 'd) rt option" where
  "deliver_completion E call_id result s =
     (case remove_driver call_id (rt_calls s) of
        None \<Rightarrow> Some (log_event 0 None (DriverCompletionQuarantined call_id) s)
      | Some (call, t) \<Rightarrow>
          let head = dc_head call;
              requester = dh_requester head;
              note = (\<lambda>kind. log_event (ra_isolate requester) (Some (dh_cause head)) kind);
              refused = (\<lambda>reason. note (CallCompletionRejected call_id (dh_kind head) reason));
              failure = env_output_failure E result;
              s = s\<lparr>rt_calls := t\<rparr>;
              s = (case failure of None \<Rightarrow> s | Some reason \<Rightarrow> note (CallFailed call_id (dh_kind head) reason) s);
              s = push_persistence_completion_events head failure s;
              s = notify_bound_address E (dh_kind head) result failure s;
              s = notify (case failure of
                     None \<Rightarrow> NoteOperationCompleted (ra_isolate requester) (ra_generation requester) (dh_kind head) call_id
                   | Some e \<Rightarrow> NoteOperationFailed (ra_isolate requester) (ra_generation requester) (dh_kind head) call_id e) s;
              completion = dc_translator call result
          in if failure \<noteq> None \<and> (case completion of CompMessage _ \<Rightarrow> False | _ \<Rightarrow> True)
             then Some (refused TerminalActionOnFailure s)
             else case entry_index requester s of
                    None \<Rightarrow> Some (refused RequesterClosed s)
                  | Some index \<Rightarrow> do {
                      entry \<leftarrow> get_entry index s;
                      if en_stopped entry then Some (refused RequesterClosed s)
                      else deliver_backend_completion_action E index head call_id completion failure s })"

fun deliver_pending ::
    "('h, 'm, 'd) rt_env \<Rightarrow> nat \<Rightarrow> ('h, 'm, 'd) rt \<Rightarrow> ('h, 'm, 'd) rt option" where
  "deliver_pending E 0 s = Some s"
| "deliver_pending E (Suc budget) s =
     (case rt_completions s of
        [] \<Rightarrow> Some s
      | (call_id, result) # rest \<Rightarrow> do {
          s \<leftarrow> deliver_completion E call_id result (s\<lparr>rt_completions := rest\<rparr>);
          deliver_pending E budget s })"

definition advance_driver ::
    "('h, 'm, 'd) rt_env \<Rightarrow> instant \<Rightarrow> ('h, 'm, 'd) rt \<Rightarrow> ('h, 'm, 'd) rt option" where
  "advance_driver E now s =
     (case env_advance E now (rt_world s) of
        (completed, w) \<Rightarrow> do {
          s \<leftarrow> deliver_pending E (max (rt_drain_budget s) 1)
                 (s\<lparr>rt_world := w, rt_completions := rt_completions s @ completed\<rparr>);
          Some (take_cancelled_by_close E s) })"

section \<open>Dispatching calls\<close>

text \<open>\<open>CallDispatchContext\<close>.\<close>

record dispatch_context =
  dx_call_id :: nat
  dx_requester :: reg_address
  dx_cause :: nat
  dx_continuation :: "call_context option"

definition dispatch_driver_call ::
    "('h, 'm, 'd) rt_env \<Rightarrow> dispatch_context \<Rightarrow> call_kind \<Rightarrow> 'm \<Rightarrow> ('m \<Rightarrow> 'm call_completion)
     \<Rightarrow> ('h, 'm, 'd) rt \<Rightarrow> ('h, 'm, 'd) rt option" where
  "dispatch_driver_call E context kind request translator s =
     do {
       let persistence = env_request_persistence E request;
       let s = (if persistence = Some Recovery
                then log_event (ra_isolate (dx_requester context)) (Some (dx_cause context)) RecoveryStarted s
                else s);
       t \<leftarrow> insert_driver \<lparr>dc_head = \<lparr>dh_call_id = dx_call_id context, dh_kind = kind,
                dh_requester = dx_requester context, dh_cause = dx_cause context,
                dh_persistence = persistence, dh_context = dx_continuation context\<rparr>,
              dc_translator = translator\<rparr> (rt_calls s);
       let (now, s) = clock_now E (s\<lparr>rt_calls := t\<rparr>);
       let (immediate, w) = env_submit E (dx_call_id context) request now (rt_world s);
       s \<leftarrow> (case immediate of
               None \<Rightarrow> Some (s\<lparr>rt_world := w\<rparr>)
             | Some (call_id, result) \<Rightarrow> deliver_completion E call_id result (s\<lparr>rt_world := w\<rparr>));
       Some (take_cancelled_by_close E s) }"

definition deliver_observed_send_outcome ::
    "dispatch_context \<Rightarrow> send_outcome \<Rightarrow> (send_outcome \<Rightarrow> 'm) \<Rightarrow> ('h, 'm, 'd) rt \<Rightarrow> ('h, 'm, 'd) rt option" where
  "deliver_observed_send_outcome context outcome translator s =
     (let requester = dx_requester context;
          note = (\<lambda>kind. log_event (ra_isolate requester) (Some (dx_cause context)) kind);
          refused = (\<lambda>reason. note (CallCompletionRejected (dx_call_id context) KindObservedSend reason))
      in case entry_index requester s of
           None \<Rightarrow> Some (refused RequesterClosed s)
         | Some index \<Rightarrow> do {
             entry \<leftarrow> get_entry index s;
             if en_stopped entry then Some (refused RequesterClosed s)
             else do {
               (r, s) \<leftarrow> enqueue_entry_message index (translator outcome) (dx_continuation context) s;
               Some (case r of
                       Inr _ \<Rightarrow> note (CallCompleted (dx_call_id context) KindObservedSend) s
                     | Inl (SendFull _) \<Rightarrow> refused MailboxFull s
                     | Inl (SendClosed _) \<Rightarrow> refused RequesterClosed s) } })"

definition attempt_send ::
    "('h, 'm, 'd) rt_env \<Rightarrow> nat \<Rightarrow> 'm erased_send \<Rightarrow> call_context option \<Rightarrow> nat \<Rightarrow> ('h, 'm, 'd) rt
     \<Rightarrow> ((send_rejected_reason + unit) \<times> ('h, 'm, 'd) rt) option" where
  "attempt_send E isolate send context attempted s =
     do {
       (r, s) \<leftarrow> (if es_shard send = rt_shard s then dispatch_local_send_with_context send context s
                   else route_remote E (EnvSend send context attempted) s);
       Some (r, case r of
                  Inr _ \<Rightarrow> log_event isolate (Some attempted)
                    (SendAccepted (es_shard send) (es_isolate send) (es_generation send)) s
                | Inl reason \<Rightarrow> log_event isolate (Some attempted)
                    (SendRejected (es_shard send) (es_isolate send) (es_generation send) reason) s) }"

definition dispatch_observed_send ::
    "('h, 'm, 'd) rt_env \<Rightarrow> dispatch_context \<Rightarrow> 'm erased_send \<Rightarrow> (send_outcome \<Rightarrow> 'm)
     \<Rightarrow> ('h, 'm, 'd) rt \<Rightarrow> ('h, 'm, 'd) rt option" where
  "dispatch_observed_send E context send translator s =
     (if es_system send \<noteq> rt_system s then
        deliver_observed_send_outcome context (SoForeignSystem (rt_system s) (es_system send)) translator s
      else do {
        let isolate = ra_isolate (dx_requester context);
        let (attempted, s) = push_event isolate (Some (dx_cause context))
              (SendDispatchAttempted (es_shard send) (es_isolate send) (es_generation send)) s;
        (r, s) \<leftarrow> attempt_send E isolate send None attempted s;
        deliver_observed_send_outcome context
          (case r of Inr _ \<Rightarrow> SoAccepted | Inl reason \<Rightarrow> send_outcome_from_rejected reason) translator s })"

fun rejected_call_outcome :: "send_rejected_reason \<Rightarrow> 'm erased_outcome" where
  "rejected_call_outcome (RejForeignSystem e a) = OutRejected (CrForeignSystem e a)"
| "rejected_call_outcome RejFull = OutFull"
| "rejected_call_outcome RejClosed = OutClosed"

definition dispatch_isolate_call ::
    "('h, 'm, 'd) rt_env \<Rightarrow> dispatch_context \<Rightarrow> 'm erased_send \<Rightarrow> duration \<Rightarrow> ('m erased_outcome \<Rightarrow> 'm) \<Rightarrow> nat
     \<Rightarrow> nat option \<Rightarrow> ('h, 'm, 'd) rt \<Rightarrow> ('h, 'm, 'd) rt option" where
  "dispatch_isolate_call E context send timeout translator expected_type handle s =
     (let call_id = dx_call_id context;
          requester = dx_requester context;
          fail_now = (\<lambda>outcome s. do {
            s \<leftarrow> stamp_handle handle call_id s;
            deliver_isolate_call_outcome call_id requester (dx_cause context) outcome translator
              (dx_continuation context) (set_handle_state handle HandleSettled s) })
      in if es_system send \<noteq> rt_system s then
           fail_now (OutRejected (CrForeignSystem (rt_system s) (es_system send))) s
         else do {
           let (attempted, s) = push_event (ra_isolate requester) (Some (dx_cause context))
                 (SendDispatchAttempted (es_shard send) (es_isolate send) (es_generation send)) s;
           let call_context = (if es_shard send = rt_shard s then LocalContext call_id
                 else RemoteContext call_id requester (dx_cause context) expected_type);
           (r, s) \<leftarrow> attempt_send E (ra_isolate requester) send (Some call_context) attempted s;
           case r of
             Inl reason \<Rightarrow> fail_now (rejected_call_outcome reason) s
           | Inr _ \<Rightarrow> do {
               let order = rt_next_ordinal s;
               s \<leftarrow> stamp_handle handle call_id (s\<lparr>rt_next_ordinal := order + 1\<rparr>);
               let (now, s) = clock_now E s;
               t \<leftarrow> insert_isolate \<lparr>pi_call_id = call_id, pi_requester = requester,
                      pi_cause = dx_cause context, pi_deadline = dl_deadline (from_instant now timeout),
                      pi_order = order, pi_context = dx_continuation context,
                      pi_translator = translator, pi_type = expected_type, pi_handle = handle\<rparr> (rt_calls s);
               Some (s\<lparr>rt_calls := t\<rparr>) } })"

text \<open>
  Cancelling a call: a handle stamped with a call but not with a shard would be a panic (\<open>None\<close>).
\<close>

definition cancel_by_handle ::
    "nat \<Rightarrow> nat \<Rightarrow> ('h, 'm, 'd) rt \<Rightarrow> (cancel_outcome \<times> ('h, 'm, 'd) rt) option" where
  "cancel_by_handle isolate handle s =
     (case hs_state (rt_handles s handle) of
        HandleSettled \<Rightarrow> Some (AlreadyCompleted, s)
      | HandleCancelled \<Rightarrow> Some (AlreadyCancelled, s)
      | HandlePending \<Rightarrow>
          (case hs_call_id (rt_handles s handle) of
             None \<Rightarrow> Some (NotAdmitted, s)
           | Some call_id \<Rightarrow> do {
               shard \<leftarrow> hs_shard_id (rt_handles s handle);
               if shard \<noteq> rt_shard s then Some (WrongShard, s)
               else case remove_isolate call_id (rt_calls s) of
                 None \<Rightarrow> Some (AlreadyCompleted, s)
               | Some (entry, t) \<Rightarrow>
                   Some (Cancelled,
                     log_event isolate (Some (pi_cause entry)) (CallCancelled call_id CallerCancelled)
                       (close_deferred_slot_for_call_with_reason call_id DrCallerCancelled
                         (record_cancelled_call call_id CallerCancelled
                           (set_handle_state (Some handle) HandleCancelled (s\<lparr>rt_calls := t\<rparr>))))) }))"

definition dispatch_cancel_call ::
    "dispatch_context \<Rightarrow> nat \<Rightarrow> (cancel_outcome \<Rightarrow> 'm) \<Rightarrow> ('h, 'm, 'd) rt \<Rightarrow> ('h, 'm, 'd) rt option" where
  "dispatch_cancel_call context handle translator s =
     do {
       let requester = dx_requester context;
       let note = (\<lambda>kind. log_event (ra_isolate requester) (Some (dx_cause context)) kind);
       let refused = note (CallCompletionRejected (dx_call_id context) KindCancelCall RequesterClosed);
       (outcome, s) \<leftarrow> cancel_by_handle (ra_isolate requester) handle s;
       case entry_index requester s of
         None \<Rightarrow> Some (refused s)
       | Some index \<Rightarrow> do {
           entry \<leftarrow> get_entry index s;
           if en_stopped entry then Some (refused s)
           else do {
             (r, s) \<leftarrow> enqueue_call_continuation index (translator outcome) (dx_continuation context) s;
             case r of
               Inr delivery \<Rightarrow>
                 let s = (if delivery = ToOverflow
                          then note (CallContinuationOverflowed (dx_call_id context) KindCancelCall) s else s)
                 in Some (note (CallCompleted (dx_call_id context) KindCancelCall) s)
             | Inl (SendClosed _) \<Rightarrow> Some (refused s)
             | Inl (SendFull _) \<Rightarrow> None } } }"

definition erased_call_kind :: "('h, 'm, 'd) rt_env \<Rightarrow> 'm erased_call \<Rightarrow> call_kind" where
  "erased_call_kind E call =
     (case call of
        Backend request _ \<Rightarrow> env_request_kind E request
      | ObservedSend _ _ \<Rightarrow> KindObservedSend
      | IsolateCall _ _ _ _ _ \<Rightarrow> KindIsolateCall
      | CancelCall _ _ \<Rightarrow> KindCancelCall)"

definition dispatch_call ::
    "('h, 'm, 'd) rt_env \<Rightarrow> 'm erased_call \<Rightarrow> reg_address \<Rightarrow> nat \<Rightarrow> call_context option
     \<Rightarrow> ('h, 'm, 'd) rt \<Rightarrow> ('h, 'm, 'd) rt option" where
  "dispatch_call E call requester cause continuation s =
     (let call_id = rt_next_call s;
          kind = erased_call_kind E call;
          (attempted, s) = push_event (ra_isolate requester) (Some cause) (CallDispatchAttempted call_id kind)
            (s\<lparr>rt_next_call := call_id + 1\<rparr>);
          context = \<lparr>dx_call_id = call_id, dx_requester = requester, dx_cause = attempted,
                     dx_continuation = continuation\<rparr>
      in case call of
           Backend request translator \<Rightarrow> dispatch_driver_call E context kind request translator s
         | ObservedSend send translator \<Rightarrow> dispatch_observed_send E context send translator s
         | IsolateCall send timeout translator expected_type handle \<Rightarrow>
             dispatch_isolate_call E context send timeout translator expected_type handle s
         | CancelCall handle translator \<Rightarrow> dispatch_cancel_call context handle translator s)"

section \<open>Children on other shards\<close>

definition owner_address :: "nat \<Rightarrow> ('h, 'm, 'd) rt \<Rightarrow> reg_address" where
  "owner_address parent s =
     self_address parent (case entry_by_isolate parent s of Some entry \<Rightarrow> en_generation entry | None \<Rightarrow> 0) s"

definition request_remote_child_stop ::
    "('h, 'm, 'd) rt_env \<Rightarrow> nat \<Rightarrow> nat \<Rightarrow> nat \<times> reg_address \<Rightarrow> ('h, 'm, 'd) rt \<Rightarrow> ('h, 'm, 'd) rt option" where
  "request_remote_child_stop E parent cause oc s =
     (case oc of (ordinal, child) \<Rightarrow> do {
        let owner = owner_address parent s;
        let (requested, s) = push_event parent (Some cause)
              (RemoteChildStopRequested (ra_shard child) ordinal (ra_isolate child) (ra_generation child)) s;
        (r, s) \<leftarrow> route_remote E (EnvChildStop owner child ordinal requested) s;
        Some (case r of
                Inr _ \<Rightarrow> s
              | Inl reason \<Rightarrow> log_event parent (Some requested)
                  (RemoteChildControlRejected (ra_shard child) reason) s) })"

fun cancel_remote_spawns ::
    "('h, 'm, 'd) rt_env \<Rightarrow> nat \<Rightarrow> reg_address \<Rightarrow> nat \<Rightarrow> (nat \<times> nat) list \<Rightarrow> ('h, 'm, 'd) rt
     \<Rightarrow> (nat list \<times> ('h, 'm, 'd) rt) option" where
  "cancel_remote_spawns E parent owner cause [] s = Some ([], s)"
| "cancel_remote_spawns E parent owner cause ((request_id, target) # rest) s =
     do {
       (r, s) \<leftarrow> route_remote E (EnvSpawnCancel request_id target owner cause) s;
       case r of
         Inr _ \<Rightarrow> do {
           (ids, s) \<leftarrow> cancel_remote_spawns E parent owner cause rest s;
           Some (request_id # ids, s) }
       | Inl reason \<Rightarrow> cancel_remote_spawns E parent owner cause rest
           (log_event parent (Some cause) (RemoteChildControlRejected target reason) s) }"

definition cleanup_remote_children_for_owner ::
    "('h, 'm, 'd) rt_env \<Rightarrow> nat \<Rightarrow> nat \<Rightarrow> ('h, 'm, 'd) rt \<Rightarrow> ('h, 'm, 'd) rt option" where
  "cleanup_remote_children_for_owner E parent cause s =
     do {
       let owner = owner_address parent s;
       let pending = map (\<lambda>p. (ps_request_id p, ps_target_shard p))
             (filter (\<lambda>p. ra_isolate (ps_requester p) = parent) (rt_pending_spawns s));
       (cancelled, s) \<leftarrow> cancel_remote_spawns E parent owner cause pending s;
       let s = s\<lparr>rt_pending_spawns := filter (\<lambda>p. ra_isolate (ps_requester p) \<noteq> parent
              \<or> ps_request_id p \<notin> set cancelled) (rt_pending_spawns s)\<rparr>;
       let children = map (\<lambda>r. (cr_ordinal r, cr_child r))
             (filter (\<lambda>r. cr_parent r = parent \<and> cr_remote_owner r = None
                \<and> ra_shard (cr_child r) \<noteq> rt_shard s) (rt_children s));
       foldM (request_remote_child_stop E parent cause) children s }"

definition request_remote_child_restart ::
    "('h, 'm, 'd) rt_env \<Rightarrow> nat \<Rightarrow> reg_address \<Rightarrow> nat \<Rightarrow> nat \<Rightarrow> ('h, 'm, 'd) rt \<Rightarrow> ('h, 'm, 'd) rt option" where
  "request_remote_child_restart E parent child ordinal cause s =
     (case entry_by_isolate parent s of
        None \<Rightarrow> Some s
      | Some entry \<Rightarrow> do {
          let owner = self_address parent (en_generation entry) s;
          let (attempted, s) = push_event parent (Some cause)
                (RestartChildAttempted ordinal (ra_isolate child) (ra_generation child)) s;
          (r, s) \<leftarrow> route_remote E (EnvChildRestart owner child ordinal attempted) s;
          Some (case r of
                  Inr _ \<Rightarrow> s
                | Inl reason \<Rightarrow> log_event parent (Some attempted)
                    (RemoteChildControlRejected (ra_shard child) reason) s) })"

section \<open>Restarting and stopping all children\<close>

fun restart_children_loop ::
    "('h, 'm, 'd) rt_env \<Rightarrow> nat \<Rightarrow> nat \<Rightarrow> nat list \<Rightarrow> 'm round \<Rightarrow> ('h, 'm, 'd) rt
     \<Rightarrow> ('m round \<times> ('h, 'm, 'd) rt) option" where
  "restart_children_loop E parent cause [] round s = Some (round, s)"
| "restart_children_loop E parent cause (i # is) round s =
     (if i \<ge> length (rt_children s) then None
      else
        let r = rt_children s ! i; child = cr_child r in
        if cr_parent r = parent \<and> cr_remote_owner r = None then
          if ra_shard child \<noteq> rt_shard s then do {
            s \<leftarrow> (if cr_remote_restartable r
                  then request_remote_child_restart E parent child (cr_ordinal r) cause s
                  else Some (log_event parent (Some cause)
                    (RestartChildSkipped (cr_ordinal r) (ra_isolate child) (ra_generation child)
                      RemoteNotRestartable) s));
            restart_children_loop E parent cause is round s }
          else do {
            (round, s) \<leftarrow> restart_child_record E parent i cause round s;
            restart_children_loop E parent cause is round s }
        else restart_children_loop E parent cause is round s)"

definition restart_children ::
    "('h, 'm, 'd) rt_env \<Rightarrow> nat \<Rightarrow> nat \<Rightarrow> 'm round \<Rightarrow> ('h, 'm, 'd) rt \<Rightarrow> ('m round \<times> ('h, 'm, 'd) rt) option" where
  "restart_children E parent cause round s =
     restart_children_loop E parent cause [0..<length (rt_children s)] round s"

fun stop_children_loop ::
    "('h, 'm, 'd) rt_env \<Rightarrow> nat \<Rightarrow> nat \<Rightarrow> (nat \<times> reg_address) list \<Rightarrow> 'm round \<Rightarrow> ('h, 'm, 'd) rt
     \<Rightarrow> ('m round \<times> ('h, 'm, 'd) rt) option" where
  "stop_children_loop E parent cause [] round s = Some (round, s)"
| "stop_children_loop E parent cause ((ordinal, child) # rest) round s =
     (if ra_shard child \<noteq> rt_shard s then do {
        s \<leftarrow> request_remote_child_stop E parent cause (ordinal, child) s;
        stop_children_loop E parent cause rest round s }
      else case entry_index child s of
        None \<Rightarrow> stop_children_loop E parent cause rest round s
      | Some index \<Rightarrow> do {
          entry \<leftarrow> get_entry index s;
          if en_stopped entry then stop_children_loop E parent cause rest round s
          else do {
            let (stopped, s) = push_event parent (Some cause)
                  (ChildStopped ordinal (ra_isolate child) (ra_generation child)) s;
            let (precollected, round) = take_round index round;
            s \<leftarrow> stop_entry_with_precollected E index (ra_isolate child) stopped precollected s;
            stop_children_loop E parent cause rest round s } })"

definition stop_children ::
    "('h, 'm, 'd) rt_env \<Rightarrow> nat \<Rightarrow> nat \<Rightarrow> 'm round \<Rightarrow> ('h, 'm, 'd) rt \<Rightarrow> ('m round \<times> ('h, 'm, 'd) rt) option" where
  "stop_children E parent cause round s =
     stop_children_loop E parent cause
       (map (\<lambda>r. (cr_ordinal r, cr_child r))
         (filter (\<lambda>r. cr_parent r = parent \<and> cr_remote_owner r = None) (rt_children s))) round s"

section \<open>Effects\<close>

definition exec_send ::
    "('h, 'm, 'd) rt_env \<Rightarrow> nat \<Rightarrow> nat \<Rightarrow> 'm erased_send \<Rightarrow> ('h, 'm, 'd) rt \<Rightarrow> ('h, 'm, 'd) rt option" where
  "exec_send E isolate cause send s =
     (let (attempted, s) = push_event isolate (Some cause)
            (SendDispatchAttempted (es_shard send) (es_isolate send) (es_generation send)) s
      in if es_system send \<noteq> rt_system s then
           Some (log_event isolate (Some attempted)
             (SendRejected (es_shard send) (es_isolate send) (es_generation send)
               (RejForeignSystem (rt_system s) (es_system send))) s)
         else map_option snd (attempt_send E isolate send None attempted s))"

text \<open>Recording a spawned child, its \<open>Spawned\<close> event and its first message.\<close>

definition admit_child ::
    "nat \<Rightarrow> nat \<Rightarrow> ('h, 'm, 'd) spawn_outcome \<Rightarrow> ('h, 'm, 'd) rt \<Rightarrow> (nat \<times> ('h, 'm, 'd) rt) option" where
  "admit_child isolate cause outcome s =
     (let child = so_child outcome;
          (spawned, s) = push_event isolate (Some cause) (Spawned (ra_isolate child)) (record_child isolate outcome s)
      in do { s \<leftarrow> enqueue_bootstrap child (so_bootstrap outcome) spawned s; Some (spawned, s) })"

definition exec_spawn ::
    "nat \<Rightarrow> nat \<Rightarrow> ('h, 'm, 'd) erased_spawn \<Rightarrow> ('h, 'm, 'd) rt \<Rightarrow> ('h, 'm, 'd) rt option" where
  "exec_spawn isolate cause spawn s =
     do {
       (outcome, s) \<leftarrow> spawn_child isolate spawn s;
       (_, s) \<leftarrow> admit_child isolate cause outcome s;
       Some s }"

definition exec_spawn_observed ::
    "nat \<Rightarrow> nat \<Rightarrow> nat \<Rightarrow> ('h, 'm, 'd) erased_spawn \<Rightarrow> (spawn_observed_error + reg_address \<Rightarrow> 'm)
     \<Rightarrow> (reg_address \<Rightarrow> 'm) option \<Rightarrow> ('m \<Rightarrow> 'm option option) option \<Rightarrow> ('h, 'm, 'd) rt
     \<Rightarrow> ('h, 'm, 'd) rt option" where
  "exec_spawn_observed index isolate cause spawn continuation restart_continuation terminal s =
     do {
       (outcome, message, s) \<leftarrow> spawn_observed isolate spawn continuation restart_continuation terminal s;
       (continuation_cause, s) \<leftarrow>
         (case outcome of None \<Rightarrow> Some (cause, s) | Some outcome \<Rightarrow> admit_child isolate cause outcome s);
       entry \<leftarrow> get_entry index s;
       let generation = en_generation entry;
       let (attempted, s) = push_event isolate (Some continuation_cause)
             (SendDispatchAttempted (rt_shard s) isolate generation) s;
       (r, s) \<leftarrow> enqueue_call_continuation index message None s;
       Some (case continuation_result r of
               Inr _ \<Rightarrow> log_event isolate (Some attempted) (SendAccepted (rt_shard s) isolate generation) s
             | Inl reason \<Rightarrow> log_event isolate (Some attempted)
                 (SendRejected (rt_shard s) isolate generation reason) s) }"

text \<open>
  \<open>SpawnObservedOn\<close>: on the own shard an ordinary owned spawn; otherwise a request to the other shard,
  remembered until its reply, and failed at once when the lane refuses it.
\<close>

definition exec_spawn_observed_on ::
    "('h, 'm, 'd) rt_env \<Rightarrow> nat \<Rightarrow> nat \<Rightarrow> nat \<Rightarrow> nat \<Rightarrow> ('h, 'm, 'd) erased_spawn \<Rightarrow> nat \<Rightarrow> bool
     \<Rightarrow> (spawn_observed_error + reg_address \<Rightarrow> 'm) \<Rightarrow> ('h, 'm, 'd) rt \<Rightarrow> ('h, 'm, 'd) rt option" where
  "exec_spawn_observed_on E index isolate cause target spawn capacity restartable continuation s =
     do {
       entry \<leftarrow> get_entry index s;
       let owner = self_address isolate (en_generation entry) s;
       if target = rt_shard s then do {
         (outcome, s) \<leftarrow> spawn_remote spawn owner (next_child_ordinal isolate s) None cause s;
         deliver_observed_continuation owner (continuation outcome) cause s }
       else do {
         let request_id = rt_next_call s;
         let s = s\<lparr>rt_next_call := request_id + 1\<rparr>;
         let ordinal = next_child_ordinal isolate s;
         let s = s\<lparr>rt_pending_spawns := rt_pending_spawns s @
               [\<lparr>ps_request_id = request_id, ps_requester = owner, ps_target_shard = target,
                 ps_ordinal = ordinal, ps_capacity = capacity, ps_restartable = restartable,
                 ps_continuation = continuation\<rparr>]\<rparr>;
         (r, s) \<leftarrow> route_remote E (EnvSpawnRequest request_id target owner ordinal spawn cause) s;
         case r of
           Inr _ \<Rightarrow> Some s
         | Inl _ \<Rightarrow>
             (case position (\<lambda>p. ps_request_id p = request_id) (rt_pending_spawns s) of
                None \<Rightarrow> Some s
              | Some i \<Rightarrow>
                  let pending = rt_pending_spawns s ! i;
                      s = s\<lparr>rt_pending_spawns := take i (rt_pending_spawns s) @ drop (i + 1) (rt_pending_spawns s)\<rparr>
                  in deliver_observed_continuation owner
                       (ps_continuation pending (Inl SoeDestinationUnavailable)) cause s) } }"

definition exec_reply ::
    "('h, 'm, 'd) rt_env \<Rightarrow> nat \<Rightarrow> nat \<Rightarrow> 'm \<Rightarrow> call_context option \<Rightarrow> ('h, 'm, 'd) rt
     \<Rightarrow> ('h, 'm, 'd) rt option" where
  "exec_reply E isolate cause reply context s =
     (case context of
        None \<Rightarrow> Some (log_event isolate (Some cause) (EffectObserved KReply) s)
      | Some (LocalContext call_id) \<Rightarrow> settle_local_reply isolate cause call_id (OutReplied reply) s
      | Some (RemoteContext call_id requester request_cause _) \<Rightarrow>
          route_remote_reply E isolate cause call_id requester request_cause (RoReplied reply) s)"

definition exec_reject ::
    "('h, 'm, 'd) rt_env \<Rightarrow> nat \<Rightarrow> nat \<Rightarrow> call_rejected_reason \<Rightarrow> call_context option \<Rightarrow> ('h, 'm, 'd) rt
     \<Rightarrow> ('h, 'm, 'd) rt option" where
  "exec_reject E isolate cause reason context s =
     (case context of
        None \<Rightarrow> Some (log_event isolate (Some cause) (EffectObserved KReject) s)
      | Some context \<Rightarrow> reject_call_context E isolate cause context reason s)"

definition exec_fail ::
    "('h, 'm, 'd) rt_env \<Rightarrow> nat \<Rightarrow> nat \<Rightarrow> nat \<Rightarrow> 'm round \<Rightarrow> ('h, 'm, 'd) rt
     \<Rightarrow> ('m round \<times> ('h, 'm, 'd) rt) option" where
  "exec_fail E index isolate failed round s =
     do {
       entry \<leftarrow> get_entry index s;
       s \<leftarrow> cleanup_remote_children_for_owner E isolate failed s;
       s \<leftarrow> stop_entry E index isolate failed s;
       supervise_failed_child E (self_address isolate (en_generation entry) s) failed round s }"

fun execute_effect ::
    "('h, 'm, 'd) rt_env \<Rightarrow> nat \<Rightarrow> nat \<Rightarrow> ('h, 'm, 'd) effect \<Rightarrow> call_context option \<Rightarrow> 'm round
     \<Rightarrow> ('h, 'm, 'd) rt \<Rightarrow> (bool \<times> 'm round \<times> ('h, 'm, 'd) rt) option"
  and execute_batch ::
    "('h, 'm, 'd) rt_env \<Rightarrow> nat \<Rightarrow> nat \<Rightarrow> ('h, 'm, 'd) effect list \<Rightarrow> call_context option \<Rightarrow> 'm round
     \<Rightarrow> ('h, 'm, 'd) rt \<Rightarrow> (bool \<times> 'm round \<times> ('h, 'm, 'd) rt) option" where
  "execute_effect E index cause effect context round s =
     do {
       entry \<leftarrow> get_entry index s;
       let isolate = en_id entry;
       let keep = map_option (\<lambda>s. (False, round, s));
       let goes_on = map_option (\<lambda>(round, s). (False, round, s));
       case effect of
         Stop \<Rightarrow> do {
           s \<leftarrow> cleanup_remote_children_for_owner E isolate cause s;
           s \<leftarrow> stop_entry E index isolate cause s;
           Some (True, round, s) }
       | Fail \<Rightarrow>
           (case push_event isolate (Some cause) HandlerReportedFailure s of
              (failed, s) \<Rightarrow> do {
                (round, s) \<leftarrow> exec_fail E index isolate failed round s;
                Some (True, round, s) })
       | StopWith result \<Rightarrow> do {
           s \<leftarrow> cleanup_remote_children_for_owner E isolate cause s;
           s \<leftarrow> stop_entry_with_result E index isolate cause result s;
           Some (True, round, s) }
       | Send send \<Rightarrow> keep (exec_send E isolate cause send s)
       | Spawn spawn \<Rightarrow> keep (exec_spawn isolate cause spawn s)
       | SpawnObserved spawn continuation restart_continuation terminal \<Rightarrow>
           keep (exec_spawn_observed index isolate cause spawn continuation restart_continuation terminal s)
       | SpawnObservedOn target spawn capacity restartable continuation \<Rightarrow>
           keep (exec_spawn_observed_on E index isolate cause target spawn capacity restartable continuation s)
       | RestartChildren \<Rightarrow> goes_on (restart_children E isolate cause round s)
       | StopChildren \<Rightarrow> goes_on (stop_children E isolate cause round s)
       | Io call \<Rightarrow> keep (dispatch_call E call (self_address isolate (en_generation entry) s) cause context s)
       | Noop \<Rightarrow> keep (Some (log_event isolate (Some cause) (EffectObserved KNoop) s))
       | Reply reply \<Rightarrow> keep (exec_reply E isolate cause reply context s)
       | Reject reason \<Rightarrow> keep (exec_reject E isolate cause reason context s)
       | Batch effects \<Rightarrow> execute_batch E index cause effects context round s
       | ReplyTo slot message \<Rightarrow> keep (execute_reply_to E isolate cause slot message s)
       | Fact value \<Rightarrow> keep (Some (log_event isolate (Some cause) (FactObserved value) s)) }"
| "execute_batch E index cause [] context round s = Some (False, round, s)"
| "execute_batch E index cause (e # effects) context round s =
     do {
       (stopped, round, s) \<leftarrow> execute_effect E index cause e context round s;
       if stopped then Some (True, round, s)
       else execute_batch E index cause effects (if consumes_call_context e then None else context) round s }"

section \<open>Turns and rounds\<close>

definition build_message_caller ::
    "('h, 'm, 'd) rt_env \<Rightarrow> call_context option \<Rightarrow> nat \<Rightarrow> ('h, 'm, 'd) rt \<Rightarrow> message_caller option" where
  "build_message_caller E context isolate s =
     (case context of
        None \<Rightarrow> None
      | Some (LocalContext call_id) \<Rightarrow>
          Some (case isolate_expected_reply_type call_id (rt_calls s) of
             Some expected \<Rightarrow> \<lparr>mc_call_id = call_id, mc_isolate = isolate, mc_routing = RouteLocal,
                               mc_type = expected, mc_open = True\<rparr>
           | None \<Rightarrow> \<lparr>mc_call_id = call_id, mc_isolate = isolate, mc_routing = RouteLocal,
                      mc_type = env_unit_type E, mc_open = False\<rparr>)
      | Some (RemoteContext call_id requester cause expected) \<Rightarrow>
          Some \<lparr>mc_call_id = call_id, mc_isolate = isolate, mc_routing = RouteRemote requester cause,
                mc_type = expected, mc_open = True\<rparr>)"

text \<open>\<open>MessageCaller::capture\<close>: a new slot, open unless the caller is already gone.\<close>

definition capture_caller :: "message_caller \<Rightarrow> ('h, 'm, 'd) rt \<Rightarrow> ('h, 'm, 'd) rt" where
  "capture_caller caller s =
     (let slot = rt_next_slot s + 1
      in s\<lparr>rt_next_slot := slot,
           rt_slot_cells := (rt_slot_cells s)
             (slot := \<lparr>sc_state = (if mc_open caller then SlotOpen else SlotClosed), sc_type = mc_type caller\<rparr>),
           rt_captures := rt_captures s @ [\<lparr>sl_slot_id = slot, sl_call_id = mc_call_id caller,
             sl_isolate = mc_isolate caller, sl_routing = mc_routing caller\<rparr>]\<rparr>)"

definition run_handler ::
    "('h, 'm, 'd) rt_env \<Rightarrow> nat \<Rightarrow> 'm delivered \<Rightarrow> ('h, 'm, 'd) rt
     \<Rightarrow> (('h, 'm, 'd) effect option \<times> ('h, 'm, 'd) rt) option" where
  "run_handler E index message s =
     do {
       entry \<leftarrow> get_entry index s;
       let caller = build_message_caller E (dv_context message) (en_id entry) s;
       let (now, s) = clock_now E s;
       let (h, result, w) = env_handle E (en_handler entry) (dv_message message)
             \<lparr>hc_isolate = en_id entry, hc_generation = en_generation entry, hc_now = now,
              hc_caller = caller, hc_next_slot = rt_next_slot s + 1\<rparr> (rt_world s);
       let s = set_entry index (entry\<lparr>en_handler := h\<rparr>) (s\<lparr>rt_world := w\<rparr>);
       Some (tr_effect result,
             case caller of
               Some c \<Rightarrow> if tr_captured result then capture_caller c s else s
             | None \<Rightarrow> s) }"

definition turn_panicked ::
    "('h, 'm, 'd) rt_env \<Rightarrow> nat \<Rightarrow> nat \<Rightarrow> nat \<Rightarrow> call_context option \<Rightarrow> 'm round \<Rightarrow> ('h, 'm, 'd) rt
     \<Rightarrow> ('m round \<times> ('h, 'm, 'd) rt) option" where
  "turn_panicked E index isolate started context round s =
     do {
       let (panicked, s) = push_event isolate (Some started) HandlerPanicked s;
       (captured, s) \<leftarrow> drop_pending_deferred_captures panicked s;
       s \<leftarrow> (if captured then Some s
             else case context of
               None \<Rightarrow> Some s
             | Some c \<Rightarrow> reject_call_context E isolate panicked c CrHandlerPanicked s);
       exec_fail E index isolate panicked round s }"

definition turn_finished ::
    "('h, 'm, 'd) rt_env \<Rightarrow> nat \<Rightarrow> nat \<Rightarrow> nat \<Rightarrow> ('h, 'm, 'd) effect \<Rightarrow> call_context option \<Rightarrow> 'm round
     \<Rightarrow> ('h, 'm, 'd) rt \<Rightarrow> ('m round \<times> ('h, 'm, 'd) rt) option" where
  "turn_finished E index isolate started effect context round s =
     do {
       let (finished, s) = push_event isolate (Some started) (HandlerFinished (effect_kind_of effect)) s;
       let (captured, s) = promote_captures isolate finished s;
       let abandoned = (if \<not> captured \<and> \<not> consumes_call_context effect then context else None);
       s \<leftarrow> (case abandoned of
               None \<Rightarrow> Some s
             | Some c \<Rightarrow> reject_call_context E isolate finished c CrReplyAbandoned s);
       let effective = (if captured \<or> abandoned \<noteq> None then None else context);
       (_, round, s) \<leftarrow> execute_effect E index finished effect effective round s;
       Some (round, s) }"

text \<open>One delivery; the result says whether the handler ran.\<close>

definition run_turn ::
    "('h, 'm, 'd) rt_env \<Rightarrow> nat \<Rightarrow> 'm delivered \<Rightarrow> 'm round \<Rightarrow> ('h, 'm, 'd) rt
     \<Rightarrow> (bool \<times> 'm round \<times> ('h, 'm, 'd) rt) option" where
  "run_turn E index message round s =
     do {
       entry \<leftarrow> get_entry index s;
       let isolate = en_id entry;
       if en_stopped entry then do {
         s \<leftarrow> (case en_stopped_event entry of
                 None \<Rightarrow> Some s
               | Some stopped \<Rightarrow> abandon_message isolate stopped message s);
         Some (False, round, s) }
       else do {
         let (accepted, s) = push_event isolate None MailboxAccepted s;
         let (started, s) = push_event isolate (Some accepted) HandlerStarted s;
         (effect, s) \<leftarrow> run_handler E index message s;
         (round, s) \<leftarrow>
           (case effect of
              None \<Rightarrow> turn_panicked E index isolate started (dv_context message) round s
            | Some effect \<Rightarrow> turn_finished E index isolate started effect (dv_context message) round s);
         Some (True, round, s) } }"

fun collect_round :: "nat list \<Rightarrow> ('h, 'm, 'd) rt \<Rightarrow> ('m round \<times> ('h, 'm, 'd) rt) option" where
  "collect_round [] s = Some ([], s)"
| "collect_round (i # is) s =
     do {
       entry \<leftarrow> get_entry i s;
       pending \<leftarrow> entry_has_pending_message i s;
       (m, s) \<leftarrow> (if en_stopped entry \<or> \<not> pending then Some (None, s) else recv_entry_message i s);
       (ms, s) \<leftarrow> collect_round is s;
       Some (m # ms, s) }"

fun run_round ::
    "('h, 'm, 'd) rt_env \<Rightarrow> nat list \<Rightarrow> 'm round \<Rightarrow> ('h, 'm, 'd) rt \<Rightarrow> (nat \<times> ('h, 'm, 'd) rt) option" where
  "run_round E [] round s = Some (0, s)"
| "run_round E (i # is) round s =
     (case take_round i round of
        (None, round) \<Rightarrow> run_round E is round s
      | (Some message, round) \<Rightarrow> do {
          (ran, round, s) \<leftarrow> run_turn E i message round s;
          (n, s) \<leftarrow> run_round E is round s;
          Some (if ran then n + 1 else n, s) })"

section \<open>Collecting stopped isolates\<close>

definition can_gc_stopped_entry :: "('h, 'm, 'd) rt \<Rightarrow> ('h, 'm) rt_entry \<Rightarrow> bool" where
  "can_gc_stopped_entry s entry =
     (en_stopped entry \<and>
      (let address = self_address (en_id entry) (en_generation entry) s
       in \<not> list_ex (\<lambda>r. (cr_parent r = en_id entry \<and> cr_remote_owner r = None) \<or> cr_child r = address) (rt_children s)
          \<and> \<not> list_ex (\<lambda>r. sr_parent r = address) (rt_supervisors s)
          \<and> \<not> has_driver_call_for_requester address (rt_calls s)
          \<and> \<not> has_isolate_call_for_requester address (rt_calls s)))"

function gc_entries ::
    "(('h, 'm) rt_entry \<Rightarrow> bool) \<Rightarrow> nat \<Rightarrow> bool \<Rightarrow> bool \<Rightarrow> ('h, 'm) rt_entry list
     \<Rightarrow> ('h, 'm) rt_entry list \<times> bool \<times> bool" where
  "gc_entries P i removed stopped entries =
     (if i < length entries then
        if P (entries ! i) then gc_entries P i True stopped (swap_remove i entries)
        else gc_entries P (i + 1) removed (stopped \<or> en_stopped (entries ! i)) entries
      else (entries, removed, stopped))"
  by pat_completeness auto
termination
  by (relation "measure (\<lambda>(P, i, removed, stopped, entries). length entries - i)") (auto simp: swap_remove_def)

declare gc_entries.simps [simp del]

definition gc_stopped_entries :: "('h, 'm, 'd) rt \<Rightarrow> ('h, 'm, 'd) rt" where
  "gc_stopped_entries s =
     (if \<not> rt_has_stopped s then s
      else case gc_entries (can_gc_stopped_entry s) 0 False False (rt_entries s) of
        (entries, removed, stopped) \<Rightarrow>
          let s = s\<lparr>rt_entries := entries, rt_has_stopped := stopped\<rparr>
          in if removed then rebuild_entry_indexes s else s)"

section \<open>A step\<close>

definition rt_step ::
    "('h, 'm, 'd) rt_env \<Rightarrow> ('h, 'm, 'd) rt \<Rightarrow> (nat \<times> ('h, 'm, 'd) rt) option" where
  "rt_step E s =
     do {
       let (now, s) = clock_now E s;
       s \<leftarrow> advance_driver E now s;
       s \<leftarrow> harvest_isolate_call_timeouts now s;
       (round, s) \<leftarrow> collect_round [0..<length (rt_entries s)] s;
       (delivered, s) \<leftarrow> run_round E [0..<length round] round s;
       s \<leftarrow> sweep_dropped_deferred_slots E s;
       Some (delivered, gc_stopped_entries s) }"

text \<open>A new runtime.\<close>

definition rt_new :: "nat \<Rightarrow> nat \<Rightarrow> 'd \<Rightarrow> ('h, 'm, 'd) rt" where
  "rt_new system shard world =
     \<lparr>rt_system = system, rt_shard = shard, rt_entries = [], rt_indexes = Map.empty,
      rt_has_stopped = False, rt_children = [], rt_supervisors = [], rt_next_isolate = 1,
      rt_next_event = 1, rt_next_call = 1, rt_trace = [], rt_trace_start = 0,
      rt_retention = RetainFull, rt_dropped = 0, rt_observed = [], rt_world = world,
      rt_calls = ct_new, rt_pending_spawns = [], rt_tombstones = [],
      rt_control_capacity = 64, rt_control_full = 0, rt_completions = [], rt_drain_budget = 64,
      rt_next_ordinal = 0, rt_notices = [], rt_next_slot = 0, rt_captures = [], rt_slots = [],
      rt_slot_cells = (\<lambda>_. \<lparr>sc_state = SlotClosed, sc_type = 0\<rparr>),
      rt_handles = (\<lambda>_. \<lparr>hs_state = HandlePending, hs_call_id = None, hs_shard_id = None\<rparr>),
      rt_cancelled = [], rt_evictions = 0, rt_unsupported = 0\<rparr>"

text \<open>
  Shutting down: every call in flight is cancelled; the world is what is left by the driver's own
  cancellation.
\<close>

definition shutdown_driver_call :: "'m driver_call \<Rightarrow> ('h, 'm, 'd) rt \<Rightarrow> ('h, 'm, 'd) rt" where
  "shutdown_driver_call call s =
     (let head = dc_head call
      in log_event (ra_isolate (dh_requester head)) (Some (dh_cause head))
           (CallCompletionRejected (dh_call_id head) (dh_kind head) RequesterClosed) s)"

definition shutdown_isolate_call :: "'m pending_isolate_call \<Rightarrow> ('h, 'm, 'd) rt \<Rightarrow> ('h, 'm, 'd) rt" where
  "shutdown_isolate_call call s =
     log_event (ra_isolate (pi_requester call)) (Some (pi_cause call)) (CallCancelled (pi_call_id call) RuntimeStopped)
       (record_cancelled_call (pi_call_id call) RuntimeStopped
         (set_handle_state (pi_handle call) HandleCancelled s))"

definition cancel_in_flight_calls_for_shutdown :: "'d \<Rightarrow> ('h, 'm, 'd) rt \<Rightarrow> ('h, 'm, 'd) rt" where
  "cancel_in_flight_calls_for_shutdown world s =
     (let driver_calls = map snd (ct_driver (rt_calls s));
          isolate_calls = map snd (ct_isolate (rt_calls s));
          s = s\<lparr>rt_world := world, rt_completions := [], rt_calls := ct_new\<rparr>
      in fold shutdown_isolate_call isolate_calls (fold shutdown_driver_call driver_calls s))"

end
