(* ===== verification/Rt_Remote.thy ===== *)
theory Rt_Remote
  imports Rt_Step
begin

text \<open>
  What a shard does with an envelope that another shard has sent it (\<open>harvest_remote_envelope\<close> and
  its cases in \<open>remote.rs\<close>, with the operations on children owned by another shard in
  \<open>dispatch.rs\<close>). The result is the envelope to send back, if any.
\<close>

section \<open>Sends and replies\<close>

fun remote_call_outcome_envelope ::
    "call_context option \<Rightarrow> 'm remote_outcome \<Rightarrow> ('h, 'm, 'd) envelope option" where
  "remote_call_outcome_envelope (Some (RemoteContext call_id requester cause _)) outcome =
     Some (EnvCallReply call_id requester cause outcome)"
| "remote_call_outcome_envelope _ _ = None"

definition harvest_remote_send ::
    "'m erased_send \<Rightarrow> call_context option \<Rightarrow> nat \<Rightarrow> ('h, 'm, 'd) rt
     \<Rightarrow> (('h, 'm, 'd) envelope option \<times> ('h, 'm, 'd) rt) option" where
  "harvest_remote_send send context cause s =
     (let target = es_isolate send;
          rejected = (\<lambda>reason outcome s.
            (remote_call_outcome_envelope context outcome,
             log_event target (Some cause) (SendRejected (es_shard send) target (es_generation send) reason) s))
      in if es_system send \<noteq> rt_system s then
           Some (rejected (RejForeignSystem (rt_system s) (es_system send))
                   (RoRejected (CrForeignSystem (rt_system s) (es_system send))) s)
         else case rt_indexes s target of
           None \<Rightarrow> Some (rejected RejClosed RoClosed s)
         | Some index \<Rightarrow> do {
             entry \<leftarrow> get_entry index s;
             if en_generation entry \<noteq> es_generation send then Some (rejected RejClosed RoClosed s)
             else do {
               (r, s) \<leftarrow> enqueue_entry_message index (es_message send) context s;
               Some (case r of
                       Inr _ \<Rightarrow> (None, log_event target (Some cause) MailboxAccepted s)
                     | Inl (SendFull _) \<Rightarrow> rejected RejFull RoFull s
                     | Inl (SendClosed _) \<Rightarrow> rejected RejClosed RoClosed s) } })"

text \<open>
  Only a reply looks up why its call is gone; a refusal for a call that is gone is reported as
  \<open>NoPendingCall\<close>.
\<close>

definition complete_remote_isolate_call ::
    "nat \<Rightarrow> reg_address \<Rightarrow> nat \<Rightarrow> 'm erased_outcome \<Rightarrow> ('h, 'm, 'd) rt \<Rightarrow> ('h, 'm, 'd) rt option" where
  "complete_remote_isolate_call call_id requester cause outcome s =
     do {
       (done, s) \<leftarrow> complete_isolate_call call_id cause outcome s;
       Some (if done then s
             else log_event (ra_isolate requester) (Some cause) (CallReplyRejected call_id RrNoPendingCall) s) }"

definition harvest_remote_call_reply ::
    "nat \<Rightarrow> reg_address \<Rightarrow> nat \<Rightarrow> 'm remote_outcome \<Rightarrow> ('h, 'm, 'd) rt \<Rightarrow> ('h, 'm, 'd) rt option" where
  "harvest_remote_call_reply call_id requester cause outcome s =
     (case outcome of
        RoReplied message \<Rightarrow> settle_local_reply (ra_isolate requester) cause call_id (OutReplied message) s
      | RoFull \<Rightarrow> complete_remote_isolate_call call_id requester cause OutFull s
      | RoClosed \<Rightarrow> complete_remote_isolate_call call_id requester cause OutClosed s
      | RoRejected reason \<Rightarrow> complete_remote_isolate_call call_id requester cause (OutRejected reason) s)"

section \<open>Spawning for another shard\<close>

definition harvest_remote_spawn_request ::
    "nat \<Rightarrow> reg_address \<Rightarrow> nat \<Rightarrow> ('h, 'm, 'd) erased_spawn \<Rightarrow> nat \<Rightarrow> ('h, 'm, 'd) rt
     \<Rightarrow> (('h, 'm, 'd) envelope option \<times> ('h, 'm, 'd) rt) option" where
  "harvest_remote_spawn_request request_id owner ordinal spawn cause s =
     (if request_id \<in> set (rt_tombstones s)
      then Some (Some (EnvSpawnReply request_id owner cause (Inl SoeDestinationUnavailable)), s)
      else do {
        (outcome, s) \<leftarrow> spawn_remote spawn owner ordinal (Some request_id) cause s;
        Some (Some (EnvSpawnReply request_id owner cause outcome), s) })"

definition record_remote_child_on_owner ::
    "nat \<Rightarrow> reg_address \<Rightarrow> nat \<Rightarrow> nat \<Rightarrow> bool \<Rightarrow> ('h, 'm, 'd) rt \<Rightarrow> ('h, 'm, 'd) rt" where
  "record_remote_child_on_owner parent child ordinal capacity restartable s =
     (if list_ex (\<lambda>r. cr_parent r = parent \<and> cr_remote_owner r = None \<and> cr_ordinal r = ordinal) (rt_children s)
      then s
      else s\<lparr>rt_children := rt_children s @
             [\<lparr>cr_parent = parent, cr_child = child, cr_ordinal = ordinal, cr_capacity = capacity,
               cr_recipe = None, cr_restart_continuation = None, cr_terminal_continuation = None,
               cr_slot_reserved = False, cr_settled_generation = None, cr_previous_child = None,
               cr_remote_request_id = None, cr_remote_owner = None, cr_remote_restartable = restartable,
               cr_terminal = False\<rparr>]\<rparr>)"

definition owner_stopped :: "reg_address \<Rightarrow> ('h, 'm, 'd) rt \<Rightarrow> bool" where
  "owner_stopped owner s =
     (case entry_by_isolate (ra_isolate owner) s of
        None \<Rightarrow> True
      | Some entry \<Rightarrow> en_generation entry \<noteq> ra_generation owner \<or> en_stopped entry)"

definition harvest_remote_spawn_reply ::
    "nat \<Rightarrow> nat \<Rightarrow> spawn_observed_error + reg_address \<Rightarrow> ('h, 'm, 'd) rt
     \<Rightarrow> (('h, 'm, 'd) envelope option \<times> ('h, 'm, 'd) rt) option" where
  "harvest_remote_spawn_reply request_id cause outcome s =
     (case position (\<lambda>p. ps_request_id p = request_id) (rt_pending_spawns s) of
        None \<Rightarrow> Some (None, s)
      | Some i \<Rightarrow>
          let pending = rt_pending_spawns s ! i;
              s = s\<lparr>rt_pending_spawns := take i (rt_pending_spawns s) @ drop (i + 1) (rt_pending_spawns s)\<rparr>;
              requester = ps_requester pending;
              resume = (\<lambda>s. map_option (\<lambda>s. (None, s))
                (deliver_observed_continuation requester (ps_continuation pending outcome) cause s))
          in case outcome of
               Inl _ \<Rightarrow> resume s
             | Inr child \<Rightarrow>
                 let s = log_event (ra_isolate requester) (Some cause)
                       (ChildStarted (ra_shard child) (ra_isolate child) (ra_generation child))
                       (record_remote_child_on_owner (ra_isolate requester) child (ps_ordinal pending)
                         (ps_capacity pending) (ps_restartable pending) s)
                 in if owner_stopped requester s
                    then Some (Some (EnvChildStop requester child (ps_ordinal pending) cause), s)
                    else resume s)"

section \<open>Children owned by another shard\<close>

definition remember_remote_spawn_cancel ::
    "nat \<Rightarrow> nat \<Rightarrow> nat \<Rightarrow> ('h, 'm, 'd) rt \<Rightarrow> ('h, 'm, 'd) rt" where
  "remember_remote_spawn_cancel request_id isolate cause s =
     (if request_id \<in> set (rt_tombstones s) then s
      else
        let s = (if length (rt_tombstones s) = rt_control_capacity s
                 then log_event isolate (Some cause) (RemoteChildControlPressure (rt_control_capacity s))
                        (s\<lparr>rt_tombstones := tl (rt_tombstones s),
                           rt_control_full := sat_add (rt_control_full s) 1\<rparr>)
                 else s)
        in s\<lparr>rt_tombstones := rt_tombstones s @ [request_id]\<rparr>)"

definition stop_remote_owned_child ::
    "('h, 'm, 'd) rt_env \<Rightarrow> reg_address \<Rightarrow> reg_address \<Rightarrow> nat \<Rightarrow> nat \<Rightarrow> ('h, 'm, 'd) rt
     \<Rightarrow> (('h, 'm, 'd) envelope option \<times> ('h, 'm, 'd) rt) option" where
  "stop_remote_owned_child E owner child ordinal cause s =
     (let current = (case find (\<lambda>r. cr_remote_owner r = Some owner \<and> cr_ordinal r = ordinal) (rt_children s) of
                       Some r \<Rightarrow> cr_child r | None \<Rightarrow> child);
          answer = Some (EnvChildStopped owner current ordinal cause)
      in case entry_index current s of
           None \<Rightarrow> Some (answer, s)
         | Some index \<Rightarrow> do {
             entry \<leftarrow> get_entry index s;
             if en_stopped entry then Some (answer, s)
             else do {
               s \<leftarrow> stop_entry E index (ra_isolate current) cause
                      (log_event (ra_isolate current) (Some cause)
                        (RemoteChildStopRequested (ra_shard current) ordinal (ra_isolate current)
                          (ra_generation current)) s);
               Some (answer, s) } })"

text \<open>
  \<open>create_remote\<close>: a recipe that is not made for it does not create anything (\<open>Some None\<close>); a panic
  is \<open>None\<close>. The new isolate has no parent on this shard when its owner is on another.
\<close>

definition create_remote ::
    "reg_address \<Rightarrow> ('h, 'm, 'd) restart_recipe \<Rightarrow> ('h, 'm, 'd) rt
     \<Rightarrow> ('h, 'm, 'd) spawn_outcome option option \<times> ('h, 'm, 'd) rt" where
  "create_remote owner recipe s =
     (case recipe of Recipe _ _ _ cross_shard \<Rightarrow>
        if \<not> cross_shard then (Some None, s)
        else case recipe_create (ra_isolate owner) recipe s of
          (None, s) \<Rightarrow> (None, s)
        | (Some outcome, s) \<Rightarrow>
            (Some (Some outcome),
             if ra_shard owner = rt_shard s then s
             else case entry_index (so_child outcome) s of
               None \<Rightarrow> s
             | Some index \<Rightarrow> set_entry index ((rt_entries s ! index)\<lparr>en_parent := None\<rparr>) s))"

definition restart_remote_owned_child ::
    "('h, 'm, 'd) rt_env \<Rightarrow> reg_address \<Rightarrow> reg_address \<Rightarrow> nat \<Rightarrow> nat \<Rightarrow> ('h, 'm, 'd) rt
     \<Rightarrow> (('h, 'm, 'd) envelope option \<times> ('h, 'm, 'd) rt) option" where
  "restart_remote_owned_child E owner child ordinal cause s =
     (let answer = (\<lambda>outcome. Some (EnvChildRestarted owner ordinal child outcome cause)) in
      case position (\<lambda>r. cr_remote_owner r = Some owner \<and> cr_ordinal r = ordinal \<and> cr_child r = child)
             (rt_children s) of
        None \<Rightarrow> Some (answer (Inl RemoteNotRestartable), s)
      | Some i \<Rightarrow>
          (case cr_recipe (rt_children s ! i) of
             None \<Rightarrow> Some (answer (Inl RemoteNotRestartable), s)
           | Some recipe \<Rightarrow> do {
               s \<leftarrow> (case entry_index child s of
                       None \<Rightarrow> Some s
                     | Some index \<Rightarrow> do {
                         entry \<leftarrow> get_entry index s;
                         if en_stopped entry then Some s
                         else stop_entry E index (ra_isolate child) cause s });
               if i \<ge> length (rt_children s) then None
               else
                 let (created, s) = create_remote owner recipe s;
                     keep = (\<lambda>s. s\<lparr>rt_children := (rt_children s)[i := (rt_children s ! i)\<lparr>cr_recipe := Some recipe\<rparr>]\<rparr>)
                 in case created of
                      None \<Rightarrow> Some (answer (Inl FactoryPanicked), keep s)
                    | Some None \<Rightarrow> Some (answer (Inl RemoteNotRestartable), keep s)
                    | Some (Some outcome) \<Rightarrow> do {
                        let s = s\<lparr>rt_children := (rt_children s)[i := (rt_children s ! i)
                              \<lparr>cr_child := so_child outcome, cr_capacity := so_capacity outcome,
                               cr_recipe := Some recipe, cr_remote_request_id := None,
                               cr_remote_owner := Some owner, cr_terminal := False\<rparr>]\<rparr>;
                        s \<leftarrow> enqueue_bootstrap (so_child outcome) (so_bootstrap outcome) cause s;
                        Some (answer (Inr (so_child outcome)), s) } }))"

definition harvest_remote_spawn_cancel ::
    "('h, 'm, 'd) rt_env \<Rightarrow> nat \<Rightarrow> reg_address \<Rightarrow> nat \<Rightarrow> ('h, 'm, 'd) rt
     \<Rightarrow> (('h, 'm, 'd) envelope option \<times> ('h, 'm, 'd) rt) option" where
  "harvest_remote_spawn_cancel E request_id owner cause s =
     (let s = remember_remote_spawn_cancel request_id (ra_isolate owner) cause s in
      case find (\<lambda>r. cr_remote_request_id r = Some request_id) (rt_children s) of
        None \<Rightarrow> Some (None, s)
      | Some r \<Rightarrow> stop_remote_owned_child E owner (cr_child r) (cr_ordinal r) cause s)"

definition harvest_remote_child_stopped ::
    "reg_address \<Rightarrow> reg_address \<Rightarrow> nat \<Rightarrow> nat \<Rightarrow> ('h, 'm, 'd) rt \<Rightarrow> ('h, 'm, 'd) rt" where
  "harvest_remote_child_stopped owner child ordinal cause s =
     log_event (ra_isolate owner) (Some cause)
       (RemoteChildStopped (ra_shard child) ordinal (ra_isolate child) (ra_generation child)) s"

definition harvest_remote_child_restarted ::
    "reg_address \<Rightarrow> nat \<Rightarrow> reg_address \<Rightarrow> restart_skipped + reg_address \<Rightarrow> nat \<Rightarrow> ('h, 'm, 'd) rt
     \<Rightarrow> ('h, 'm, 'd) rt" where
  "harvest_remote_child_restarted owner ordinal old outcome cause s =
     (if entry_index owner s = None then s
      else case position (\<lambda>r. cr_parent r = ra_isolate owner \<and> cr_remote_owner r = None
                  \<and> cr_ordinal r = ordinal \<and> cr_child r = old) (rt_children s) of
        None \<Rightarrow> s
      | Some i \<Rightarrow>
          (case outcome of
             Inr new \<Rightarrow>
               notify (NoteChildRestarted (ra_shard owner) (ra_isolate owner) (ra_generation owner) ordinal new)
                 (log_event (ra_isolate owner) (Some cause)
                   (RestartChildCompleted ordinal (ra_isolate old) (ra_generation old) (ra_isolate new)
                     (ra_generation new))
                   (s\<lparr>rt_children := (rt_children s)
                        [i := (rt_children s ! i)\<lparr>cr_child := new, cr_terminal := False\<rparr>]\<rparr>))
           | Inl reason \<Rightarrow>
               log_event (ra_isolate owner) (Some cause)
                 (RestartChildSkipped ordinal (ra_isolate old) (ra_generation old) reason) s))"

section \<open>Envelopes\<close>

definition harvest_remote_envelope ::
    "('h, 'm, 'd) rt_env \<Rightarrow> ('h, 'm, 'd) envelope \<Rightarrow> ('h, 'm, 'd) rt
     \<Rightarrow> (('h, 'm, 'd) envelope option \<times> ('h, 'm, 'd) rt) option" where
  "harvest_remote_envelope E envelope s =
     (case envelope of
        EnvSend send context cause \<Rightarrow> harvest_remote_send send context cause s
      | EnvCallReply call_id requester cause outcome \<Rightarrow>
          map_option (\<lambda>s. (None, s)) (harvest_remote_call_reply call_id requester cause outcome s)
      | EnvSpawnRequest request_id _ owner ordinal spawn cause \<Rightarrow>
          harvest_remote_spawn_request request_id owner ordinal spawn cause s
      | EnvSpawnReply request_id _ cause outcome \<Rightarrow> harvest_remote_spawn_reply request_id cause outcome s
      | EnvSpawnCancel request_id _ owner cause \<Rightarrow> harvest_remote_spawn_cancel E request_id owner cause s
      | EnvChildStop owner child ordinal cause \<Rightarrow> stop_remote_owned_child E owner child ordinal cause s
      | EnvChildStopped owner child ordinal cause \<Rightarrow>
          Some (None, harvest_remote_child_stopped owner child ordinal cause s)
      | EnvChildRestart owner child ordinal cause \<Rightarrow> restart_remote_owned_child E owner child ordinal cause s
      | EnvChildRestarted owner ordinal old outcome cause \<Rightarrow>
          Some (None, harvest_remote_child_restarted owner ordinal old outcome cause s))"

end
