(* ===== verification/Rt_Ledger.thy ===== *)
theory Rt_Ledger
  imports Rt_Remote
begin

text \<open>
  The specification that the operations of the runtime refine: a machine over the event log, the
  registry and the table of calls. The ghost component \<open>co_open\<close> holds the isolate calls that have
  been dispatched and are neither in the table nor settled; it is empty between operations. The
  steps of the machine are the only ways in which the runtime touches this state, and its invariant
  says what the log, the registry and the table always satisfy.
\<close>

section \<open>Abstraction\<close>

text \<open>
  The kept part of the trace: the policy, the buffer, the start of the part in use, and the number of
  events dropped. \<open>keep_event\<close> is what a new event does to it.
\<close>

type_synonym 'm kept = "trace_retention \<times> 'm rt_event list \<times> nat \<times> nat"

definition keep_event :: "'m rt_event \<Rightarrow> 'm kept \<Rightarrow> 'm kept" where
  "keep_event e = (\<lambda>(policy, buffer, start, dropped).
     case policy of
       RetainFull \<Rightarrow> (policy, drop start buffer @ [e], 0, dropped)
     | RetainBounded capacity \<Rightarrow>
         if capacity = 0 then (policy, buffer, start, dropped + 1)
         else if length buffer - start \<noteq> capacity then (policy, buffer @ [e], start, dropped)
         else if start + 1 \<ge> capacity then (policy, drop (start + 1) buffer @ [e], 0, dropped + 1)
         else (policy, buffer @ [e], start + 1, dropped + 1)
     | RetainOff \<Rightarrow> (policy, buffer, start, dropped + 1))"

record ('h, 'm) core =
  co_system :: nat
  co_shard :: nat
  co_entries :: "('h, 'm) rt_entry list"
  co_indexes :: "nat \<rightharpoonup> nat"
  co_next_isolate :: nat
  co_next_event :: nat
  co_next_call :: nat
  co_next_ordinal :: nat
  co_events :: "'m rt_event list"
  co_calls :: "'m call_table"
  co_open :: "nat set"
  co_kept :: "'m kept"

definition kept_of :: "('h, 'm, 'd) rt \<Rightarrow> 'm kept" where
  "kept_of s = (rt_retention s, rt_trace s, rt_trace_start s, rt_dropped s)"

definition core_of :: "nat set \<Rightarrow> ('h, 'm, 'd) rt \<Rightarrow> ('h, 'm) core" where
  "core_of L s = \<lparr>co_system = rt_system s, co_shard = rt_shard s, co_entries = rt_entries s,
     co_indexes = rt_indexes s, co_next_isolate = rt_next_isolate s, co_next_event = rt_next_event s,
     co_next_call = rt_next_call s, co_next_ordinal = rt_next_ordinal s, co_events = rt_observed s,
     co_calls = rt_calls s, co_open = L, co_kept = kept_of s\<rparr>"

lemma kept_of_update [simp]:
  "kept_of (s\<lparr>rt_entries := x1\<rparr>) = kept_of s" "kept_of (s\<lparr>rt_indexes := x2\<rparr>) = kept_of s"
  "kept_of (s\<lparr>rt_next_isolate := x3\<rparr>) = kept_of s" "kept_of (s\<lparr>rt_next_event := x4\<rparr>) = kept_of s"
  "kept_of (s\<lparr>rt_next_call := x5\<rparr>) = kept_of s" "kept_of (s\<lparr>rt_next_ordinal := x6\<rparr>) = kept_of s"
  "kept_of (s\<lparr>rt_observed := x7\<rparr>) = kept_of s" "kept_of (s\<lparr>rt_calls := x8\<rparr>) = kept_of s"
  "kept_of (s\<lparr>rt_has_stopped := x9\<rparr>) = kept_of s"
  by (simp_all add: kept_of_def)

lemma core_of_sel [simp]:
  "co_system (core_of L s) = rt_system s" "co_shard (core_of L s) = rt_shard s"
  "co_entries (core_of L s) = rt_entries s" "co_indexes (core_of L s) = rt_indexes s"
  "co_next_isolate (core_of L s) = rt_next_isolate s" "co_next_event (core_of L s) = rt_next_event s"
  "co_next_call (core_of L s) = rt_next_call s" "co_next_ordinal (core_of L s) = rt_next_ordinal s"
  "co_events (core_of L s) = rt_observed s" "co_calls (core_of L s) = rt_calls s" "co_open (core_of L s) = L"
  "co_kept (core_of L s) = kept_of s"
  by (simp_all add: core_of_def)

definition c_log :: "nat \<Rightarrow> nat option \<Rightarrow> 'm event_kind \<Rightarrow> ('h, 'm) core \<Rightarrow> ('h, 'm) core" where
  "c_log isolate cause kind K =
     (let e = \<lparr>ev_id = co_next_event K, ev_cause = cause, ev_shard = co_shard K,
                ev_isolate = isolate, ev_kind = kind\<rparr>
      in K\<lparr>co_next_event := co_next_event K + 1, co_events := co_events K @ [e],
           co_kept := keep_event e (co_kept K)\<rparr>)"

section \<open>Steps\<close>

text \<open>
  Events about the fate of isolate calls, and the start of a handler, are logged only by the steps
  made for them.
\<close>

fun neutral :: "'m event_kind \<Rightarrow> bool" where
  "neutral (CallDispatchAttempted _ kind) = (kind \<noteq> KindIsolateCall)"
| "neutral (CallCompleted _ kind) = (kind \<noteq> KindIsolateCall)"
| "neutral (CallFailed _ kind _) = (kind \<noteq> KindIsolateCall)"
| "neutral (CallCompletionRejected _ kind _) = (kind \<noteq> KindIsolateCall)"
| "neutral (CallCancelled _ _) = False"
| "neutral HandlerStarted = False"
| "neutral _ = True"

inductive settlement :: "nat \<Rightarrow> 'm event_kind list \<Rightarrow> bool" for c where
  "settlement c [CallCompleted c KindIsolateCall]"
| "settlement c [CallCompletionRejected c KindIsolateCall reason]"
| "settlement c [CallFailed c KindIsolateCall e]"
| "settlement c [CallFailed c KindIsolateCall e, CallCompletionRejected c KindIsolateCall reason]"
| "settlement c [CallCancelled c why]"

text \<open>
  A cause is an event that is already logged, or an event of another shard: the set \<open>F\<close> holds the
  numbers that other shards may hand over, and is empty for a runtime on its own.
\<close>

definition cause_in :: "nat set \<Rightarrow> nat \<Rightarrow> nat \<Rightarrow> bool" where
  "cause_in F n i \<longleftrightarrow> i < n \<or> i \<in> F"

definition cause_ok :: "nat set \<Rightarrow> nat option \<Rightarrow> ('h, 'm) core \<Rightarrow> bool" where
  "cause_ok F cause K \<longleftrightarrow> (case cause of None \<Rightarrow> True | Some i \<Rightarrow> cause_in F (co_next_event K) i)"

lemma cause_in_Suc [simp]: "cause_in F n i \<Longrightarrow> cause_in F (Suc n) i" "cause_in F n i \<Longrightarrow> cause_in F (n + 1) i"
  by (auto simp: cause_in_def)

lemma cause_in_last [simp]: "cause_in F (Suc n) n"
  by (simp add: cause_in_def)

lemma cause_in_mono [elim]: "cause_in F n i \<Longrightarrow> n \<le> n' \<Longrightarrow> cause_in F n' i"
  by (auto simp: cause_in_def)

text \<open>
  What may happen to an entry that stays registered: its mailbox, contexts and handler change; a
  stopped isolate receives nothing more.
\<close>

definition entry_evolves :: "('h, 'm) rt_entry \<Rightarrow> ('h, 'm) rt_entry \<Rightarrow> bool" where
  "entry_evolves e e' \<longleftrightarrow> en_id e' = en_id e \<and> en_generation e' = en_generation e
     \<and> en_stopped e' = en_stopped e \<and> en_stopped_event e' = en_stopped_event e
     \<and> (en_stopped e \<and> am_closed (en_mailbox e) \<longrightarrow> am_closed (en_mailbox e')
          \<and> length (dm_queue (am_mailbox (en_mailbox e'))) \<le> length (dm_queue (am_mailbox (en_mailbox e)))
          \<and> length (en_overflow e') \<le> length (en_overflow e))"

inductive core_step :: "nat set \<Rightarrow> ('h, 'm) core \<Rightarrow> ('h, 'm) core \<Rightarrow> bool" for F where
  CsLog: "neutral kind \<Longrightarrow> cause_ok F cause K \<Longrightarrow> core_step F K (c_log isolate cause kind K)"
| CsEntry: "i < length (co_entries K) \<Longrightarrow> entry_evolves (co_entries K ! i) e
     \<Longrightarrow> core_step F K (K\<lparr>co_entries := (co_entries K)[i := e]\<rparr>)"
| CsRegister: "en_id e = co_next_isolate K \<Longrightarrow> \<not> en_stopped e \<Longrightarrow> en_stopped_event e = None
     \<Longrightarrow> core_step F K (K\<lparr>co_next_isolate := co_next_isolate K + 1, co_entries := co_entries K @ [e],
            co_indexes := (co_indexes K)(en_id e \<mapsto> length (co_entries K))\<rparr>)"
| CsStop: "i < length (co_entries K) \<Longrightarrow> \<not> en_stopped (co_entries K ! i)
     \<Longrightarrow> en_id e = en_id (co_entries K ! i) \<Longrightarrow> en_generation e = en_generation (co_entries K ! i)
     \<Longrightarrow> en_stopped e \<Longrightarrow> en_stopped_event e = Some (co_next_event K) \<Longrightarrow> am_closed (en_mailbox e)
     \<Longrightarrow> cause_in F (co_next_event K) cause
     \<Longrightarrow> core_step F K ((c_log isolate (Some cause) IsolateStopped K)\<lparr>co_entries := (co_entries K)[i := e]\<rparr>)"
| CsAttempt: "cause_in F (co_next_event K) cause
     \<Longrightarrow> core_step F K ((c_log isolate (Some cause) (CallDispatchAttempted (co_next_call K) kind) K)
            \<lparr>co_next_call := co_next_call K + 1,
             co_open := (if kind = KindIsolateCall then insert (co_next_call K) (co_open K) else co_open K)\<rparr>)"
| CsNumber: "core_step F K (K\<lparr>co_next_call := co_next_call K + 1\<rparr>)"
| CsOrdinal: "core_step F K (K\<lparr>co_next_ordinal := co_next_ordinal K + 1\<rparr>)"
| CsInsert: "pi_call_id p \<in> co_open K \<Longrightarrow> cause_in F (co_next_event K) (pi_cause p) \<Longrightarrow> pi_order p < co_next_ordinal K
     \<Longrightarrow> pi_order p \<notin> (\<lambda>x. pi_order (snd x)) ` set (ct_isolate (co_calls K))
     \<Longrightarrow> insert_isolate p (co_calls K) = Some t
     \<Longrightarrow> core_step F K (K\<lparr>co_calls := t, co_open := co_open K - {pi_call_id p}\<rparr>)"
| CsTake: "remove_isolate c (co_calls K) = Some (p, t)
     \<Longrightarrow> core_step F K (K\<lparr>co_calls := t, co_open := insert c (co_open K)\<rparr>)"
| CsSettle: "c \<in> co_open K \<Longrightarrow> settlement c kinds \<Longrightarrow> cause_in F (co_next_event K) cause
     \<Longrightarrow> core_step F K ((fold (c_log isolate (Some cause)) kinds K)\<lparr>co_open := co_open K - {c}\<rparr>)"
| CsDriverInsert: "insert_driver d (co_calls K) = Some t \<Longrightarrow> dh_call_id (dc_head d) < co_next_call K
     \<Longrightarrow> cause_in F (co_next_event K) (dh_cause (dc_head d)) \<Longrightarrow> dh_kind (dc_head d) \<noteq> KindIsolateCall
     \<Longrightarrow> core_step F K (K\<lparr>co_calls := t\<rparr>)"
| CsDriverRemove: "remove_driver c (co_calls K) = Some (d, t) \<Longrightarrow> core_step F K (K\<lparr>co_calls := t\<rparr>)"

abbreviation core_steps :: "nat set \<Rightarrow> ('h, 'm) core \<Rightarrow> ('h, 'm) core \<Rightarrow> bool" where
  "core_steps F \<equiv> (core_step F)\<^sup>*\<^sup>*"

section \<open>Invariant\<close>

text \<open>The log: numbered consecutively, every cause an earlier event.\<close>

definition log_ok :: "nat set \<Rightarrow> ('h, 'm) core \<Rightarrow> bool" where
  "log_ok F K \<longleftrightarrow> 1 \<le> co_next_event K \<and> map ev_id (co_events K) = [1..<co_next_event K]
     \<and> (\<forall>e \<in> set (co_events K). case ev_cause e of None \<Rightarrow> True | Some i \<Rightarrow> cause_in F (ev_id e) i)"

text \<open>The registry: the index finds every isolate; stopped isolates are closed.\<close>

definition registry_ok :: "nat set \<Rightarrow> ('h, 'm) core \<Rightarrow> bool" where
  "registry_ok F K \<longleftrightarrow>
     (\<forall>x i. co_indexes K x = Some i \<longleftrightarrow> i < length (co_entries K) \<and> en_id (co_entries K ! i) = x)
     \<and> (\<forall>e \<in> set (co_entries K). en_id e < co_next_isolate K
          \<and> (en_stopped e \<longrightarrow> am_closed (en_mailbox e)
               \<and> (\<exists>i. en_stopped_event e = Some i \<and> cause_in F (co_next_event K) i)))"

text \<open>The table: keys, numbers and causes are consistent, and the deadline index is exact.\<close>

definition driver_ok :: "nat set \<Rightarrow> nat \<Rightarrow> nat \<Rightarrow> 'm call_table \<Rightarrow> bool" where
  "driver_ok F next_call next_event t \<longleftrightarrow> bt_sorted (ct_driver t)
     \<and> (\<forall>x \<in> set (ct_driver t). dh_call_id (dc_head (snd x)) = fst x \<and> fst x < next_call
          \<and> cause_in F next_event (dh_cause (dc_head (snd x))) \<and> dh_kind (dc_head (snd x)) \<noteq> KindIsolateCall)"

definition deadline_of :: "nat \<times> 'm pending_isolate_call \<Rightarrow> (instant \<times> nat) \<times> nat" where
  "deadline_of x = ((pi_deadline (snd x), pi_order (snd x)), fst x)"

definition isolate_ok :: "nat set \<Rightarrow> nat \<Rightarrow> nat \<Rightarrow> nat \<Rightarrow> 'm call_table \<Rightarrow> bool" where
  "isolate_ok F next_call next_event next_ordinal t \<longleftrightarrow>
     bt_sorted (ct_isolate t) \<and> bt_sorted (ct_deadlines t)
     \<and> (\<forall>x \<in> set (ct_isolate t). pi_call_id (snd x) = fst x \<and> fst x < next_call
          \<and> cause_in F next_event (pi_cause (snd x)) \<and> pi_order (snd x) < next_ordinal)
     \<and> inj_on (\<lambda>x. pi_order (snd x)) (set (ct_isolate t))
     \<and> set (ct_deadlines t) = deadline_of ` set (ct_isolate t)"

definition table_ok :: "nat set \<Rightarrow> ('h, 'm) core \<Rightarrow> bool" where
  "table_ok F K \<longleftrightarrow> driver_ok F (co_next_call K) (co_next_event K) (co_calls K)
     \<and> isolate_ok F (co_next_call K) (co_next_event K) (co_next_ordinal K) (co_calls K)"

text \<open>
  The fate of calls: which isolate calls are attempted, and how often the log shows each kind of
  ending.
\<close>

definition kinds_of :: "('h, 'm) core \<Rightarrow> 'm event_kind list" where
  "kinds_of K = map ev_kind (co_events K)"

definition attempts :: "nat \<Rightarrow> 'm event_kind list \<Rightarrow> nat" where
  "attempts c ks = length (filter (\<lambda>k. k = CallDispatchAttempted c KindIsolateCall) ks)"

definition endings :: "nat \<Rightarrow> 'm event_kind list \<Rightarrow> 'm event_kind list" where
  "endings c ks = filter (\<lambda>k. case k of
       CallCompleted c' kind \<Rightarrow> c' = c \<and> kind = KindIsolateCall
     | CallFailed c' kind _ \<Rightarrow> c' = c \<and> kind = KindIsolateCall
     | CallCompletionRejected c' kind _ \<Rightarrow> c' = c \<and> kind = KindIsolateCall
     | CallCancelled c' _ \<Rightarrow> c' = c
     | _ \<Rightarrow> False) ks"

definition in_flight :: "('h, 'm) core \<Rightarrow> nat set" where
  "in_flight K = co_open K \<union> fst ` set (ct_isolate (co_calls K))"

definition fate_ok :: "('h, 'm) core \<Rightarrow> bool" where
  "fate_ok K \<longleftrightarrow> co_open K \<inter> fst ` set (ct_isolate (co_calls K)) = {}
     \<and> (\<forall>c \<in> co_open K. c < co_next_call K)
     \<and> (\<forall>c. attempts c (kinds_of K) = 0 \<longrightarrow> c \<notin> in_flight K \<and> endings c (kinds_of K) = [])
     \<and> (\<forall>c. attempts c (kinds_of K) \<noteq> 0 \<longrightarrow> attempts c (kinds_of K) = 1 \<and> c < co_next_call K
          \<and> (if c \<in> in_flight K then endings c (kinds_of K) = []
             else settlement c (endings c (kinds_of K))))"

text \<open>
  The kept trace: what is kept are the latest events, all but the dropped ones; a bounded trace keeps
  at most its capacity, in less than twice the space.
\<close>

definition kept_ok :: "'m rt_event list \<Rightarrow> 'm kept \<Rightarrow> bool" where
  "kept_ok events = (\<lambda>(policy, buffer, start, dropped).
     start \<le> length buffer \<and> dropped \<le> length events \<and> drop start buffer = drop dropped events
     \<and> (case policy of
          RetainFull \<Rightarrow> True
        | RetainBounded capacity \<Rightarrow> length buffer - start \<le> capacity \<and> start < max capacity 1
        | RetainOff \<Rightarrow> buffer = []))"

definition trace_ok :: "('h, 'm) core \<Rightarrow> bool" where
  "trace_ok K \<longleftrightarrow> kept_ok (co_events K) (co_kept K)"

definition core_inv :: "nat set \<Rightarrow> ('h, 'm) core \<Rightarrow> bool" where
  "core_inv F K \<longleftrightarrow> log_ok F K \<and> registry_ok F K \<and> table_ok F K \<and> fate_ok K \<and> trace_ok K"

section \<open>The steps keep the invariant\<close>

lemma c_log_sel [simp]:
  "co_system (c_log i c k K) = co_system K" "co_shard (c_log i c k K) = co_shard K"
  "co_entries (c_log i c k K) = co_entries K" "co_indexes (c_log i c k K) = co_indexes K"
  "co_next_isolate (c_log i c k K) = co_next_isolate K" "co_next_event (c_log i c k K) = co_next_event K + 1"
  "co_next_call (c_log i c k K) = co_next_call K" "co_next_ordinal (c_log i c k K) = co_next_ordinal K"
  "co_calls (c_log i c k K) = co_calls K" "co_open (c_log i c k K) = co_open K"
  by (simp_all add: c_log_def Let_def)

lemma c_logs_sel [simp]:
  "co_system (fold (c_log i c) ks K) = co_system K" "co_shard (fold (c_log i c) ks K) = co_shard K"
  "co_entries (fold (c_log i c) ks K) = co_entries K" "co_indexes (fold (c_log i c) ks K) = co_indexes K"
  "co_next_isolate (fold (c_log i c) ks K) = co_next_isolate K"
  "co_next_event (fold (c_log i c) ks K) = co_next_event K + length ks"
  "co_next_call (fold (c_log i c) ks K) = co_next_call K"
  "co_next_ordinal (fold (c_log i c) ks K) = co_next_ordinal K"
  "co_calls (fold (c_log i c) ks K) = co_calls K" "co_open (fold (c_log i c) ks K) = co_open K"
  by (induction ks arbitrary: K) simp_all

lemma kinds_of_log [simp]: "kinds_of (c_log i c k K) = kinds_of K @ [k]"
  by (simp add: kinds_of_def c_log_def Let_def)

lemma kinds_of_logs [simp]: "kinds_of (fold (c_log i c) ks K) = kinds_of K @ ks"
  by (induction ks arbitrary: K) simp_all

lemma kinds_of_update [simp]:
  "kinds_of (K\<lparr>co_entries := x1\<rparr>) = kinds_of K" "kinds_of (K\<lparr>co_indexes := x2\<rparr>) = kinds_of K"
  "kinds_of (K\<lparr>co_next_isolate := x3\<rparr>) = kinds_of K" "kinds_of (K\<lparr>co_next_call := x4\<rparr>) = kinds_of K"
  "kinds_of (K\<lparr>co_next_ordinal := x5\<rparr>) = kinds_of K" "kinds_of (K\<lparr>co_calls := x6\<rparr>) = kinds_of K"
  "kinds_of (K\<lparr>co_open := x7\<rparr>) = kinds_of K"
  by (simp_all add: kinds_of_def)

lemma attempts_append [simp]: "attempts c (xs @ ys) = attempts c xs + attempts c ys"
  by (simp add: attempts_def)

lemma endings_append [simp]: "endings c (xs @ ys) = endings c xs @ endings c ys"
  by (simp add: endings_def)

lemma neutral_kind [simp]:
  assumes "neutral k"
  shows "attempts c [k] = 0" "endings c [k] = []"
  using assms by (cases k; simp add: attempts_def endings_def)+

lemma attempt_kind [simp]:
  "attempts c [CallDispatchAttempted d kind] = (if c = d \<and> kind = KindIsolateCall then 1 else 0)"
  "endings c [CallDispatchAttempted d kind] = []"
  by (simp_all add: attempts_def endings_def)

lemma stopped_kind [simp]: "attempts c [IsolateStopped] = 0" "endings c [IsolateStopped] = []"
  by (simp_all add: attempts_def endings_def)

lemma settlement_kinds [simp]:
  assumes "settlement d ks"
  shows "attempts c ks = 0" "endings c ks = (if c = d then ks else [])"
  using assms by (cases; simp add: attempts_def endings_def)+

subsection \<open>Log\<close>

lemma log_ok_log: "log_ok F K \<Longrightarrow> cause_ok F c K \<Longrightarrow> log_ok F (c_log i c k K)"
  by (auto simp: log_ok_def c_log_def Let_def cause_ok_def split: option.splits)

lemma cause_ok_Some [simp]: "cause_ok F (Some i) K \<longleftrightarrow> cause_in F (co_next_event K) i"
  and cause_ok_None [simp]: "cause_ok F None K"
  by (simp_all add: cause_ok_def)

lemma log_ok_logs: "log_ok F K \<Longrightarrow> cause_in F (co_next_event K) c \<Longrightarrow> log_ok F (fold (c_log i (Some c)) ks K)"
proof (induction ks arbitrary: K)
  case (Cons k ks)
  from Cons.IH [of "c_log i (Some c) k K"] Cons.prems show ?case by (simp add: log_ok_log)
qed simp

lemma log_ok_update [simp]:
  "log_ok F (K\<lparr>co_entries := x1\<rparr>) = log_ok F K" "log_ok F (K\<lparr>co_indexes := x2\<rparr>) = log_ok F K"
  "log_ok F (K\<lparr>co_next_isolate := x3\<rparr>) = log_ok F K" "log_ok F (K\<lparr>co_next_call := x4\<rparr>) = log_ok F K"
  "log_ok F (K\<lparr>co_next_ordinal := x5\<rparr>) = log_ok F K" "log_ok F (K\<lparr>co_calls := x6\<rparr>) = log_ok F K"
  "log_ok F (K\<lparr>co_open := x7\<rparr>) = log_ok F K"
  by (simp_all add: log_ok_def)

lemma log_ok_step: "core_step F K K' \<Longrightarrow> log_ok F K \<Longrightarrow> log_ok F K'"
  by (induction rule: core_step.induct) (simp_all add: log_ok_log log_ok_logs)

subsection \<open>Registry\<close>

definition entries_ok :: "nat set \<Rightarrow> nat \<Rightarrow> nat \<Rightarrow> ('h, 'm) rt_entry list \<Rightarrow> bool" where
  "entries_ok F next_isolate next_event es \<longleftrightarrow> (\<forall>e \<in> set es. en_id e < next_isolate
     \<and> (en_stopped e \<longrightarrow> am_closed (en_mailbox e) \<and> (\<exists>i. en_stopped_event e = Some i \<and> cause_in F next_event i)))"

definition indexed :: "(nat \<rightharpoonup> nat) \<Rightarrow> ('h, 'm) rt_entry list \<Rightarrow> bool" where
  "indexed m es \<longleftrightarrow> (\<forall>x i. m x = Some i \<longleftrightarrow> i < length es \<and> en_id (es ! i) = x)"

lemma registry_ok_iff:
  "registry_ok F K \<longleftrightarrow> indexed (co_indexes K) (co_entries K)
     \<and> entries_ok F (co_next_isolate K) (co_next_event K) (co_entries K)"
  by (simp add: registry_ok_def indexed_def entries_ok_def)

lemma entries_ok_mono: "entries_ok F a b es \<Longrightarrow> a \<le> a' \<Longrightarrow> b \<le> b' \<Longrightarrow> entries_ok F a' b' es"
  unfolding entries_ok_def by (meson less_le_trans cause_in_mono)

lemma indexed_update:
  assumes "indexed m es" "en_id e = en_id (es ! i)"
  shows "indexed m (es[i := e])"
proof (cases "i < length es")
  case True
  then have "en_id (es[i := e] ! j) = en_id (es ! j)" for j
    using assms(2) by (cases "j = i") simp_all
  with assms(1) show ?thesis by (simp add: indexed_def)
qed (use assms(1) in \<open>simp add: list_update_beyond\<close>)

lemma entries_ok_update:
  assumes "entries_ok F a b es" "en_id e < a"
    "en_stopped e \<Longrightarrow> am_closed (en_mailbox e) \<and> (\<exists>i. en_stopped_event e = Some i \<and> cause_in F b i)"
  shows "entries_ok F a b (es[i := e])"
  using assms set_update_subset_insert [of es i e] unfolding entries_ok_def by blast

lemma registry_ok_step: "core_step F K K' \<Longrightarrow> registry_ok F K \<Longrightarrow> registry_ok F K'"
proof (induction rule: core_step.induct)
  case (CsEntry i K e)
  then have "entries_ok F (co_next_isolate K) (co_next_event K) (co_entries K)"
    by (simp add: registry_ok_iff)
  with CsEntry have "en_id (co_entries K ! i) < co_next_isolate K"
    "en_stopped (co_entries K ! i) \<Longrightarrow> am_closed (en_mailbox (co_entries K ! i))
       \<and> (\<exists>j. en_stopped_event (co_entries K ! i) = Some j \<and> cause_in F (co_next_event K) j)"
    by (auto simp: entries_ok_def)
  with CsEntry show ?case
    by (auto simp: registry_ok_iff entry_evolves_def intro!: indexed_update entries_ok_update)
next
  case (CsRegister e K)
  have "indexed ((co_indexes K)(en_id e \<mapsto> length (co_entries K))) (co_entries K @ [e])"
    unfolding indexed_def
  proof (intro allI)
    fix x i
    have old: "en_id (co_entries K ! j) < co_next_isolate K" if "j < length (co_entries K)" for j
      using CsRegister that by (simp add: registry_ok_iff entries_ok_def)
    show "((co_indexes K)(en_id e \<mapsto> length (co_entries K))) x = Some i
        \<longleftrightarrow> i < length (co_entries K @ [e]) \<and> en_id ((co_entries K @ [e]) ! i) = x"
      using CsRegister old [of i]
      by (cases "i < length (co_entries K)"; cases "x = en_id e")
        (auto simp: registry_ok_iff indexed_def nth_append)
  qed
  moreover have "entries_ok F (co_next_isolate K + 1) (co_next_event K) (co_entries K @ [e])"
    using CsRegister by (fastforce simp: registry_ok_iff entries_ok_def)
  ultimately show ?case by (simp add: registry_ok_iff)
next
  case (CsStop i K e cause isolate)
  then have "entries_ok F (co_next_isolate K) (co_next_event K + 1) (co_entries K)"
    by (auto simp: registry_ok_iff elim: entries_ok_mono)
  moreover have "en_id (co_entries K ! i) < co_next_isolate K"
    using CsStop by (simp add: registry_ok_iff entries_ok_def)
  ultimately show ?case
    using CsStop by (auto simp: registry_ok_iff intro!: indexed_update entries_ok_update)
qed (auto simp: registry_ok_iff elim: entries_ok_mono)

subsection \<open>Table\<close>

lemma driver_ok_mono: "driver_ok F a b t \<Longrightarrow> a \<le> a' \<Longrightarrow> b \<le> b' \<Longrightarrow> driver_ok F a' b' t"
  unfolding driver_ok_def by (meson less_le_trans cause_in_mono)

lemma isolate_ok_mono: "isolate_ok F a b c t \<Longrightarrow> a \<le> a' \<Longrightarrow> b \<le> b' \<Longrightarrow> c \<le> c' \<Longrightarrow> isolate_ok F a' b' c' t"
  unfolding isolate_ok_def by (meson less_le_trans cause_in_mono)

lemma driver_ok_cong: "ct_driver t' = ct_driver t \<Longrightarrow> driver_ok F a b t' = driver_ok F a b t"
  by (simp add: driver_ok_def)

lemma isolate_ok_cong:
  "ct_isolate t' = ct_isolate t \<Longrightarrow> ct_deadlines t' = ct_deadlines t \<Longrightarrow> isolate_ok F a b c t' = isolate_ok F a b c t"
  by (simp add: isolate_ok_def)

lemma insert_driver_sel:
  assumes "insert_driver d t = Some t'"
  shows "ct_driver t' = bt_insert (dh_call_id (dc_head d)) d (ct_driver t)"
    "ct_isolate t' = ct_isolate t" "ct_deadlines t' = ct_deadlines t"
  using assms by (auto simp: insert_driver_def Let_def split: if_splits)

lemma remove_driver_sel:
  assumes "remove_driver c t = Some (d, t')"
  shows "ct_driver t' = bt_remove c (ct_driver t)" "map_of (ct_driver t) c = Some d"
    "ct_isolate t' = ct_isolate t" "ct_deadlines t' = ct_deadlines t"
  using assms by (auto simp: remove_driver_def split: option.splits)

lemma insert_driver_ok:
  assumes "driver_ok F a b t" "insert_driver d t = Some t'" "dh_call_id (dc_head d) < a"
    "cause_in F b (dh_cause (dc_head d))" "dh_kind (dc_head d) \<noteq> KindIsolateCall"
  shows "driver_ok F a b t'"
  unfolding driver_ok_def insert_driver_sel(1) [OF assms(2)]
proof (intro conjI ballI)
  show "bt_sorted (bt_insert (dh_call_id (dc_head d)) d (ct_driver t))"
    using assms(1) by (auto simp: driver_ok_def)
  fix x assume "x \<in> set (bt_insert (dh_call_id (dc_head d)) d (ct_driver t))"
  then have "x = (dh_call_id (dc_head d), d) \<or> x \<in> set (ct_driver t)" using bt_insert_set by fast
  then show "dh_call_id (dc_head (snd x)) = fst x" "fst x < a" "cause_in F b (dh_cause (dc_head (snd x)))"
    "dh_kind (dc_head (snd x)) \<noteq> KindIsolateCall"
    using assms by (auto simp: driver_ok_def)
qed

lemma remove_driver_ok:
  assumes "driver_ok F a b t" "remove_driver c t = Some (d, t')"
  shows "driver_ok F a b t'"
  using assms(1) by (auto simp: driver_ok_def remove_driver_sel(1) [OF assms(2)] bt_remove_set)

lemma map_of_sorted: "bt_sorted xs \<Longrightarrow> map_of xs k = Some v \<longleftrightarrow> (k, v) \<in> set xs"
  using bt_sorted_distinct map_of_eq_Some_iff by metis

lemma insert_isolate_sel:
  assumes "insert_isolate p t = Some t'"
  shows "ct_isolate t' = bt_insert (pi_call_id p) p (ct_isolate t)"
    "ct_deadlines t' = bt_insert (pi_deadline p, pi_order p) (pi_call_id p) (ct_deadlines t)"
    "ct_driver t' = ct_driver t" "pi_call_id p \<notin> fst ` set (ct_isolate t)"
  using assms by (auto simp: insert_isolate_def Let_def map_of_eq_None_iff split: if_splits)

lemma bt_insert_fresh:
  assumes "k \<notin> fst ` set xs" shows "set (bt_insert k v xs) = insert (k, v) (set xs)"
  using assms by (induction k v xs rule: bt_insert.induct) auto

lemma insert_isolate_ok:
  assumes ok: "isolate_ok F a b c t" and ins: "insert_isolate p t = Some t'"
    and p: "pi_call_id p < a" "cause_in F b (pi_cause p)" "pi_order p < c"
    and fresh: "pi_order p \<notin> (\<lambda>x. pi_order (snd x)) ` set (ct_isolate t)"
  shows "isolate_ok F a b c t'"
proof -
  note t' = insert_isolate_sel [OF ins]
  have iso: "set (ct_isolate t') = insert (pi_call_id p, p) (set (ct_isolate t))"
    unfolding t'(1) using t'(4) by (rule bt_insert_fresh)
  have "set (ct_deadlines t) = deadline_of ` set (ct_isolate t)" using ok by (simp add: isolate_ok_def)
  then have "(pi_deadline p, pi_order p) \<notin> fst ` set (ct_deadlines t)"
    using fresh by (auto simp: deadline_of_def image_iff)
  then have dead: "set (ct_deadlines t') = insert ((pi_deadline p, pi_order p), pi_call_id p) (set (ct_deadlines t))"
    unfolding t'(2) by (rule bt_insert_fresh)
  have "bt_sorted (ct_isolate t')" "bt_sorted (ct_deadlines t')"
    unfolding t' using ok by (auto simp: isolate_ok_def)
  moreover have "inj_on (\<lambda>x. pi_order (snd x)) (set (ct_isolate t'))"
    using ok fresh by (simp add: iso isolate_ok_def inj_on_insert) blast
  moreover have "set (ct_deadlines t') = deadline_of ` set (ct_isolate t')"
    using ok by (simp add: iso dead isolate_ok_def deadline_of_def)
  moreover have "\<forall>x \<in> set (ct_isolate t'). pi_call_id (snd x) = fst x \<and> fst x < a
      \<and> cause_in F b (pi_cause (snd x)) \<and> pi_order (snd x) < c"
    using ok p by (simp add: iso isolate_ok_def)
  ultimately show ?thesis by (simp add: isolate_ok_def)
qed

lemma remove_isolate_sel:
  assumes "remove_isolate c t = Some (p, t')"
  shows "ct_isolate t' = bt_remove c (ct_isolate t)"
    "ct_deadlines t' = bt_remove (pi_deadline p, pi_order p) (ct_deadlines t)"
    "ct_driver t' = ct_driver t" "map_of (ct_isolate t) c = Some p"
  using assms by (auto simp: remove_isolate_def split: option.splits)

lemma remove_isolate_ok:
  assumes ok: "isolate_ok F a b c t" and rem: "remove_isolate i t = Some (p, t')"
  shows "isolate_ok F a b c t'"
proof -
  note t' = remove_isolate_sel [OF rem]
  have ip: "(i, p) \<in> set (ct_isolate t)" using t'(4) by (rule map_of_SomeD)
  have sorted: "bt_sorted (ct_isolate t)" and inj: "inj_on (\<lambda>x. pi_order (snd x)) (set (ct_isolate t))"
    using ok by (simp_all add: isolate_ok_def)
  have same: "fst x = i \<longleftrightarrow> x = (i, p)" if "x \<in> set (ct_isolate t)" for x
    using that t'(4) map_of_sorted [OF sorted, of "fst x" "snd x"] by auto
  have iso: "set (ct_isolate t') = set (ct_isolate t) - {(i, p)}"
    unfolding t'(1) bt_remove_set using same by blast
  have key: "fst (deadline_of x) = (pi_deadline p, pi_order p) \<longleftrightarrow> x = (i, p)"
    if "x \<in> set (ct_isolate t)" for x
    using inj_onD [OF inj _ that ip] by (auto simp: deadline_of_def)
  have "set (ct_deadlines t') = {y \<in> deadline_of ` set (ct_isolate t). fst y \<noteq> (pi_deadline p, pi_order p)}"
    unfolding t'(2) bt_remove_set using ok by (simp add: isolate_ok_def)
  also have "\<dots> = deadline_of ` set (ct_isolate t')"
    unfolding iso using key by blast
  finally have "set (ct_deadlines t') = deadline_of ` set (ct_isolate t')" .
  moreover have "inj_on (\<lambda>x. pi_order (snd x)) (set (ct_isolate t'))"
    unfolding iso using inj by (rule inj_on_diff)
  moreover have "bt_sorted (ct_isolate t')" "bt_sorted (ct_deadlines t')"
    unfolding t' using ok by (auto simp: isolate_ok_def)
  moreover have "\<forall>x \<in> set (ct_isolate t'). pi_call_id (snd x) = fst x \<and> fst x < a
      \<and> cause_in F b (pi_cause (snd x)) \<and> pi_order (snd x) < c"
    using ok by (simp add: iso isolate_ok_def)
  ultimately show ?thesis by (simp add: isolate_ok_def)
qed

lemma table_ok_step: "core_step F K K' \<Longrightarrow> table_ok F K \<Longrightarrow> fate_ok K \<Longrightarrow> table_ok F K'"
proof (induction rule: core_step.induct)
  case (CsInsert p K t)
  then have "pi_call_id p < co_next_call K" by (simp add: fate_ok_def)
  with CsInsert insert_isolate_ok [OF _ CsInsert.hyps(5)] insert_isolate_sel(3) [OF CsInsert.hyps(5)]
  show ?case by (simp add: table_ok_def driver_ok_cong [of t "co_calls K"])
next
  case (CsTake c K p t)
  with remove_isolate_ok [OF _ CsTake.hyps(1)] remove_isolate_sel(3) [OF CsTake.hyps(1)]
  show ?case by (simp add: table_ok_def driver_ok_cong [of t "co_calls K"])
next
  case (CsDriverInsert d K t)
  with insert_driver_ok [OF _ CsDriverInsert.hyps(1)] insert_driver_sel(2,3) [OF CsDriverInsert.hyps(1)]
  show ?case by (simp add: table_ok_def isolate_ok_cong [of t "co_calls K"])
next
  case (CsDriverRemove c K d t)
  with remove_driver_ok [OF _ CsDriverRemove.hyps(1)] remove_driver_sel(3,4) [OF CsDriverRemove.hyps(1)]
  show ?case by (simp add: table_ok_def isolate_ok_cong [of t "co_calls K"])
qed (auto simp: table_ok_def elim: driver_ok_mono isolate_ok_mono)

subsection \<open>Fate of calls\<close>

lemma in_flight_sel:
  "in_flight K' = in_flight K" if "co_open K' = co_open K" "ct_isolate (co_calls K') = ct_isolate (co_calls K)"
  using that by (simp add: in_flight_def)

lemma fate_ok_frame:
  assumes "fate_ok K" "co_open K' = co_open K" "ct_isolate (co_calls K') = ct_isolate (co_calls K)"
    "co_next_call K \<le> co_next_call K'"
    "\<And>c. attempts c (kinds_of K') = attempts c (kinds_of K)" "\<And>c. endings c (kinds_of K') = endings c (kinds_of K)"
  shows "fate_ok K'"
  using assms in_flight_sel [OF assms(2,3)] unfolding fate_ok_def by simp (meson less_le_trans)

lemma fate_ok_flow:
  assumes "fate_ok K" "in_flight K' = in_flight K" "co_next_call K' = co_next_call K"
    "co_open K' \<inter> fst ` set (ct_isolate (co_calls K')) = {}" "\<forall>c \<in> co_open K'. c < co_next_call K'"
    "kinds_of K' = kinds_of K"
  shows "fate_ok K'"
  using assms unfolding fate_ok_def by simp

lemma fate_in_flight:
  assumes "fate_ok K" "c \<in> in_flight K"
  shows "attempts c (kinds_of K) = 1" "endings c (kinds_of K) = []" "c < co_next_call K"
proof -
  have "attempts c (kinds_of K) \<noteq> 0" using assms unfolding fate_ok_def by metis
  with assms show "attempts c (kinds_of K) = 1" "endings c (kinds_of K) = []" "c < co_next_call K"
    unfolding fate_ok_def by metis+
qed

lemma fate_cases:
  assumes "fate_ok K" "c \<notin> in_flight K"
  shows "attempts c (kinds_of K) = 0 \<and> endings c (kinds_of K) = []
    \<or> attempts c (kinds_of K) = 1 \<and> c < co_next_call K \<and> settlement c (endings c (kinds_of K))"
  using assms unfolding fate_ok_def by metis

lemma fate_okI:
  assumes "co_open K \<inter> fst ` set (ct_isolate (co_calls K)) = {}"
    and "\<And>c. c \<in> in_flight K \<Longrightarrow>
      attempts c (kinds_of K) = 1 \<and> endings c (kinds_of K) = [] \<and> c < co_next_call K"
    and "\<And>c. c \<notin> in_flight K \<Longrightarrow> attempts c (kinds_of K) = 0 \<and> endings c (kinds_of K) = []
      \<or> attempts c (kinds_of K) = 1 \<and> c < co_next_call K \<and> settlement c (endings c (kinds_of K))"
  shows "fate_ok K"
  unfolding fate_ok_def
proof (intro conjI allI impI ballI)
  fix c assume "c \<in> co_open K"
  then show "c < co_next_call K" using assms(2) [of c] by (simp add: in_flight_def)
next
  fix c assume "attempts c (kinds_of K) = 0"
  then show "c \<notin> in_flight K" "endings c (kinds_of K) = []" using assms(2,3) [of c] by auto
next
  fix c assume "attempts c (kinds_of K) \<noteq> 0"
  then show "attempts c (kinds_of K) = 1" "c < co_next_call K"
    "if c \<in> in_flight K then endings c (kinds_of K) = [] else settlement c (endings c (kinds_of K))"
    using assms(2,3) [of c] by (cases "c \<in> in_flight K"; force)+
qed (rule assms(1))

lemma fate_ok_attempt:
  assumes "fate_ok K"
  shows "fate_ok ((c_log isolate cause (CallDispatchAttempted (co_next_call K) kind) K)
            \<lparr>co_next_call := co_next_call K + 1,
             co_open := (if kind = KindIsolateCall then insert (co_next_call K) (co_open K) else co_open K)\<rparr>)"
    (is "fate_ok ?K")
proof (rule fate_okI)
  let ?c = "co_next_call K"
  have fresh: "?c \<notin> in_flight K" using fate_in_flight(3) [OF assms] by blast
  then have new: "attempts ?c (kinds_of K) = 0" "endings ?c (kinds_of K) = []"
    using fate_cases [OF assms fresh] by auto
  have flight: "in_flight ?K = (if kind = KindIsolateCall then insert ?c (in_flight K) else in_flight K)"
    by (auto simp: in_flight_def)
  show "co_open ?K \<inter> fst ` set (ct_isolate (co_calls ?K)) = {}"
    using assms fresh by (auto simp: fate_ok_def in_flight_def)
  show "attempts c (kinds_of ?K) = 1 \<and> endings c (kinds_of ?K) = [] \<and> c < co_next_call ?K"
    if "c \<in> in_flight ?K" for c
    using that [unfolded flight] fate_in_flight [OF assms, of c] new by (auto split: if_splits)
  show "attempts c (kinds_of ?K) = 0 \<and> endings c (kinds_of ?K) = []
      \<or> attempts c (kinds_of ?K) = 1 \<and> c < co_next_call ?K \<and> settlement c (endings c (kinds_of ?K))"
    if "c \<notin> in_flight ?K" for c
  proof (cases "c = ?c")
    case True with that [unfolded flight] new show ?thesis by (auto split: if_splits)
  next
    case False
    with that [unfolded flight] have "c \<notin> in_flight K" by (auto split: if_splits)
    from fate_cases [OF assms this] False show ?thesis by auto
  qed
qed

lemma fate_ok_settle:
  assumes ok: "fate_ok K" and c: "c \<in> co_open K" and s: "settlement c kinds"
  shows "fate_ok ((fold (c_log isolate cause) kinds K)\<lparr>co_open := co_open K - {c}\<rparr>)" (is "fate_ok ?K")
proof (rule fate_okI)
  have disj: "co_open K \<inter> fst ` set (ct_isolate (co_calls K)) = {}" using ok by (simp add: fate_ok_def)
  with c have flight: "in_flight ?K = in_flight K - {c}" by (auto simp: in_flight_def)
  have cin: "c \<in> in_flight K" using c by (simp add: in_flight_def)
  show "co_open ?K \<inter> fst ` set (ct_isolate (co_calls ?K)) = {}" using disj by auto
  show "attempts d (kinds_of ?K) = 1 \<and> endings d (kinds_of ?K) = [] \<and> d < co_next_call ?K"
    if "d \<in> in_flight ?K" for d
    using that [unfolded flight] fate_in_flight [OF ok, of d] s by auto
  show "attempts d (kinds_of ?K) = 0 \<and> endings d (kinds_of ?K) = []
      \<or> attempts d (kinds_of ?K) = 1 \<and> d < co_next_call ?K \<and> settlement d (endings d (kinds_of ?K))"
    if "d \<notin> in_flight ?K" for d
  proof (cases "d = c")
    case True with fate_in_flight [OF ok cin] s show ?thesis by simp
  next
    case False
    with that [unfolded flight] have "d \<notin> in_flight K" by simp
    from fate_cases [OF ok this] False s show ?thesis by simp
  qed
qed

lemma fate_ok_step: "core_step F K K' \<Longrightarrow> fate_ok K \<Longrightarrow> table_ok F K \<Longrightarrow> fate_ok K'"
proof (induction rule: core_step.induct)
  case (CsAttempt cause K isolate kind)
  show ?case using CsAttempt.prems(1) by (rule fate_ok_attempt)
next
  case (CsInsert p K t)
  note t = insert_isolate_sel [OF CsInsert.hyps(5)]
  have "in_flight (K\<lparr>co_calls := t, co_open := co_open K - {pi_call_id p}\<rparr>) = in_flight K"
    using CsInsert.hyps(1) by (auto simp: in_flight_def t(1))
  then show ?case using CsInsert
    by (intro fate_ok_flow [OF CsInsert.prems(1)]) (auto simp: fate_ok_def t(1))
next
  case (CsTake c K p t)
  note t = remove_isolate_sel [OF CsTake.hyps(1)]
  have c: "c \<in> fst ` set (ct_isolate (co_calls K))"
    using map_of_SomeD [OF t(4)] by force
  have keys: "fst ` set (ct_isolate t) = fst ` set (ct_isolate (co_calls K)) - {c}"
    by (auto simp: t(1) bt_remove_set)
  have "in_flight (K\<lparr>co_calls := t, co_open := insert c (co_open K)\<rparr>) = in_flight K"
    using c by (auto simp: in_flight_def keys)
  moreover have "c < co_next_call K"
    using CsTake.prems(2) c by (auto simp: table_ok_def isolate_ok_def)
  ultimately show ?case using CsTake
    by (intro fate_ok_flow [OF CsTake.prems(1)]) (auto simp: fate_ok_def keys)
next
  case (CsSettle c K kinds cause isolate)
  show ?case using CsSettle.prems(1) CsSettle.hyps(1,2) by (rule fate_ok_settle)
next
  case (CsLog kind cause K isolate)
  then show ?case by (intro fate_ok_frame [OF CsLog.prems(1)]) simp_all
next
  case (CsEntry i K e)
  show ?case by (intro fate_ok_frame [OF CsEntry.prems(1)]) simp_all
next
  case (CsRegister e K)
  show ?case by (intro fate_ok_frame [OF CsRegister.prems(1)]) simp_all
next
  case (CsStop i K e cause isolate)
  show ?case by (intro fate_ok_frame [OF CsStop.prems(1)]) simp_all
next
  case (CsNumber K)
  show ?case by (intro fate_ok_frame [OF CsNumber.prems(1)]) simp_all
next
  case (CsOrdinal K)
  show ?case by (intro fate_ok_frame [OF CsOrdinal.prems(1)]) simp_all
next
  case (CsDriverInsert d K t)
  have "ct_isolate t = ct_isolate (co_calls K)"
    by (rule insert_driver_sel(2) [OF CsDriverInsert.hyps(1)])
  then show ?case by (intro fate_ok_frame [OF CsDriverInsert.prems(1)]) simp_all
next
  case (CsDriverRemove c K d t)
  have "ct_isolate t = ct_isolate (co_calls K)"
    by (rule remove_driver_sel(3) [OF CsDriverRemove.hyps(1)])
  then show ?case by (intro fate_ok_frame [OF CsDriverRemove.prems(1)]) simp_all
qed

subsection \<open>Kept trace\<close>

lemma drop_rotate:
  assumes "drop m xs = drop n ys" "m < length xs" "n \<le> length ys"
  shows "n < length ys \<and> drop (Suc m) (xs @ [e]) = drop (Suc n) (ys @ [e])"
proof -
  have "length (drop m xs) = length (drop n ys)" using assms(1) by simp
  with assms(2) have n: "n < length ys" by simp
  have "drop (Suc k) zs = tl (drop k zs)" for k and zs :: "'a list" by (simp add: drop_Suc tl_drop)
  with assms(1) have "drop (Suc m) xs = drop (Suc n) ys" by metis
  with n assms(2) show ?thesis by simp
qed

lemma keep_event_ok: "kept_ok events k \<Longrightarrow> kept_ok (events @ [e]) (keep_event e k)"
proof -
  obtain policy buffer start dropped where k: "k = (policy, buffer, start, dropped)" by (cases k)
  assume ok: "kept_ok events k"
  then have view: "start \<le> length buffer" "dropped \<le> length events" "drop start buffer = drop dropped events"
    by (simp_all add: k kept_ok_def)
  show ?thesis
  proof (cases policy)
    case RetainFull
    with view show ?thesis by (simp add: k kept_ok_def keep_event_def)
  next
    case (RetainBounded c)
    with ok have c: "length buffer - start \<le> c" "start < max c 1" by (simp_all add: k kept_ok_def)
    consider "c = 0" | "c > 0" "length buffer - start < c" | "c > 0" "length buffer - start = c" using c by linarith
    then show ?thesis
    proof cases
      case 1
      with view c have "dropped = length events" "start = length buffer" by simp_all
      with 1 c RetainBounded view show ?thesis by (simp add: k kept_ok_def keep_event_def)
    next
      case 2
      with view c RetainBounded show ?thesis by (simp add: k kept_ok_def keep_event_def)
    next
      case 3
      then have "start < length buffer" by simp
      moreover have "length buffer - start = length events - dropped"
        using arg_cong [OF view(3), of length] by simp
      ultimately show ?thesis
        using drop_rotate [OF view(3) _ view(2), of e] 3 c RetainBounded by (auto simp: k kept_ok_def keep_event_def)
    qed
  next
    case RetainOff
    with ok view have "dropped = length events" by (simp add: k kept_ok_def)
    with RetainOff ok show ?thesis by (auto simp: k kept_ok_def keep_event_def)
  qed
qed

lemma trace_ok_log [simp]: "trace_ok K \<Longrightarrow> trace_ok (c_log i c k K)"
  by (simp add: trace_ok_def c_log_def Let_def keep_event_ok)

lemma trace_ok_logs: "trace_ok K \<Longrightarrow> trace_ok (fold (c_log i c) ks K)"
  by (induction ks arbitrary: K) simp_all

lemma trace_ok_update [simp]:
  "trace_ok (K\<lparr>co_entries := x1\<rparr>) = trace_ok K" "trace_ok (K\<lparr>co_indexes := x2\<rparr>) = trace_ok K"
  "trace_ok (K\<lparr>co_next_isolate := x3\<rparr>) = trace_ok K" "trace_ok (K\<lparr>co_next_call := x4\<rparr>) = trace_ok K"
  "trace_ok (K\<lparr>co_next_ordinal := x5\<rparr>) = trace_ok K" "trace_ok (K\<lparr>co_calls := x6\<rparr>) = trace_ok K"
  "trace_ok (K\<lparr>co_open := x7\<rparr>) = trace_ok K"
  by (simp_all add: trace_ok_def)

lemma trace_ok_step: "core_step F K K' \<Longrightarrow> trace_ok K \<Longrightarrow> trace_ok K'"
  by (induction rule: core_step.induct) (simp_all add: trace_ok_logs)

theorem core_inv_step: "core_step F K K' \<Longrightarrow> core_inv F K \<Longrightarrow> core_inv F K'"
  unfolding core_inv_def by (blast intro: log_ok_step registry_ok_step table_ok_step fate_ok_step trace_ok_step)

theorem core_inv_steps: "core_steps F K K' \<Longrightarrow> core_inv F K \<Longrightarrow> core_inv F K'"
  by (induction rule: rtranclp_induct) (auto intro: core_inv_step)

end
