(* ===== verification/Rt_Refine.thy ===== *)
theory Rt_Refine
  imports Rt_Ledger
begin

text \<open>
  The operations of the runtime refine the ledger machine of theory \<open>Rt_Ledger\<close>. A program that may
  panic is an option; \<open>ok m Q\<close> says that \<open>Q\<close> holds of its result if it returns. \<open>good\<close> says that the
  state has been reached from \<open>K\<close> by steps of the machine, and that the events in \<open>C\<close> may be named as
  causes. The collection \<open>wp\<close> holds the rules that follow the text of a program.
\<close>

named_theorems wp

section \<open>Programs that may panic\<close>

definition ok :: "'a option \<Rightarrow> ('a \<Rightarrow> bool) \<Rightarrow> bool" where
  "ok m Q \<longleftrightarrow> (\<forall>x. m = Some x \<longrightarrow> Q x)"

lemma okD: "ok m Q \<Longrightarrow> m = Some x \<Longrightarrow> Q x"
  by (simp add: ok_def)

lemma okI: "(\<And>x. m = Some x \<Longrightarrow> Q x) \<Longrightarrow> ok m Q"
  by (simp add: ok_def)

lemma ok_conseq: "ok m P \<Longrightarrow> (\<And>x. P x \<Longrightarrow> Q x) \<Longrightarrow> ok m Q"
  by (simp add: ok_def)

lemma ok_conseq2: "ok m (\<lambda>(a, b). P a b) \<Longrightarrow> (\<And>a b. P a b \<Longrightarrow> Q (a, b)) \<Longrightarrow> ok m Q"
  by (auto simp: ok_def)

lemma ok_Some [wp]: "Q x \<Longrightarrow> ok (Some x) Q"
  by (simp add: ok_def)

lemma ok_None [wp]: "ok None Q"
  by (simp add: ok_def)

lemma ok_bind [wp]: "ok m (\<lambda>x. ok (f x) Q) \<Longrightarrow> ok (m \<bind> f) Q"
  by (auto simp: ok_def Option.bind_eq_Some_conv)

lemma ok_pair [wp]: "ok (f a b) Q \<Longrightarrow> ok (case (a, b) of (x, y) \<Rightarrow> f x y) Q"
  by simp

lemma ok_if [wp]: "(b \<Longrightarrow> ok x Q) \<Longrightarrow> (\<not> b \<Longrightarrow> ok y Q) \<Longrightarrow> ok (if b then x else y) Q"
  by simp

lemma ok_option [wp]:
  "(m = None \<Longrightarrow> ok x Q) \<Longrightarrow> (\<And>a. m = Some a \<Longrightarrow> ok (f a) Q) \<Longrightarrow> ok (case m of None \<Rightarrow> x | Some a \<Rightarrow> f a) Q"
  by (cases m) simp_all

lemma ok_sum [wp]:
  "(\<And>a. m = Inl a \<Longrightarrow> ok (f a) Q) \<Longrightarrow> (\<And>a. m = Inr a \<Longrightarrow> ok (g a) Q)
     \<Longrightarrow> ok (case m of Inl a \<Rightarrow> f a | Inr a \<Rightarrow> g a) Q"
  by (cases m) simp_all

lemma ok_map_option [wp]: "ok m (\<lambda>x. Q (f x)) \<Longrightarrow> ok (map_option f m) Q"
  by (auto simp: ok_def)

lemma ok_foldM:
  assumes "P s" "\<And>x s. x \<in> set xs \<Longrightarrow> P s \<Longrightarrow> ok (f x s) P"
  shows "ok (foldM f xs s) P"
  using assms
proof (induction xs arbitrary: s)
  case (Cons x xs)
  have "ok (f x s) P" using Cons.prems by simp
  then have "ok (f x s) (\<lambda>s. ok (foldM f xs s) P)"
    by (rule ok_conseq) (rule Cons.IH, simp_all add: Cons.prems(2))
  then show ?case by (simp add: ok_bind)
qed (simp add: ok_Some)

lemma ok_get_entry [wp]:
  "(\<And>e. get_entry i s = Some e \<Longrightarrow> Q e) \<Longrightarrow> ok (get_entry i s) Q"
  by (simp add: ok_def)

section \<open>States reached by the machine\<close>

definition good :: "nat set \<Rightarrow> ('h, 'm) core \<Rightarrow> nat set \<Rightarrow> nat set \<Rightarrow> ('h, 'm, 'd) rt \<Rightarrow> bool" where
  "good F K C L s \<longleftrightarrow> core_inv F K \<and> core_steps F K (core_of L s)
     \<and> (\<forall>c \<in> C. cause_in F (rt_next_event s) c)"

lemma good_inv: "good F K C L s \<Longrightarrow> core_inv F (core_of L s)"
  unfolding good_def using core_inv_steps by blast

lemma good_weaken: "good F K C L s \<Longrightarrow> C' \<subseteq> C \<Longrightarrow> good F K C' L s"
  by (auto simp: good_def)

lemma good_insertD: "good F K (insert c C) L s \<Longrightarrow> good F K C L s"
  by (auto simp: good_def)

lemma good_insert: "good F K C L s \<Longrightarrow> cause_in F (rt_next_event s) c \<Longrightarrow> good F K (insert c C) L s"
  by (simp add: good_def)

text \<open>
  At the end of an operation the events it has named as causes are forgotten. \<open>fin\<close> is \<open>good\<close>; the
  rule for it looks for any larger set of causes.
\<close>

definition fin :: "nat set \<Rightarrow> ('h, 'm) core \<Rightarrow> nat set \<Rightarrow> nat set \<Rightarrow> ('h, 'm, 'd) rt \<Rightarrow> bool" where
  "fin = good"

lemma finI [wp]: "good F K D L s \<Longrightarrow> C \<subseteq> D \<Longrightarrow> fin F K C L s"
  unfolding fin_def by (rule good_weaken)

lemma ok_fin: "ok m (fin F K C L) \<Longrightarrow> ok m (good F K C L)"
  by (simp add: fin_def)

lemma ok_fin2: "ok m (\<lambda>(r, s). fin F K C L s) \<Longrightarrow> ok m (\<lambda>(r, s). good F K C L s)"
  by (simp add: fin_def)

lemma ok_fin3: "ok m (\<lambda>(q, r, s). fin F K C L s) \<Longrightarrow> ok m (\<lambda>(q, r, s). good F K C L s)"
  by (simp add: fin_def)

lemma pairI [wp]: "P a b \<Longrightarrow> (case (a, b) of (x, y) \<Rightarrow> P x y)"
  by simp

lemma core_step_event_mono: "core_step F K K' \<Longrightarrow> co_next_event K \<le> co_next_event K'"
  by (induction rule: core_step.induct) simp_all

lemma good_step:
  assumes "good F K C L s" "core_step F (core_of L s) (core_of L' s')"
  shows "good F K C L' s'"
proof -
  have "rt_next_event s \<le> rt_next_event s'" using core_step_event_mono [OF assms(2)] by simp
  with assms show ?thesis unfolding good_def by (meson cause_in_mono rtranclp.rtrancl_into_rtrancl)
qed

lemma good_same:
  assumes "core_of L s' = core_of L s" shows "good F K C L s' = good F K C L s"
proof -
  have "rt_next_event s' = rt_next_event s" using arg_cong [OF assms, of co_next_event] by simp
  with assms show ?thesis by (simp add: good_def)
qed

lemma core_of_update [simp]:
  "core_of L (s\<lparr>rt_world := x1\<rparr>) = core_of L s" "core_of L (s\<lparr>rt_completions := x2\<rparr>) = core_of L s"
  "core_of L (s\<lparr>rt_slots := x3\<rparr>) = core_of L s" "core_of L (s\<lparr>rt_children := x4\<rparr>) = core_of L s"
  "core_of L (s\<lparr>rt_supervisors := x5\<rparr>) = core_of L s" "core_of L (s\<lparr>rt_captures := x6\<rparr>) = core_of L s"
  "core_of L (s\<lparr>rt_notices := x7\<rparr>) = core_of L s" "core_of L (s\<lparr>rt_pending_spawns := x8\<rparr>) = core_of L s"
  "core_of L (s\<lparr>rt_has_stopped := x9\<rparr>) = core_of L s" "core_of L (s\<lparr>rt_slot_cells := x10\<rparr>) = core_of L s"
  "core_of L (s\<lparr>rt_next_slot := x11\<rparr>) = core_of L s" "core_of L (s\<lparr>rt_handles := x12\<rparr>) = core_of L s"
  "core_of L (s\<lparr>rt_cancelled := x13\<rparr>) = core_of L s" "core_of L (s\<lparr>rt_evictions := x14\<rparr>) = core_of L s"
  "core_of L (s\<lparr>rt_unsupported := x15\<rparr>) = core_of L s" "core_of L (s\<lparr>rt_tombstones := x16\<rparr>) = core_of L s"
  "core_of L (s\<lparr>rt_control_full := x17\<rparr>) = core_of L s"
  by (simp_all add: core_of_def kept_of_def)

lemmas good_update [wp] = core_of_update [THEN good_same, THEN iffD2]

lemma core_of_misc [simp]:
  "core_of L (set_slot_state i st s) = core_of L s" "core_of L (set_handle_state h hst s) = core_of L s"
  "core_of L (record_cancelled_call c why s) = core_of L s" "core_of L (notify n s) = core_of L s"
  "core_of L (capture_caller caller s) = core_of L s"
  by (simp_all add: set_slot_state_def set_handle_state_def record_cancelled_call_def notify_def
        capture_caller_def Let_def split: option.split)

lemmas good_misc [wp] = core_of_misc [THEN good_same, THEN iffD2]

lemma core_of_clock [simp]: "core_of L (snd (clock_now E s)) = core_of L s"
  by (simp add: clock_now_def split: prod.split)

lemma good_foldM [THEN ok_conseq, wp]:
  "good F K C L s \<Longrightarrow> (\<And>x s. x \<in> set xs \<Longrightarrow> good F K C L s \<Longrightarrow> ok (f x s) (good F K C L))
     \<Longrightarrow> ok (foldM f xs s) (good F K C L)"
  by (rule ok_foldM)

lemma good_if [wp]:
  "(b \<Longrightarrow> good F K C L x) \<Longrightarrow> (\<not> b \<Longrightarrow> good F K C L y) \<Longrightarrow> good F K C L (if b then x else y)"
  by simp

lemma good_option [wp]:
  "(m = None \<Longrightarrow> good F K C L x) \<Longrightarrow> (\<And>a. m = Some a \<Longrightarrow> good F K C L (f a))
     \<Longrightarrow> good F K C L (case m of None \<Rightarrow> x | Some a \<Rightarrow> f a)"
  by (cases m) simp_all

lemma good_sum [wp]:
  "(\<And>a. m = Inl a \<Longrightarrow> good F K C L (f a)) \<Longrightarrow> (\<And>a. m = Inr a \<Longrightarrow> good F K C L (g a))
     \<Longrightarrow> good F K C L (case m of Inl a \<Rightarrow> f a | Inr a \<Rightarrow> g a)"
  by (cases m) simp_all

lemma good_send_error [wp]:
  "(\<And>a. m = SendFull a \<Longrightarrow> good F K C L (f a)) \<Longrightarrow> (\<And>a. m = SendClosed a \<Longrightarrow> good F K C L (g a))
     \<Longrightarrow> good F K C L (case m of SendFull a \<Rightarrow> f a | SendClosed a \<Rightarrow> g a)"
  by (cases m) simp_all

section \<open>Events\<close>

lemma kept_of_retain: "kept_of (retain_event e s) = keep_event e (kept_of s)"
  by (auto simp: kept_of_def keep_event_def retain_event_def compact_trace_prefix_def active_trace_len_def
        Let_def split: trace_retention.split)

lemma retain_event_core: "core_of L (retain_event e s) = (core_of L s)\<lparr>co_kept := keep_event e (kept_of s)\<rparr>"
  unfolding kept_of_retain [symmetric]
  by (auto simp: core_of_def retain_event_def compact_trace_prefix_def Let_def split: trace_retention.split)

lemma core_of_log: "core_of L (log_event i c k s) = c_log i c k (core_of L s)"
  unfolding push_event_def Let_def snd_conv retain_event_core c_log_def by (simp add: core_of_def)

lemma push_event_id [simp]: "fst (push_event i c k s) = rt_next_event s"
  by (simp add: push_event_def Let_def)

lemma core_of_eqD:
  assumes "core_of L s' = K"
  shows "rt_system s' = co_system K" "rt_shard s' = co_shard K" "rt_entries s' = co_entries K"
    "rt_indexes s' = co_indexes K" "rt_next_isolate s' = co_next_isolate K"
    "rt_next_event s' = co_next_event K" "rt_next_call s' = co_next_call K"
    "rt_next_ordinal s' = co_next_ordinal K" "rt_observed s' = co_events K" "rt_calls s' = co_calls K"
  using assms by auto

lemma log_event_sel [simp]:
  "rt_system (log_event i c k s) = rt_system s" "rt_shard (log_event i c k s) = rt_shard s"
  "rt_entries (log_event i c k s) = rt_entries s" "rt_indexes (log_event i c k s) = rt_indexes s"
  "rt_next_isolate (log_event i c k s) = rt_next_isolate s"
  "rt_next_event (log_event i c k s) = rt_next_event s + 1" "rt_next_call (log_event i c k s) = rt_next_call s"
  "rt_next_ordinal (log_event i c k s) = rt_next_ordinal s" "rt_calls (log_event i c k s) = rt_calls s"
  by (simp_all add: core_of_eqD [OF core_of_log [of "{}"]])

lemma get_entry_log [simp]: "get_entry j (log_event i c k s) = get_entry j s"
  by (simp add: get_entry_def)

lemma entry_index_log [simp]: "entry_index a (log_event i c k s) = entry_index a s"
  by (simp add: entry_index_def)

lemma good_log [wp]:
  "good F K C L s \<Longrightarrow> c \<in> C \<Longrightarrow> neutral k \<Longrightarrow> good F K C L (log_event i (Some c) k s)"
  by (rule good_step) (auto simp: core_of_log good_def intro: CsLog)

lemma good_log_None [wp]: "good F K C L s \<Longrightarrow> neutral k \<Longrightarrow> good F K C L (log_event i None k s)"
  by (rule good_step) (auto simp: core_of_log intro: CsLog)

text \<open>An event whose number is used later: it may be named as a cause from then on.\<close>

lemma ok_push [wp]:
  assumes "good F K C L s" "c \<in> C" "neutral k"
    "\<And>n s'. good F K (insert n C) L s' \<Longrightarrow> \<forall>j. get_entry j s' = get_entry j s \<Longrightarrow> ok (f n s') Q"
  shows "ok (case push_event i (Some c) k s of (n, s') \<Rightarrow> f n s') Q"
    "ok (let (n, s') = push_event i (Some c) k s in f n s') Q"
proof -
  have "good F K (insert (rt_next_event s) C) L (log_event i (Some c) k s)"
    using good_log [OF assms(1-3)] by (rule good_insert) simp
  from assms(4) [OF this] show "ok (case push_event i (Some c) k s of (n, s') \<Rightarrow> f n s') Q"
    "ok (let (n, s') = push_event i (Some c) k s in f n s') Q"
    by (simp_all add: case_prod_unfold)
qed

lemma ok_push_None [wp]:
  assumes "good F K C L s" "neutral k"
    "\<And>n s'. good F K (insert n C) L s' \<Longrightarrow> \<forall>j. get_entry j s' = get_entry j s \<Longrightarrow> ok (f n s') Q"
  shows "ok (let (n, s') = push_event i None k s in f n s') Q"
proof -
  have "good F K (insert (rt_next_event s) C) L (log_event i None k s)"
    using good_log_None [OF assms(1,2)] by (rule good_insert) simp
  from assms(3) [OF this] show ?thesis by (simp add: case_prod_unfold)
qed

lemma ok_clock [wp]:
  assumes "good F K C L s" "\<And>now s'. good F K C L s' \<Longrightarrow> core_of L s' = core_of L s \<Longrightarrow> ok (f now s') Q"
  shows "ok (let (now, s') = clock_now E s in f now s') Q"
proof -
  have "good F K C L (snd (clock_now E s))" using assms(1) good_same [OF core_of_clock] by blast
  from assms(2) [OF this] show ?thesis by (simp add: case_prod_unfold Let_def)
qed

lemma ok_Let_plain: "ok (f v) Q \<Longrightarrow> ok (Let v f) Q"
  by (simp add: Let_def)

lemma ok_case_prod: "(\<And>a b. x = (a, b) \<Longrightarrow> ok (f a b) Q) \<Longrightarrow> ok (case x of (a, b) \<Rightarrow> f a b) Q"
  by (cases x) simp

lemma ok_route_remote [wp]:
  assumes "good F K C L s" "\<And>r s'. good F K C L s' \<Longrightarrow> core_of L s' = core_of L s \<Longrightarrow> Q (r, s')"
  shows "ok (route_remote E env s) Q"
proof (rule okI)
  fix x assume "route_remote E env s = Some x"
  then obtain r w where "x = (r, s\<lparr>rt_world := w\<rparr>)" by (auto simp: route_remote_def Option.bind_eq_Some_conv)
  then show "Q x" using assms(2) [of "s\<lparr>rt_world := w\<rparr>" r] good_update(1) [OF assms(1)] by simp
qed

section \<open>Entries\<close>

definition quieter :: "'m any_mailbox \<Rightarrow> 'm any_mailbox \<Rightarrow> bool" where
  "quieter q q' \<longleftrightarrow> (am_closed q \<longrightarrow>
     am_closed q' \<and> length (dm_queue (am_mailbox q')) \<le> length (dm_queue (am_mailbox q)))"

lemma quieter_ops:
  "quieter q (snd (am_try_send m q))" "quieter q (snd (am_recv q))" "quieter q (snd (am_try_reserve q))"
  "quieter q (am_release q)"
  by (auto simp: quieter_def am_try_send_def am_recv_def dm_recv_def am_try_reserve_def am_release_def
        dm_release_reserved_def split: prod.splits sum.splits try_send_error.splits list.splits)

lemma quieter_recv_empty: "am_recv q = (None, q') \<Longrightarrow> q' = q \<and> dm_queue (am_mailbox q) = []"
  by (auto simp: am_recv_def dm_recv_def split: list.splits)

lemma entry_evolves_refl [simp]: "entry_evolves e e"
  by (simp add: entry_evolves_def)

lemma good_set_entry:
  assumes "good F K C L s" "get_entry i s = Some e" "entry_evolves e e'"
  shows "good F K C L (set_entry i e' s)"
proof (rule good_step [OF assms(1)])
  have "core_of L (set_entry i e' s) = (core_of L s)\<lparr>co_entries := (co_entries (core_of L s))[i := e']\<rparr>"
    by (simp add: core_of_def set_entry_def)
  then show "core_step F (core_of L s) (core_of L (set_entry i e' s))"
    using assms(2,3) CsEntry [of i "core_of L s" e' F] by (simp add: get_entry_def split: if_splits)
qed

text \<open>Every operation that touches one entry has the same shape.\<close>

definition touches :: "nat \<Rightarrow> ('h, 'm, 'd) rt \<Rightarrow> ('h, 'm, 'd) rt \<Rightarrow> bool" where
  "touches i s s' \<longleftrightarrow> (\<exists>e e'. get_entry i s = Some e \<and> entry_evolves e e' \<and> s' = set_entry i e' s)"

lemma touchesI: "get_entry i s = Some e \<Longrightarrow> entry_evolves e e' \<Longrightarrow> touches i s (set_entry i e' s)"
  by (auto simp: touches_def)

lemma good_touches: "good F K C L s \<Longrightarrow> touches i s s' \<Longrightarrow> good F K C L s'"
  by (auto simp: touches_def intro: good_set_entry)

lemma am_try_send_closed: "am_closed q \<Longrightarrow> am_try_send m q = (Inl (SendClosed m), q)"
  by (simp add: am_try_send_def)

lemma enqueue_entry_touches:
  assumes "enqueue_entry_message i m c s = Some (r, s')"
  shows "touches i s s'"
proof -
  obtain e where e: "get_entry i s = Some e"
    using assms by (auto simp: enqueue_entry_message_def Option.bind_eq_Some_conv)
  obtain r0 q where send: "am_try_send m (en_mailbox e) = (r0, q)" by fastforce
  have q: "quieter (en_mailbox e) q" using quieter_ops(1) [of "en_mailbox e" m] send by simp
  show ?thesis
    using assms e send q am_try_send_closed [of "en_mailbox e" m]
    by (cases r0) (auto simp: enqueue_entry_message_def entry_evolves_def quieter_def intro!: touchesI)
qed

lemma enqueue_continuation_touches:
  assumes "enqueue_call_continuation i m c s = Some (r, s')"
  shows "touches i s s'"
proof -
  obtain e where e: "get_entry i s = Some e"
    using assms by (auto simp: enqueue_call_continuation_def Option.bind_eq_Some_conv)
  obtain r0 q where send: "am_try_send m (en_mailbox e) = (r0, q)" by fastforce
  have q: "quieter (en_mailbox e) q" using quieter_ops(1) [of "en_mailbox e" m] send by simp
  show ?thesis
    using assms e send q am_try_send_closed [of "en_mailbox e" m]
    by (cases r0) (auto simp: enqueue_call_continuation_def entry_evolves_def quieter_def
          split: try_send_error.splits intro!: touchesI)
qed

lemma recv_entry_touches:
  assumes "recv_entry_message i s = Some (r, s')"
  shows "touches i s s'"
proof -
  obtain e where e: "get_entry i s = Some e"
    using assms by (auto simp: recv_entry_message_def Option.bind_eq_Some_conv)
  obtain r0 q where recv: "am_recv (en_mailbox e) = (r0, q)" by fastforce
  have q: "quieter (en_mailbox e) q" using quieter_ops(2) [of "en_mailbox e"] recv by simp
  show ?thesis
    using assms e recv q
    by (auto simp: recv_entry_message_def entry_evolves_def quieter_def
          split: list.splits option.splits intro!: touchesI)
qed

lemma ok_enqueue_entry: "good F K C L s \<Longrightarrow> ok (enqueue_entry_message i m c s) (\<lambda>(r, s'). good F K C L s')"
  and ok_enqueue_continuation: "good F K C L s \<Longrightarrow> ok (enqueue_call_continuation i m c s) (\<lambda>(r, s'). good F K C L s')"
  and ok_recv_entry: "good F K C L s \<Longrightarrow> ok (recv_entry_message i s) (\<lambda>(r, s'). good F K C L s')"
  by (auto simp: ok_def intro: good_touches enqueue_entry_touches enqueue_continuation_touches recv_entry_touches)

lemmas ok_entry_ops [wp] = ok_enqueue_entry [THEN ok_conseq2] ok_enqueue_continuation [THEN ok_conseq2]
  ok_recv_entry [THEN ok_conseq2]

lemma ok_dispatch_local_send_with_context:
  "good F K C L s \<Longrightarrow> ok (dispatch_local_send_with_context send c s) (\<lambda>(r, s'). good F K C L s')"
  unfolding dispatch_local_send_with_context_def
  by (rule wp | assumption | simp)+

lemmas ok_local_send_with_context [wp] = ok_dispatch_local_send_with_context [THEN ok_conseq2]

lemma ok_dispatch_local_send [THEN ok_conseq2, wp]:
  "good F K C L s \<Longrightarrow> ok (dispatch_local_send send s) (\<lambda>(r, s'). good F K C L s')"
  unfolding dispatch_local_send_def by (rule wp | assumption | simp)+

end
