(* ===== verification/Rt_Settle.thy ===== *)
theory Rt_Settle
  imports Rt_Refine
begin

text \<open>
  Refinement of the operations on calls (theory \<open>Rt_Calls\<close>): every way in which an isolate call ends is
  one settlement of the ledger.
\<close>

section \<open>The table\<close>

lemma good_take:
  assumes good: "good F K C L s" and rem: "remove_isolate c (rt_calls s) = Some (p, t)"
  shows "good F K (insert (pi_cause p) C) (insert c L) (s\<lparr>rt_calls := t\<rparr>)" "pi_call_id p = c" "c \<notin> L"
proof -
  have inv: "core_inv F (core_of L s)" using good by (rule good_inv)
  have p: "(c, p) \<in> set (ct_isolate (rt_calls s))"
    using map_of_SomeD [OF remove_isolate_sel(4) [OF rem]] .
  with inv have pc: "pi_call_id p = c" "cause_in F (rt_next_event s) (pi_cause p)"
    by (auto simp: core_inv_def table_ok_def isolate_ok_def)
  then show "pi_call_id p = c" by simp
  show "c \<notin> L" using inv p by (force simp: core_inv_def fate_ok_def)
  have eq: "core_of (insert c L) (s\<lparr>rt_calls := t\<rparr>)
      = (core_of L s)\<lparr>co_calls := t, co_open := insert c (co_open (core_of L s))\<rparr>"
    by (simp add: core_of_def)
  have "core_step F (core_of L s) (core_of (insert c L) (s\<lparr>rt_calls := t\<rparr>))"
    unfolding eq using rem by (intro CsTake) simp
  then have "good F K C (insert c L) (s\<lparr>rt_calls := t\<rparr>)" by (rule good_step [OF good])
  then show "good F K (insert (pi_cause p) C) (insert c L) (s\<lparr>rt_calls := t\<rparr>)"
    using pc by (intro good_insert) simp_all
qed

lemma good_remove_driver:
  assumes good: "good F K C L s" and rem: "remove_driver c (rt_calls s) = Some (d, t)"
  shows "good F K (insert (dh_cause (dc_head d)) C) L (s\<lparr>rt_calls := t\<rparr>)"
    "dh_kind (dc_head d) \<noteq> KindIsolateCall" "dh_call_id (dc_head d) = c"
proof -
  have "(c, d) \<in> set (ct_driver (rt_calls s))"
    using map_of_SomeD [OF remove_driver_sel(2) [OF rem]] .
  then have d: "dh_call_id (dc_head d) = c" "cause_in F (rt_next_event s) (dh_cause (dc_head d))"
    "dh_kind (dc_head d) \<noteq> KindIsolateCall"
    using good_inv [OF good] by (auto simp: core_inv_def table_ok_def driver_ok_def)
  then show "dh_kind (dc_head d) \<noteq> KindIsolateCall" "dh_call_id (dc_head d) = c" by simp_all
  have eq: "core_of L (s\<lparr>rt_calls := t\<rparr>) = (core_of L s)\<lparr>co_calls := t\<rparr>"
    by (simp add: core_of_def)
  have "core_step F (core_of L s) (core_of L (s\<lparr>rt_calls := t\<rparr>))"
    unfolding eq using rem by (intro CsDriverRemove) simp
  then have "good F K C L (s\<lparr>rt_calls := t\<rparr>)" by (rule good_step [OF good])
  then show "good F K (insert (dh_cause (dc_head d)) C) L (s\<lparr>rt_calls := t\<rparr>)"
    using d by (intro good_insert) simp_all
qed

section \<open>Outcomes\<close>

lemma good_settle:
  assumes "good F K C L s" "c \<in> L" "cause \<in> C" "settlement c kinds"
    "core_of L s' = fold (c_log i (Some cause)) kinds (core_of L s)"
  shows "good F K C (L - {c}) s'"
proof (rule good_step [OF assms(1)])
  have eq: "core_of (L - {c}) s' = (core_of L s')\<lparr>co_open := co_open (core_of L s) - {c}\<rparr>"
    by (simp add: core_of_def)
  show "core_step F (core_of L s) (core_of (L - {c}) s')"
    unfolding eq assms(5) using assms(1-4) by (intro CsSettle) (simp_all add: good_def)
qed

lemma good_settle_log:
  "good F K C L s \<Longrightarrow> c \<in> L \<Longrightarrow> cause \<in> C \<Longrightarrow> settlement c [k] \<Longrightarrow> good F K C (L - {c}) (log_event i (Some cause) k s)"
  by (rule good_settle [where i = i and kinds = "[k]"]) (simp_all add: core_of_log)

lemma good_settle_log2:
  "good F K C L s \<Longrightarrow> c \<in> L \<Longrightarrow> cause \<in> C \<Longrightarrow> settlement c [k, k']
     \<Longrightarrow> good F K C (L - {c}) (log_event i (Some cause) k' (log_event i (Some cause) k s))"
  by (rule good_settle [where i = i and kinds = "[k, k']"]) (simp_all add: core_of_log)

lemma core_of_set_entry:
  "core_of L (set_entry i e s) = (core_of L s)\<lparr>co_entries := (co_entries (core_of L s))[i := e]\<rparr>"
  by (simp add: core_of_def set_entry_def)

lemma set_entry_log: "core_of L (set_entry i e (log_event j c k s)) = c_log j c k (core_of L (set_entry i e s))"
  unfolding core_of_set_entry core_of_log by (simp add: c_log_def Let_def)

text \<open>
  A failure is logged before the message is offered to the requester; on the ledger the change of
  the mailbox comes first.
\<close>

lemma good_fail_then_touch:
  assumes good: "good F K C L s" and c: "c \<in> L" "cause \<in> C"
    and touch: "touches i (log_event j (Some cause) (CallFailed c KindIsolateCall e) s) s'"
  shows "good F K C (L - {c}) s'"
    and "good F K C (L - {c}) (log_event j (Some cause) (CallCompletionRejected c KindIsolateCall reason) s')"
proof -
  obtain en en' where en: "get_entry i s = Some en" "entry_evolves en en'"
    and s': "s' = set_entry i en' (log_event j (Some cause) (CallFailed c KindIsolateCall e) s)"
    using touch by (auto simp: touches_def)
  let ?s = "set_entry i en' s"
  have "good F K C L ?s" using good en by (rule good_set_entry)
  moreover have "core_of L s' = fold (c_log j (Some cause)) [CallFailed c KindIsolateCall e] (core_of L ?s)"
    by (simp add: s' set_entry_log)
  moreover have "core_of L (log_event j (Some cause) (CallCompletionRejected c KindIsolateCall reason) s')
      = fold (c_log j (Some cause)) [CallFailed c KindIsolateCall e, CallCompletionRejected c KindIsolateCall reason] (core_of L ?s)"
    by (simp add: s' set_entry_log core_of_log)
  ultimately show "good F K C (L - {c}) s'"
    "good F K C (L - {c}) (log_event j (Some cause) (CallCompletionRejected c KindIsolateCall reason) s')"
    using c by (blast intro: good_settle settlement.intros)+
qed

lemma ok_deliver_isolate_call_outcome [THEN ok_conseq, wp]:
  assumes good: "good F K C L s" and c: "c \<in> L" "cause \<in> C"
  shows "ok (deliver_isolate_call_outcome c requester cause outcome translator context s) (good F K C (L - {c}))"
proof (cases "outcome_failure outcome")
  case None
  have refused: "good F K C (L - {c}) (log_event i (Some cause) (CallCompletionRejected c KindIsolateCall why) s')"
    and completed: "good F K C (L - {c}) (log_event i (Some cause) (CallCompleted c KindIsolateCall) s')"
    if "good F K C L s'" for i why s'
    using that c by (rule good_settle_log, intro settlement.intros)+
  show ?thesis
    unfolding deliver_isolate_call_outcome_def None Let_def option.case
    using good by - (rule refused completed wp | assumption | simp)+
next
  case (Some reason)
  let ?fail = "log_event (ra_isolate requester) (Some cause) (CallFailed c KindIsolateCall reason)"
  have refused: "good F K C (L - {c}) (log_event (ra_isolate requester) (Some cause)
      (CallCompletionRejected c KindIsolateCall why) (?fail s))" for why
    using good c by (rule good_settle_log2) (intro settlement.intros)
  have enqueue: "ok (enqueue_entry_message i m context (?fail s)) (\<lambda>(r, s'). good F K C (L - {c}) s'
      \<and> (\<forall>why. good F K C (L - {c}) (log_event (ra_isolate requester) (Some cause)
             (CallCompletionRejected c KindIsolateCall why) s')))" for i m
    using good_fail_then_touch [OF good c enqueue_entry_touches] by (auto simp: ok_def)
  show ?thesis
    unfolding deliver_isolate_call_outcome_def Some Let_def option.case
    by (rule refused enqueue [THEN ok_conseq2] ok_option ok_if ok_bind ok_get_entry ok_Some ok_pair
          good_sum good_send_error | simp)+
qed

section \<open>Completion, timeout and cancellation\<close>

lemma ok_complete_isolate_call [THEN ok_conseq2, wp]:
  assumes good: "good F K C L s" and c: "cause \<in> C"
  shows "ok (complete_isolate_call call_id cause outcome s) (\<lambda>(r, s'). good F K C L s')"
proof (cases "remove_isolate call_id (rt_calls s)")
  case None
  then show ?thesis using good by (simp add: complete_isolate_call_def ok_def)
next
  case (Some x)
  obtain p t where x: "x = (p, t)" by fastforce
  note take = good_take [OF good Some [unfolded x]]
  have settled: "good F K C L s'" if "good F K (insert (pi_cause p) C) (L - {call_id}) s'" for s'
    using that take(3) by (auto dest: good_insertD)
  show ?thesis
    unfolding complete_isolate_call_def Some x option.case prod.case Let_def
    by (rule wp take(1) | erule settled | simp add: c)+
qed

lemma good_close_deferred_slot [wp]:
  "good F K C L s \<Longrightarrow> good F K C L (close_deferred_slot_for_call_with_reason c reason s)"
  unfolding close_deferred_slot_for_call_with_reason_def
  by (simp split: option.split prod.split) (blast intro: wp neutral.simps [THEN iffD2])

lemma ok_expire_isolate_call [THEN ok_conseq, wp]:
  assumes "good F K C L s" "pi_call_id p \<in> L" "pi_cause p \<in> C"
  shows "ok (expire_isolate_call p s) (good F K C (L - {pi_call_id p}))"
  unfolding expire_isolate_call_def by (rule wp assms | simp add: assms)+

lemma harvest_good:
  assumes "harvest_isolate_call_timeouts now s = Some s'" "good F K C L s"
  shows "good F K C L s'"
proof -
  have "good F K C L s \<longrightarrow> good F K C L s'"
  proof (rule harvest_isolate_call_timeouts.raw_induct
      [where P = "\<lambda>now s s'. good F K C L s \<longrightarrow> good F K C L s'", OF _ assms(1)], goal_cases)
    case (1 f now s s')
    show ?case
    proof
      assume good: "good F K C L s"
      show "good F K C L s'"
      proof (cases "next_due_isolate now (rt_calls s)")
        case None
        with 1(2) good show ?thesis by simp
      next
        case (Some c)
        show ?thesis
        proof (cases "remove_isolate c (rt_calls s)")
          case None
          with Some 1 good show ?thesis by auto
        next
          case (Some x)
          obtain p t where x: "x = (p, t)" by fastforce
          note take = good_take [OF good Some [unfolded x]]
          obtain s1 where s1: "expire_isolate_call p (s\<lparr>rt_calls := t\<rparr>) = Some s1" "f now s1 = Some s'"
            using 1(2) Some x \<open>next_due_isolate now (rt_calls s) = Some c\<close>
            by (auto simp: Option.bind_eq_Some_conv)
          have "good F K (insert (pi_cause p) C) (insert c L - {c}) s1"
            using okD [OF ok_expire_isolate_call [OF take(1)] s1(1)] take(2) by simp
          then have "good F K C L s1" using take(3) by (auto dest: good_insertD)
          with 1(1) [OF s1(2)] show ?thesis by simp
        qed
      qed
    qed
  qed
  with assms(2) show ?thesis by simp
qed

lemma ok_harvest [THEN ok_conseq, wp]:
  "good F K C L s \<Longrightarrow> ok (harvest_isolate_call_timeouts now s) (good F K C L)"
  by (auto simp: ok_def intro: harvest_good)

lemma remove_isolates_good:
  assumes "good F K C L s" "remove_isolates ids (rt_calls s) = Some (calls, t)"
  shows "good F K (C \<union> pi_cause ` set calls) (L \<union> set ids) (s\<lparr>rt_calls := t\<rparr>)
    \<and> map pi_call_id calls = ids \<and> distinct ids \<and> set ids \<inter> L = {}"
  using assms
proof (induction ids arbitrary: C L s calls)
  case Nil
  then have eq: "s\<lparr>rt_calls := t\<rparr> = s" by auto
  show ?case unfolding eq using Nil by simp
next
  case (Cons c ids)
  then obtain p t1 calls1 where 1: "remove_isolate c (rt_calls s) = Some (p, t1)"
    and 2: "remove_isolates ids t1 = Some (calls1, t)" and calls: "calls = p # calls1"
    by (auto simp: Option.bind_eq_Some_conv)
  note take = good_take [OF Cons.prems(1) 1]
  from Cons.IH [OF take(1), of calls1] 2 take(2,3) show ?case
    by (auto simp: calls insert_commute Un_commute)
qed

lemma fold_owner_cancel_good:
  assumes "good F K C (L \<union> pi_call_id ` set calls) s" "pi_cause ` set calls \<subseteq> C" "distinct (map pi_call_id calls)"
    "pi_call_id ` set calls \<inter> L = {}"
  shows "good F K C L (fold (owner_cancel_call owner) calls s)"
  using assms
proof (induction calls arbitrary: s)
  case (Cons p calls)
  have "good F K C (L \<union> pi_call_id ` set (p # calls) - {pi_call_id p}) (owner_cancel_call owner p s)"
    unfolding owner_cancel_call_def
    by (rule good_settle_log) (use Cons.prems in \<open>auto intro!: wp settlement.intros\<close>)
  moreover have "L \<union> pi_call_id ` set (p # calls) - {pi_call_id p} = L \<union> pi_call_id ` set calls"
    using Cons.prems by auto
  ultimately show ?case using Cons.IH [of "owner_cancel_call owner p s"] Cons.prems by simp
qed simp

lemma good_fold_cancelled: "good F K C L s \<Longrightarrow> good F K C L (fold (\<lambda>p. record_cancelled_call (pi_call_id p) why) calls s)"
  by (induction calls arbitrary: s) (auto intro: wp)

lemma ok_cancel_pending_isolate_calls [THEN ok_conseq, wp]:
  assumes "good F K C L s"
  shows "ok (cancel_pending_isolate_calls_for_owner isolate generation s) (good F K C L)"
proof (rule okI)
  fix s' assume "cancel_pending_isolate_calls_for_owner isolate generation s = Some s'"
  then obtain ids owned t where ids: "remove_isolates ids (rt_calls s) = Some (owned, t)"
    and s': "s' = fold (owner_cancel_call isolate) owned
      (fold (\<lambda>entry. record_cancelled_call (pi_call_id entry) OwnerStopped) owned (s\<lparr>rt_calls := t\<rparr>))"
    by (auto simp: cancel_pending_isolate_calls_for_owner_def take_isolate_calls_for_owner_def
          Option.bind_eq_Some_conv)
  note 1 = remove_isolates_good [OF assms ids]
  then have "pi_call_id ` set owned = set ids" by (metis list.set_map)
  with 1 have "good F K (C \<union> pi_cause ` set owned) L s'"
    unfolding s' by (intro fold_owner_cancel_good good_fold_cancelled) auto
  then show "good F K C L s'" by (rule good_weaken) simp
qed

section \<open>Driver calls\<close>

lemma ok_cancel_driver_call [THEN ok_conseq, wp]:
  assumes "good F K C L s"
  shows "ok (cancel_driver_call E c s) (good F K C L)"
proof (rule okI)
  fix s' assume "cancel_driver_call E c s = Some s'"
  then obtain d t where rem: "remove_driver c (rt_calls s) = Some (d, t)" and
    s': "s' = log_event (ra_isolate (dh_requester (dc_head d))) (Some (dh_cause (dc_head d)))
       (CallCompletionRejected (dh_call_id (dc_head d)) (dh_kind (dc_head d)) RequesterClosed)
       (s\<lparr>rt_calls := t, rt_world := env_cancel E (dh_call_id (dc_head d)) (rt_world s),
          rt_completions := filter (\<lambda>(i, _). i \<noteq> c) (rt_completions s)\<rparr>)"
    by (auto simp: cancel_driver_call_def Option.bind_eq_Some_conv Let_def)
  note 1 = good_remove_driver [OF assms rem]
  have "good F K (insert (dh_cause (dc_head d)) C) L s'"
    unfolding s' by (rule wp 1(1) | simp add: 1(2))+
  then show "good F K C L s'" by (rule good_insertD)
qed

lemma ok_cancel_driver_calls [THEN ok_conseq, wp]:
  "good F K C L s \<Longrightarrow> ok (cancel_driver_calls_for_requester E requester s) (good F K C L)"
  unfolding cancel_driver_calls_for_requester_def by (rule wp | assumption)+

section \<open>Deferred replies\<close>

lemma good_fold:
  assumes "good F K C L s" "\<And>x s. x \<in> set xs \<Longrightarrow> good F K C L s \<Longrightarrow> good F K C L (f x s)"
  shows "good F K C L (fold f xs s)"
  using assms by (induction xs arbitrary: s) simp_all

lemma ok_drop_promoted_deferred_slot [THEN ok_conseq, wp]:
  assumes "good F K C L s" "\<forall>c. cause = Some c \<longrightarrow> c \<in> C"
  shows "ok (drop_promoted_deferred_slot cause record s) (good F K C L)"
proof (cases cause)
  case None
  show ?thesis unfolding drop_promoted_deferred_slot_def None
    using assms(1) by - (rule wp | assumption | erule good_insertD | simp)+
next
  case (Some c)
  with assms(2) have "c \<in> C" by simp
  then show ?thesis unfolding drop_promoted_deferred_slot_def Some
    using assms(1) by - (rule wp | assumption | erule good_insertD | simp)+
qed

lemma ok_sweep_dropped_deferred_slots [THEN ok_conseq, wp]:
  "good F K C L s \<Longrightarrow> ok (sweep_dropped_deferred_slots E s) (good F K C L)"
  unfolding sweep_dropped_deferred_slots_def case_prod_unfold
  by (rule wp | assumption | simp)+

lemma ok_drop_pending_capture [THEN ok_conseq, wp]:
  "good F K C L s \<Longrightarrow> cause \<in> C \<Longrightarrow> ok (drop_pending_capture cause capture s) (good F K C L)"
  unfolding drop_pending_capture_def
  by (rule wp | assumption | rule ok_Let_plain | erule good_weaken, blast | simp)+

lemma ok_drop_pending_deferred_captures [THEN ok_conseq2, wp]:
  "good F K C L s \<Longrightarrow> cause \<in> C \<Longrightarrow> ok (drop_pending_deferred_captures cause s) (\<lambda>(r, s'). good F K C L s')"
  unfolding drop_pending_deferred_captures_def Let_def
  by (rule wp | assumption | simp)+

lemma good_promote_captures [wp]:
  assumes "good F K C L s" "cause \<in> C"
  shows "good F K C L (snd (promote_captures isolate cause s))"
proof -
  have "good F K C L (promote_capture isolate cause capture s')" if "good F K C L s'" for capture s'
    unfolding promote_capture_def Let_def using that assms(2) by - (rule wp | assumption | simp)+
  then show ?thesis
    unfolding promote_captures_def Let_def using assms(1) by (auto intro!: good_fold good_update)
qed

section \<open>Replies\<close>

lemma good_push_call_rejected [wp]:
  "good F K C L s \<Longrightarrow> cause \<in> C \<Longrightarrow> good F K C L (push_call_rejected_event isolate cause call_id reason s)"
  unfolding push_call_rejected_event_def Let_def by (rule wp | assumption | simp)+

lemma ok_settle_local_reply [THEN ok_conseq, wp]:
  "good F K C L s \<Longrightarrow> cause \<in> C \<Longrightarrow> ok (settle_local_reply isolate cause call_id outcome s) (good F K C L)"
  unfolding settle_local_reply_def by (rule wp | assumption | simp)+

lemma ok_route_remote_reply [THEN ok_conseq, wp]:
  "good F K C L s \<Longrightarrow> cause \<in> C
     \<Longrightarrow> ok (route_remote_reply E isolate cause call_id requester request_cause outcome s) (good F K C L)"
  unfolding route_remote_reply_def by (rule wp | assumption | simp)+

lemma ok_call_context [wp]:
  "(\<And>c. cx = LocalContext c \<Longrightarrow> ok (f c) Q)
     \<Longrightarrow> (\<And>c requester cause t. cx = RemoteContext c requester cause t \<Longrightarrow> ok (g c requester cause t) Q)
     \<Longrightarrow> ok (case cx of LocalContext c \<Rightarrow> f c | RemoteContext c requester cause t \<Rightarrow> g c requester cause t) Q"
  by (cases cx) simp_all

lemma ok_reject_call_context [THEN ok_conseq, wp]:
  "good F K C L s \<Longrightarrow> cause \<in> C \<Longrightarrow> ok (reject_call_context E isolate cause context reason s) (good F K C L)"
  unfolding reject_call_context_def by (rule wp | assumption)+

lemma good_deferred [wp]:
  "good F K C L s \<Longrightarrow> cause \<in> C \<Longrightarrow> good F K C L (deferred_sent isolate cause record s)"
  "good F K C L s \<Longrightarrow> cause \<in> C \<Longrightarrow> good F K C L (deferred_refused isolate cause record reason s)"
  unfolding deferred_sent_def deferred_refused_def by (rule wp | assumption | simp)+

lemma ok_routing [wp]:
  "(r = RouteLocal \<Longrightarrow> ok x Q) \<Longrightarrow> (\<And>requester cause. r = RouteRemote requester cause \<Longrightarrow> ok (f requester cause) Q)
     \<Longrightarrow> ok (case r of RouteLocal \<Rightarrow> x | RouteRemote requester cause \<Rightarrow> f requester cause) Q"
  by (cases r) simp_all

lemma ok_execute_reply_to [THEN ok_conseq, wp]:
  "good F K C L s \<Longrightarrow> cause \<in> C \<Longrightarrow> ok (execute_reply_to E isolate cause slot message s) (good F K C L)"
  unfolding execute_reply_to_def case_prod_unfold Let_def by (rule wp | assumption | simp)+

end
