(* ===== verification/Rt_Lives.thy ===== *)
theory Rt_Lives
  imports Rt_Settle
begin

text \<open>
  Refinement of spawning, stopping, restarting and supervision (theory \<open>Rt_Lifecycle\<close>).
\<close>

lemma position_Some: "position P xs = Some i \<Longrightarrow> i < length xs \<and> P (xs ! i)"
  by (induction xs arbitrary: i) (auto split: if_splits)

lemma good_entries: "position P (rt_entries s) = Some i \<Longrightarrow> get_entry i s = Some (rt_entries s ! i)"
  using position_Some by (fastforce simp: get_entry_def)

lemma entry_evolves_mailbox: "quieter (en_mailbox e) q \<Longrightarrow> entry_evolves e (e\<lparr>en_mailbox := q\<rparr>)"
  by (simp add: entry_evolves_def quieter_def)

lemma entry_evolves_live:
  "\<not> en_stopped e \<Longrightarrow> en_id e' = en_id e \<Longrightarrow> en_generation e' = en_generation e \<Longrightarrow> \<not> en_stopped e'
     \<Longrightarrow> en_stopped_event e' = en_stopped_event e \<Longrightarrow> entry_evolves e e'"
  by (simp add: entry_evolves_def)

section \<open>The final result of a child\<close>

lemma good_try_reserve [wp]: "good F K C L s \<Longrightarrow> good F K C L (snd (try_reserve_terminal_slot parent s))"
  unfolding try_reserve_terminal_slot_def Let_def
  by (auto simp: case_prod_unfold split: option.split
        intro!: good_set_entry [OF _ good_entries] entry_evolves_mailbox quieter_ops)

lemma ok_reserve [wp]:
  assumes "good F K C L s" "\<And>r s'. good F K C L s' \<Longrightarrow> ok (f r s') Q"
  shows "ok (case (if b then (Inr (), s) else try_reserve_terminal_slot parent s) of (r, s') \<Rightarrow> f r s') Q"
    "ok (case (if b then try_reserve_terminal_slot parent s else (Inr (), s)) of (r, s') \<Rightarrow> f r s') Q"
  using assms good_try_reserve [OF assms(1), of parent] by (simp_all add: case_prod_unfold)

lemma good_release [wp]: "good F K C L s \<Longrightarrow> good F K C L (release_terminal_slot parent s)"
  unfolding release_terminal_slot_def Let_def
  by (auto split: option.split
        intro!: good_set_entry [OF _ good_entries] entry_evolves_mailbox quieter_ops)

lemma good_release_entry [wp]:
  "good F K C L s \<Longrightarrow> get_entry i s = Some e
     \<Longrightarrow> good F K C L (set_entry i (e\<lparr>en_mailbox := am_release (en_mailbox e)\<rparr>) s)"
  by (rule good_set_entry) (auto intro: entry_evolves_mailbox quieter_ops)

lemma good_terminal_disposed [wp]:
  "good F K C L s \<Longrightarrow> cause \<in> C \<Longrightarrow> good F K C L (terminal_disposed_event record child (Some cause) reason s)"
  "good F K C L s \<Longrightarrow> good F K C L (terminal_disposed_event record child None reason s)"
  unfolding terminal_disposed_event_def by (rule wp | assumption | simp)+

lemma ok_send_reserved [wp]:
  assumes "good F K C L s" "get_entry i s = Some e" "\<not> en_stopped e" "\<And>r s'. good F K C L s' \<Longrightarrow> Q (r, s')"
  shows "ok (case am_try_send_reserved m (en_mailbox e) of
      (r, q) \<Rightarrow> Some (f r, set_entry i (e\<lparr>en_mailbox := q\<rparr>) s)) Q"
  using assms(3)
  by (auto simp: ok_def split: prod.split intro!: assms(4) good_set_entry [OF assms(1,2)] entry_evolves_live)

lemma ok_deliver_terminal_message [THEN ok_conseq, wp]:
  assumes good: "good F K C L s" and cause: "cause \<in> C"
  shows "ok (deliver_terminal_message record child reserved message cause s) (good F K C L)"
  unfolding deliver_terminal_message_def
  using good cause
  by - (rule ok_fin, (rule wp | assumption | rule ok_Let_plain | simp | blast)+)

lemma ok_settle_child_terminal_observation [THEN ok_conseq2, wp]:
  assumes good: "good F K C L s" and cause: "cause \<in> C"
  shows "ok (settle_child_terminal_observation child result cause s) (\<lambda>(r, s'). good F K C L s')"
  unfolding settle_child_terminal_observation_def Let_def
  using good cause
  by - (rule wp | assumption | simp)+

lemma good_dispose_reservation:
  "good F K C L s \<Longrightarrow> \<forall>c. cause = Some c \<longrightarrow> c \<in> C
     \<Longrightarrow> good F K C L (dispose_child_terminal_reservation reason cause i s)"
  unfolding dispose_child_terminal_reservation_def Let_def
  by (cases cause) (auto intro!: wp)

lemma good_dispose_parent [wp]:
  "good F K C L s \<Longrightarrow> cause \<in> C \<Longrightarrow> good F K C L (dispose_parent_terminal_reservations parent cause s)"
  unfolding dispose_parent_terminal_reservations_def
  by (rule good_fold) (auto intro: good_dispose_reservation)

lemma good_dispose_all [wp]:
  "good F K C L s \<Longrightarrow> good F K C L (dispose_all_terminal_reservations_on_shutdown s)"
  unfolding dispose_all_terminal_reservations_on_shutdown_def
  by (rule good_fold) (auto intro: good_dispose_reservation)

lemma good_prune [wp]: "good F K C L s \<Longrightarrow> good F K C L (prune_terminal_child_records stopped s)"
  unfolding prune_terminal_child_records_def Let_def by (rule wp)

section \<open>Stopping\<close>

lemma good_stopped_event:
  assumes "good F K C L s" "get_entry i s = Some e" "en_stopped e" "en_stopped_event e = Some n"
  shows "good F K (insert n C) L s"
proof -
  have "e \<in> set (rt_entries s)" using assms(2) by (auto simp: get_entry_def split: if_splits)
  with good_inv [OF assms(1)] assms(3,4) have "cause_in F (rt_next_event s) n"
    by (auto simp: core_inv_def registry_ok_def)
  with assms(1) show ?thesis by (rule good_insert)
qed

lemma ok_mark_stopped [wp]:
  assumes good: "good F K C L s" and e: "get_entry i s = Some e" "\<not> en_stopped e" and cause: "cause \<in> C"
    and f: "\<And>n s'. good F K (insert n C) L s' \<Longrightarrow> ok (f n s') Q"
  shows "ok (let (n, s') = mark_stopped i isolate cause e s in f n s') Q"
proof -
  let ?e = "e\<lparr>en_stopped := True, en_mailbox := am_close (en_mailbox e), en_stopped_event := Some (rt_next_event s)\<rparr>"
  have eq: "core_of L (snd (mark_stopped i isolate cause e s))
      = (c_log isolate (Some cause) IsolateStopped (core_of L s))\<lparr>co_entries := (co_entries (core_of L s))[i := ?e]\<rparr>"
    unfolding mark_stopped_def Let_def case_prod_unfold snd_conv core_of_misc core_of_set_entry core_of_log
    by (simp add: c_log_def Let_def set_entry_def)
  have "core_step F (core_of L s) (core_of L (snd (mark_stopped i isolate cause e s)))"
    unfolding eq using e good cause
    by (intro CsStop) (auto simp: get_entry_def good_def am_close_def split: if_splits)
  then have step: "good F K C L (snd (mark_stopped i isolate cause e s))" by (rule good_step [OF good])
  have n: "fst (mark_stopped i isolate cause e s) = rt_next_event s"
    by (simp add: mark_stopped_def Let_def case_prod_unfold set_entry_def)
  have "rt_next_event (snd (mark_stopped i isolate cause e s)) = rt_next_event s + 1"
    using core_of_eqD(6) [OF eq] by simp
  with step have "good F K (insert (rt_next_event s) C) L (snd (mark_stopped i isolate cause e s))"
    by (intro good_insert) simp_all
  from f [OF this] n show ?thesis by (simp add: case_prod_unfold)
qed

lemma ok_close_drained [THEN ok_conseq2, wp]:
  "good F K C L s \<Longrightarrow> cause \<in> C \<Longrightarrow> ok (close_drained_local_call_context cause message s) (\<lambda>(r, s'). good F K C L s')"
  unfolding close_drained_local_call_context_def by (rule wp | assumption | simp)+

lemma ok_abandon_message [THEN ok_conseq, wp]:
  "good F K C L s \<Longrightarrow> stopped \<in> C \<Longrightarrow> ok (abandon_message isolate stopped message s) (good F K C L)"
  unfolding abandon_message_def by (rule wp | assumption | simp)+

lemma ok_abandon_precollected [THEN ok_conseq, wp]:
  "good F K C L s \<Longrightarrow> stopped \<in> C \<Longrightarrow> ok (abandon_precollected isolate stopped pre s) (good F K C L)"
  unfolding abandon_precollected_def by (rule wp | assumption | simp)+

lemma drain_good:
  assumes "drain_entry index isolate stopped s = Some s'" "good F K C L s" "stopped \<in> C"
  shows "good F K C L s'"
proof -
  have "good F K C L s \<and> stopped \<in> C \<longrightarrow> good F K C L s'"
  proof (rule drain_entry.raw_induct
      [where P = "\<lambda>index isolate stopped s s'. good F K C L s \<and> stopped \<in> C \<longrightarrow> good F K C L s'", OF _ assms(1)],
      goal_cases)
    case (1 f index isolate stopped s s')
    have IH: "ok (f index isolate stopped s1) (good F K C L)" if "good F K C L s1" "stopped \<in> C" for s1
      using 1(1) that by (auto simp: ok_def)
    have "ok (recv_entry_message index s \<bind> (\<lambda>(r, s). case r of None \<Rightarrow> Some s
        | Some message \<Rightarrow> abandon_message isolate stopped message s \<bind> f index isolate stopped)) (good F K C L)"
      if "good F K C L s" "stopped \<in> C"
      using that by - (rule IH wp | assumption | simp)+
    with 1(2) show ?case by (auto simp: ok_def)
  qed
  with assms(2,3) show ?thesis by simp
qed

lemma ok_drain [THEN ok_conseq, wp]:
  "good F K C L s \<Longrightarrow> stopped \<in> C \<Longrightarrow> ok (drain_entry index isolate stopped s) (good F K C L)"
  by (auto simp: ok_def intro: drain_good)

lemma ok_stop_entry_full [THEN ok_conseq2, wp]:
  assumes good: "good F K C L s" and cause: "cause \<in> C"
  shows "ok (stop_entry_full E index isolate cause pre result s) (\<lambda>(r, s'). good F K C L s')"
proof -
  have again: "ok (en_stopped_event e \<bind> (\<lambda>stopped. abandon_precollected isolate stopped pre s \<bind>
      (\<lambda>s. settle_child_terminal_observation address result stopped s \<bind> (\<lambda>(x, s). Some (stopped, s)))))
      (\<lambda>(r, s'). fin F K C L s')"
    if e: "get_entry index s = Some e" "en_stopped e" for e address
  proof (cases "en_stopped_event e")
    case (Some n)
    show ?thesis unfolding Some Option.bind.bind_lunit
      using good_stopped_event [OF good e Some] by - (rule wp | assumption | simp | blast)+
  qed (simp add: ok_None)
  show ?thesis
    unfolding stop_entry_full_def
    using good cause
    by - (rule ok_fin2,
        (rule again wp | assumption | rule ok_Let_plain ok_case_prod | (simp; fail) | blast)+)
qed

lemma ok_stop_entry [THEN ok_conseq, wp]:
  "good F K C L s \<Longrightarrow> cause \<in> C \<Longrightarrow> ok (stop_entry E index isolate cause s) (good F K C L)"
  unfolding stop_entry_def by (rule wp | assumption | simp)+

lemma ok_stop_entry_with_precollected [THEN ok_conseq, wp]:
  "good F K C L s \<Longrightarrow> cause \<in> C \<Longrightarrow> ok (stop_entry_with_precollected E index isolate cause pre s) (good F K C L)"
  unfolding stop_entry_with_precollected_def by (rule wp | assumption | simp)+

lemma ok_stop_entry_with_result [THEN ok_conseq, wp]:
  "good F K C L s \<Longrightarrow> cause \<in> C \<Longrightarrow> ok (stop_entry_with_result E index isolate cause result s) (good F K C L)"
  unfolding stop_entry_with_result_def by (rule wp | assumption | simp)+

section \<open>Spawning\<close>

lemma good_register:
  assumes "good F K C L s"
  shows "good F K C L (snd (register_entry isolate parent capacity s))"
proof -
  let ?e = "\<lparr>en_id = rt_next_isolate s, en_generation = 0, en_parent = parent, en_stopped = False,
      en_stopped_event = None, en_mailbox = am_new capacity, en_contexts = [], en_overflow = [],
      en_handler = isolate\<rparr>"
  have eq: "core_of L (snd (register_entry isolate parent capacity s))
      = (core_of L s)\<lparr>co_next_isolate := co_next_isolate (core_of L s) + 1,
           co_entries := co_entries (core_of L s) @ [?e],
           co_indexes := (co_indexes (core_of L s))(rt_next_isolate s \<mapsto> length (co_entries (core_of L s)))\<rparr>"
    by (simp add: register_entry_def Let_def core_of_def)
  have "core_step F (core_of L s) (core_of L (snd (register_entry isolate parent capacity s)))"
    unfolding eq using CsRegister [of ?e "core_of L s" F] by simp
  then show ?thesis by (rule good_step [OF assms])
qed

lemma ok_register [wp]:
  assumes "good F K C L s" "\<And>child s'. good F K C L s' \<Longrightarrow> ok (f child s') Q"
  shows "ok (case register_entry isolate parent capacity s of (child, s') \<Rightarrow> f child s') Q"
    "ok (let (child, s') = register_entry isolate parent capacity s in f child s') Q"
  using assms(2) [OF good_register [OF assms(1)]] by (simp_all add: case_prod_unfold Let_def)

lemma ok_spawn_isolate [THEN ok_conseq2, wp]:
  "good F K C L s \<Longrightarrow> ok (spawn_isolate parent isolate capacity bootstrap s) (\<lambda>(r, s'). good F K C L s')"
  unfolding spawn_isolate_def by (rule wp | assumption)+

lemma ok_position [wp]: "(\<And>i. position P xs = Some i \<Longrightarrow> Q i) \<Longrightarrow> ok (position P xs) Q"
  by (simp add: ok_def)

lemma ok_enqueue_bootstrap_message [THEN ok_conseq, wp]:
  "good F K C L s \<Longrightarrow> cause \<in> C \<Longrightarrow> ok (enqueue_bootstrap_message child message cause s) (good F K C L)"
  unfolding enqueue_bootstrap_message_def by (rule wp | assumption | simp)+

lemma ok_enqueue_bootstrap [THEN ok_conseq, wp]:
  "good F K C L s \<Longrightarrow> cause \<in> C \<Longrightarrow> ok (enqueue_bootstrap child bootstrap cause s) (good F K C L)"
  unfolding enqueue_bootstrap_def by (rule wp | assumption | simp)+

lemma ok_spawn_child [THEN ok_conseq2, wp]:
  "good F K C L s \<Longrightarrow> ok (spawn_child parent spawn s) (\<lambda>(r, s'). good F K C L s')"
  by (cases spawn) (simp only: spawn_child.simps, (rule wp | assumption | rule ok_case_prod)+)+

lemma ok_erased_spawn [wp]:
  "(\<And>h c b. spawn = SpawnAdapter h c b \<Longrightarrow> ok (f h c b) Q) \<Longrightarrow> (\<And>r. spawn = RestartableAdapter r \<Longrightarrow> ok (g r) Q)
     \<Longrightarrow> ok (case spawn of SpawnAdapter h c b \<Rightarrow> f h c b | RestartableAdapter r \<Rightarrow> g r) Q"
  by (cases spawn) simp_all

lemma ok_try_spawn_observed [THEN ok_conseq2, wp]:
  "good F K C L s \<Longrightarrow> ok (try_spawn_observed parent spawn s) (\<lambda>(r, s'). good F K C L s')"
  unfolding try_spawn_observed_def
  by (rule wp | assumption | rule ok_case_prod | simp only: prod.case)+

lemma ok_conseq3: "ok m (\<lambda>(a, b, c). P a b c) \<Longrightarrow> (\<And>a b c. P a b c \<Longrightarrow> Q (a, b, c)) \<Longrightarrow> ok m Q"
  by (auto simp: ok_def)

lemma ok_spawn_observed [THEN ok_conseq3, wp]:
  "good F K C L s
     \<Longrightarrow> ok (spawn_observed parent spawn continuation restart terminal s) (\<lambda>(r, m, s'). good F K C L s')"
  unfolding spawn_observed_def by (rule wp | assumption)+

lemma good_record_child [wp]: "good F K C L s \<Longrightarrow> good F K C L (record_child parent outcome s)"
  unfolding record_child_def by (rule wp)

lemma ok_register_remote_child [THEN ok_conseq2, wp]:
  "good F K C L s \<Longrightarrow> cause \<in> C
     \<Longrightarrow> ok (register_remote_child isolate capacity bootstrap owner ordinal request_id remote_owner recipe cause s)
           (\<lambda>(r, s'). good F K C L s')"
  unfolding register_remote_child_def
  by (rule ok_fin2, (rule wp | assumption | rule ok_Let_plain | (simp; fail) | blast)+)

lemma ok_spawn_remote [THEN ok_conseq2, wp]:
  "good F K C L s \<Longrightarrow> cause \<in> C
     \<Longrightarrow> ok (spawn_remote spawn owner ordinal request_id cause s) (\<lambda>(r, s'). good F K C L s')"
  unfolding spawn_remote_def
  by (rule wp | assumption | rule ok_Let_plain | rule ok_case_prod | simp only: prod.case)+

lemma good_recipe_create:
  assumes "good F K C L s" shows "good F K C L (snd (recipe_create parent recipe s))"
proof -
  have w: "good F K C L (s\<lparr>rt_world := w\<rparr>)" for w using assms by (rule good_update)
  then have "good F K C L s'" if "spawn_isolate parent h c b (s\<lparr>rt_world := w\<rparr>) = Some (r, s')" for h c b w r s'
    using ok_spawn_isolate [OF w, where Q = "\<lambda>(r, s'). good F K C L s'"] that by (auto simp: ok_def)
  with w show ?thesis by (auto simp: recipe_create_def split: prod.split option.split)
qed

lemma ok_recipe_create [wp]:
  assumes "good F K C L s" "\<And>r s'. good F K C L s' \<Longrightarrow> ok (f r s') Q"
  shows "ok (case recipe_create parent recipe s of (r, s') \<Rightarrow> f r s') Q"
  using assms(2) [OF good_recipe_create [OF assms(1)]] by (simp add: case_prod_unfold)

lemma ok_deliver_observed_continuation [THEN ok_conseq, wp]:
  "good F K C L s \<Longrightarrow> cause \<in> C \<Longrightarrow> ok (deliver_observed_continuation owner message cause s) (good F K C L)"
  unfolding deliver_observed_continuation_def
  by (rule ok_fin, (rule wp | assumption | rule ok_Let_plain | (simp; fail) | blast)+)

section \<open>Restarting and supervision\<close>

lemma ok_stop_old_child [THEN ok_conseq2, wp]:
  "good F K C L s \<Longrightarrow> cause \<in> C \<Longrightarrow> ok (stop_old_child E child cause round s) (\<lambda>(r, s'). good F K C L s')"
  unfolding stop_old_child_def by (rule wp | assumption | rule ok_Let_plain | rule ok_case_prod)+

lemma good_replace_child [wp]: "good F K C L s \<Longrightarrow> good F K C L (replace_child i recipe outcome reserved s)"
  unfolding replace_child_def Let_def by (rule wp)

lemma ok_restart_child_record [THEN ok_conseq2, wp]:
  "good F K C L s \<Longrightarrow> cause \<in> C \<Longrightarrow> ok (restart_child_record E parent i cause round s) (\<lambda>(r, s'). good F K C L s')"
  unfolding restart_child_record_def
  by (rule ok_fin2, (rule wp | assumption | rule ok_Let_plain | (simp; fail) | blast)+)

lemma ok_restart_loop [THEN ok_conseq2, wp]:
  "good F K C L s \<Longrightarrow> cause \<in> C \<Longrightarrow> ok (restart_loop E P parent cause is round s) (\<lambda>(r, s'). good F K C L s')"
proof (induction "is" arbitrary: round s)
  case (Cons i ids)
  show ?case using Cons.prems
    by (simp only: restart_loop.simps) (rule Cons.IH wp | assumption)+
qed (simp add: ok_Some)

lemma ok_supervise_failed_child [THEN ok_conseq2, wp]:
  "good F K C L s \<Longrightarrow> cause \<in> C \<Longrightarrow> ok (supervise_failed_child E failed cause round s) (\<lambda>(r, s'). good F K C L s')"
  unfolding supervise_failed_child_def
  by (rule ok_fin2, (rule wp | assumption | rule ok_Let_plain | (simp; fail) | blast)+)

end
