(* ===== verification/Rt_Turns.thy ===== *)
theory Rt_Turns
  imports Rt_Lives
begin

text \<open>
  Refinement of the turn loop (theory \<open>Rt_Step\<close>): driver completions, the dispatch of calls and the
  execution of effects.
\<close>

section \<open>Driver completions\<close>

lemma good_cancel_for_close [wp]:
  assumes "good F K C L s"
  shows "good F K C L (cancel_in_flight_call_for_resource_close c s)"
proof (cases "remove_driver c (rt_calls s)")
  case (Some x)
  obtain d t where x: "x = (d, t)" by fastforce
  note d = good_remove_driver [OF assms Some [unfolded x]]
  have "fin F K C L (cancel_in_flight_call_for_resource_close c s)"
    unfolding cancel_in_flight_call_for_resource_close_def Some x option.case prod.case Let_def
    by (rule wp d(1) | simp add: d(2) | blast)+
  then show ?thesis by (simp add: fin_def)
qed (simp add: cancel_in_flight_call_for_resource_close_def assms)

lemma good_drop_cancelled_completion [wp]:
  "good F K C L s \<Longrightarrow> good F K C L (drop_cancelled_completion c s)"
  unfolding drop_cancelled_completion_def by (rule wp | assumption)+

lemma good_take_cancelled_by_close [wp]:
  "good F K C L s \<Longrightarrow> good F K C L (take_cancelled_by_close E s)"
  unfolding take_cancelled_by_close_def case_prod_unfold by (rule good_fold wp | assumption)+

lemma good_push_persistence [wp]:
  "good F K C L s \<Longrightarrow> dh_cause head \<in> C \<Longrightarrow> good F K C L (push_persistence_completion_events head failure s)"
  unfolding push_persistence_completion_events_def Let_def
  by (cases "dh_persistence head"; cases failure)
     (auto split: persistence_info.split intro!: good_log)

lemma good_notify_bound [wp]:
  "good F K C L s \<Longrightarrow> good F K C L (notify_bound_address E kind result failure s)"
  unfolding notify_bound_address_def Let_def by (rule wp | assumption)+

lemma ok_completion [wp]:
  "(\<And>m. c = CompMessage m \<Longrightarrow> ok (f m) Q) \<Longrightarrow> (c = CompStopRequester \<Longrightarrow> ok x Q) \<Longrightarrow> (c = CompNoop \<Longrightarrow> ok y Q)
     \<Longrightarrow> ok (case c of CompMessage m \<Rightarrow> f m | CompStopRequester \<Rightarrow> x | CompNoop \<Rightarrow> y) Q"
  by (cases c) simp_all

lemma ok_deliver_backend_completion_action [THEN ok_conseq, wp]:
  assumes "good F K C L s" "dh_cause head \<in> C" "dh_kind head \<noteq> KindIsolateCall"
  shows "ok (deliver_backend_completion_action E index head call_id completion failure s) (good F K C L)"
  unfolding deliver_backend_completion_action_def Let_def
  using assms by - (rule ok_fin, (rule wp | assumption | (simp; fail) | blast)+)

lemma ok_deliver_completion [THEN ok_conseq, wp]:
  assumes "good F K C L s"
  shows "ok (deliver_completion E call_id result s) (good F K C L)"
proof (cases "remove_driver call_id (rt_calls s)")
  case None
  then show ?thesis using assms by (auto simp: deliver_completion_def intro!: wp)
next
  case (Some x)
  obtain d t where x: "x = (d, t)" by fastforce
  note d = good_remove_driver [OF assms Some [unfolded x]]
  show ?thesis
    unfolding deliver_completion_def Some x option.case prod.case Let_def
    by (rule ok_fin, (rule wp d(1) | simp add: d(2) | blast)+)
qed

lemma ok_deliver_pending [THEN ok_conseq, wp]:
  "good F K C L s \<Longrightarrow> ok (deliver_pending E budget s) (good F K C L)"
proof (induction budget arbitrary: s)
  case (Suc budget)
  show ?case
    using Suc.prems
    by (simp only: deliver_pending.simps split: list.split) (auto intro!: wp Suc.IH)
qed (simp add: ok_Some)

lemma ok_advance_driver [THEN ok_conseq, wp]:
  "good F K C L s \<Longrightarrow> ok (advance_driver E now s) (good F K C L)"
  unfolding advance_driver_def by (rule wp | assumption | rule ok_case_prod)+

section \<open>Dispatching calls\<close>

lemma ok_insert_driver [wp]:
  assumes good: "good F K C L s"
    and d: "dh_call_id (dc_head d) < rt_next_call s" "dh_cause (dc_head d) \<in> C" "dh_kind (dc_head d) \<noteq> KindIsolateCall"
    and Q: "\<And>t. good F K C L (s\<lparr>rt_calls := t\<rparr>) \<Longrightarrow> Q t"
  shows "ok (insert_driver d (rt_calls s)) Q"
proof (rule okI)
  fix t assume t: "insert_driver d (rt_calls s) = Some t"
  have eq: "core_of L (s\<lparr>rt_calls := t\<rparr>) = (core_of L s)\<lparr>co_calls := t\<rparr>" by (simp add: core_of_def)
  have "core_step F (core_of L s) (core_of L (s\<lparr>rt_calls := t\<rparr>))"
    unfolding eq using d t good by (intro CsDriverInsert) (simp_all add: good_def)
  then show "Q t" by (intro Q good_step [OF good])
qed

lemma ok_dispatch_driver_call [THEN ok_conseq, wp]:
  assumes "good F K C L s" "dx_call_id cx < rt_next_call s" "dx_cause cx \<in> C" "kind \<noteq> KindIsolateCall"
  shows "ok (dispatch_driver_call E cx kind request translator s) (good F K C L)"
  unfolding dispatch_driver_call_def
  using assms by - (rule wp | assumption | rule ok_Let_plain | rule ok_case_prod | (simp; fail))+

lemma ok_deliver_observed_send_outcome [THEN ok_conseq, wp]:
  assumes "good F K C L s" "dx_cause cx \<in> C"
  shows "ok (deliver_observed_send_outcome cx outcome translator s) (good F K C L)"
  unfolding deliver_observed_send_outcome_def Let_def
  using assms by - (rule wp | assumption | (simp; fail))+

lemma ok_attempt_send [THEN ok_conseq2, wp]:
  "good F K C L s \<Longrightarrow> attempted \<in> C \<Longrightarrow> ok (attempt_send E isolate send cx attempted s) (\<lambda>(r, s'). good F K C L s')"
  unfolding attempt_send_def by (rule wp | assumption | (simp; fail))+

lemma ok_dispatch_observed_send [THEN ok_conseq, wp]:
  assumes "good F K C L s" "dx_cause cx \<in> C"
  shows "ok (dispatch_observed_send E cx send translator s) (good F K C L)"
  unfolding dispatch_observed_send_def
  using assms by - (rule ok_fin, (rule wp | assumption | rule ok_Let_plain | (simp; fail) | blast)+)

lemma ok_stamp_handle [wp]:
  assumes "good F K C L s" "\<And>s'. good F K C L s' \<Longrightarrow> core_of L s' = core_of L s \<Longrightarrow> Q s'"
  shows "ok (stamp_handle h c s) Q"
  using assms(1) by (auto simp: stamp_handle_def ok_def split: option.splits if_splits intro!: assms(2) good_update)

lemma good_insert_isolate:
  assumes good: "good F K C L s" and same: "core_of L s' = core_of L (s\<lparr>rt_next_ordinal := rt_next_ordinal s + 1\<rparr>)"
    and t: "insert_isolate p (rt_calls s') = Some t"
    and p: "pi_call_id p \<in> L" "pi_cause p \<in> C" "pi_order p = rt_next_ordinal s"
  shows "good F K C (L - {pi_call_id p}) (s'\<lparr>rt_calls := t\<rparr>)"
proof -
  have eq1: "core_of L s' = (core_of L s)\<lparr>co_next_ordinal := co_next_ordinal (core_of L s) + 1\<rparr>"
    unfolding same by (simp add: core_of_def)
  have "core_step F (core_of L s) (core_of L s')" unfolding eq1 by (rule CsOrdinal)
  then have good': "good F K C L s'" by (rule good_step [OF good])
  have s': "rt_calls s' = rt_calls s" "rt_next_ordinal s' = rt_next_ordinal s + 1"
    using core_of_eqD [OF eq1] by simp_all
  have "\<forall>x \<in> set (ct_isolate (rt_calls s)). pi_order (snd x) < rt_next_ordinal s"
    using good_inv [OF good] by (auto simp: core_inv_def table_ok_def isolate_ok_def)
  then have fresh: "pi_order p \<notin> (\<lambda>x. pi_order (snd x)) ` set (ct_isolate (rt_calls s'))"
    using p(3) s'(1) by auto
  have eq: "core_of (L - {pi_call_id p}) (s'\<lparr>rt_calls := t\<rparr>)
      = (core_of L s')\<lparr>co_calls := t, co_open := co_open (core_of L s') - {pi_call_id p}\<rparr>"
    by (simp add: core_of_def)
  have "core_step F (core_of L s') (core_of (L - {pi_call_id p}) (s'\<lparr>rt_calls := t\<rparr>))"
    unfolding eq using p t fresh s' good' by (intro CsInsert) (simp_all add: good_def)
  then show ?thesis by (rule good_step [OF good'])
qed

lemma good_ordinal [wp]: "good F K C L s \<Longrightarrow> good F K C L (s\<lparr>rt_next_ordinal := rt_next_ordinal s + 1\<rparr>)"
proof (rule good_step)
  have eq: "core_of L (s\<lparr>rt_next_ordinal := rt_next_ordinal s + 1\<rparr>)
      = (core_of L s)\<lparr>co_next_ordinal := co_next_ordinal (core_of L s) + 1\<rparr>"
    by (simp add: core_of_def)
  show "core_step F (core_of L s) (core_of L (s\<lparr>rt_next_ordinal := rt_next_ordinal s + 1\<rparr>))"
    unfolding eq by (rule CsOrdinal)
qed

lemma ok_dispatch_isolate_call [THEN ok_conseq, wp]:
  assumes good: "good F K C L s" and cx: "dx_call_id cx \<in> L" "dx_cause cx \<in> C"
  shows "ok (dispatch_isolate_call E cx send timeout translator expected handle s) (good F K C (L - {dx_call_id cx}))"
proof (rule ok_fin)
  let ?c = "dx_call_id cx"
  have inserted: "ok (insert_isolate p (rt_calls s2) \<bind> (\<lambda>t. Some (s2\<lparr>rt_calls := t\<rparr>))) (fin F K C (L - {?c}))"
    if "good F K D L s1" "core_of L s2 = core_of L (s1\<lparr>rt_next_ordinal := rt_next_ordinal s1 + 1\<rparr>)" "C \<subseteq> D"
      "pi_call_id p = ?c" "pi_cause p = dx_cause cx" "pi_order p = rt_next_ordinal s1" for D s1 s2 p
  proof (rule ok_bind, rule okI, rule ok_Some)
    fix t assume "insert_isolate p (rt_calls s2) = Some t"
    from good_insert_isolate [OF that(1,2) this] that(3-) cx
    show "fin F K C (L - {?c}) (s2\<lparr>rt_calls := t\<rparr>)" by (auto intro: finI)
  qed
  have failed: "ok (stamp_handle handle ?c s1 \<bind> (\<lambda>s. deliver_isolate_call_outcome ?c requester (dx_cause cx) outcome
      translator (dx_continuation cx) (set_handle_state handle HandleSettled s))) (fin F K C (L - {?c}))"
    if "good F K D L s1" "C \<subseteq> D" for D s1 requester outcome
    using that cx by - (rule wp | assumption | blast)+
  have admitted: "ok (stamp_handle handle ?c (s1\<lparr>rt_next_ordinal := rt_next_ordinal s1 + 1\<rparr>) \<bind>
      (\<lambda>s. let (now, s) = clock_now E s in insert_isolate \<lparr>pi_call_id = ?c, pi_requester = requester,
              pi_cause = dx_cause cx, pi_deadline = dl_deadline (from_instant now timeout),
              pi_order = rt_next_ordinal s1, pi_context = dx_continuation cx, pi_translator = translator,
              pi_type = expected, pi_handle = handle\<rparr> (rt_calls s) \<bind> (\<lambda>t. Some (s\<lparr>rt_calls := t\<rparr>))))
      (fin F K C (L - {?c}))"
    if "good F K D L s1" "C \<subseteq> D" for D s1 requester
    using that(1) by - (rule inserted [OF that(1) _ that(2)] wp | assumption | simp)+
  show "ok (dispatch_isolate_call E cx send timeout translator expected handle s) (fin F K C (L - {?c}))"
    unfolding dispatch_isolate_call_def
    using good cx
    by - (rule failed admitted wp | assumption | rule ok_Let_plain | (simp; fail) | blast)+
qed

lemma ok_handle_state [wp]:
  "(h = HandlePending \<Longrightarrow> ok x Q) \<Longrightarrow> (h = HandleSettled \<Longrightarrow> ok y Q) \<Longrightarrow> (h = HandleCancelled \<Longrightarrow> ok z Q)
     \<Longrightarrow> ok (case h of HandlePending \<Rightarrow> x | HandleSettled \<Rightarrow> y | HandleCancelled \<Rightarrow> z) Q"
  by (cases h) simp_all

lemma good_cancel_taken:
  assumes "good F K C L s" "remove_isolate c (rt_calls s) = Some (p, t)"
  shows "good F K C L (log_event isolate (Some (pi_cause p)) (CallCancelled c why)
    (close_deferred_slot_for_call_with_reason c reason (record_cancelled_call c why
      (set_handle_state h st (s\<lparr>rt_calls := t\<rparr>)))))"
proof -
  note take = good_take [OF assms]
  have "good F K (insert (pi_cause p) C) (insert c L - {c}) (log_event isolate (Some (pi_cause p)) (CallCancelled c why)
    (close_deferred_slot_for_call_with_reason c reason (record_cancelled_call c why
      (set_handle_state h st (s\<lparr>rt_calls := t\<rparr>)))))"
    by (rule good_settle_log) (rule wp take(1) settlement.intros | simp)+
  with take(3) show ?thesis by (auto dest: good_insertD)
qed

lemma ok_cancel_by_handle [THEN ok_conseq2, wp]:
  "good F K C L s \<Longrightarrow> ok (cancel_by_handle isolate handle s) (\<lambda>(r, s'). good F K C L s')"
  unfolding cancel_by_handle_def
  by (rule wp okI | assumption | rule ok_case_prod | auto intro: good_cancel_taken)+

lemma ok_send_error [wp]:
  "(\<And>a. m = SendFull a \<Longrightarrow> ok (f a) Q) \<Longrightarrow> (\<And>a. m = SendClosed a \<Longrightarrow> ok (g a) Q)
     \<Longrightarrow> ok (case m of SendFull a \<Rightarrow> f a | SendClosed a \<Rightarrow> g a) Q"
  by (cases m) simp_all

lemma ok_dispatch_cancel_call [THEN ok_conseq, wp]:
  assumes "good F K C L s" "dx_cause cx \<in> C"
  shows "ok (dispatch_cancel_call cx handle translator s) (good F K C L)"
  unfolding dispatch_cancel_call_def Let_def
  using assms by - (rule wp | assumption | (simp; fail))+

text \<open>A backend call is never reported under the kind of isolate calls.\<close>

definition backend_kinds :: "('h, 'm, 'd) rt_env \<Rightarrow> bool" where
  "backend_kinds E \<longleftrightarrow> (\<forall>r. env_request_kind E r \<noteq> KindIsolateCall)"

lemma good_attempt:
  assumes good: "good F K C L s" and cause: "cause \<in> C"
  shows "good F K (insert (rt_next_event s) C) (if kind = KindIsolateCall then insert (rt_next_call s) L else L)
    (log_event isolate (Some cause) (CallDispatchAttempted (rt_next_call s) kind) (s\<lparr>rt_next_call := rt_next_call s + 1\<rparr>))"
    (is "good F K _ ?L ?s")
proof -
  have eq: "core_of ?L ?s = (c_log isolate (Some cause) (CallDispatchAttempted (co_next_call (core_of L s)) kind) (core_of L s))
      \<lparr>co_next_call := co_next_call (core_of L s) + 1,
       co_open := (if kind = KindIsolateCall then insert (co_next_call (core_of L s)) (co_open (core_of L s))
                   else co_open (core_of L s))\<rparr>"
    unfolding core_of_log by (simp add: core_of_def c_log_def Let_def)
  have "core_step F (core_of L s) (core_of ?L ?s)"
    unfolding eq by (rule CsAttempt) (use good cause in \<open>simp add: good_def\<close>)
  then have "good F K C ?L ?s" by (rule good_step [OF good])
  then show ?thesis by (rule good_insert) simp
qed

lemma good_open_bound: "good F K C L s \<Longrightarrow> rt_next_call s \<notin> L"
  using good_inv [of F K C L s] by (auto simp: core_inv_def fate_ok_def)

lemma ok_dispatch_call [THEN ok_conseq, wp]:
  assumes good: "good F K C L s" and cause: "cause \<in> C" and kinds: "backend_kinds E"
  shows "ok (dispatch_call E call requester cause continuation s) (good F K C L)"
proof (rule ok_fin)
  let ?s = "log_event (ra_isolate requester) (Some cause) (CallDispatchAttempted (rt_next_call s) (erased_call_kind E call))
      (s\<lparr>rt_next_call := rt_next_call s + 1\<rparr>)"
  note attempt = good_attempt [OF good cause, of "erased_call_kind E call" "ra_isolate requester"]
  have closed: "insert (rt_next_call s) L - {rt_next_call s} = L" using good_open_bound [OF good] by auto
  have next_call: "rt_next_call s < rt_next_call ?s" by simp
  show "ok (dispatch_call E call requester cause continuation s) (fin F K C L)"
    unfolding dispatch_call_def Let_def case_prod_unfold push_event_id rt.select_convs
    using attempt kinds
    by (cases call)
       (simp_all add: erased_call_kind_def backend_kinds_def,
        (assumption | rule wp | (simp add: closed; fail) | blast)+)
qed

section \<open>Children\<close>

lemma ok_request_remote_child_stop [THEN ok_conseq, wp]:
  "good F K C L s \<Longrightarrow> cause \<in> C \<Longrightarrow> ok (request_remote_child_stop E parent cause oc s) (good F K C L)"
  unfolding request_remote_child_stop_def
  by (rule ok_fin, (rule wp | assumption | rule ok_Let_plain | rule ok_case_prod | (simp; fail) | blast)+)

lemma ok_cancel_remote_spawns [THEN ok_conseq2, wp]:
  "good F K C L s \<Longrightarrow> cause \<in> C \<Longrightarrow> ok (cancel_remote_spawns E parent owner cause ps s) (\<lambda>(r, s'). good F K C L s')"
proof (induction ps arbitrary: s)
  case (Cons p ps)
  obtain i j where p: "p = (i, j)" by fastforce
  show ?case
    using Cons.prems unfolding p
    by (simp only: cancel_remote_spawns.simps)
       (rule Cons.IH [THEN ok_conseq2] wp | assumption | (simp; fail))+
qed (simp add: ok_Some)

lemma ok_cleanup_remote_children [THEN ok_conseq, wp]:
  "good F K C L s \<Longrightarrow> cause \<in> C \<Longrightarrow> ok (cleanup_remote_children_for_owner E parent cause s) (good F K C L)"
  unfolding cleanup_remote_children_for_owner_def by (rule wp | assumption | rule ok_Let_plain)+

lemma ok_request_remote_child_restart [THEN ok_conseq, wp]:
  "good F K C L s \<Longrightarrow> cause \<in> C \<Longrightarrow> ok (request_remote_child_restart E parent child ordinal cause s) (good F K C L)"
  unfolding request_remote_child_restart_def
  by (rule ok_fin, (rule wp | assumption | rule ok_Let_plain | (simp; fail) | blast)+)

lemma ok_restart_children_loop [THEN ok_conseq2, wp]:
  "good F K C L s \<Longrightarrow> cause \<in> C \<Longrightarrow> ok (restart_children_loop E parent cause is round s) (\<lambda>(r, s'). good F K C L s')"
proof (induction "is" arbitrary: round s)
  case (Cons i ids)
  show ?case using Cons.prems
    by (simp only: restart_children_loop.simps Let_def)
       (rule Cons.IH wp | assumption | (simp; fail))+
qed (simp add: ok_Some)

lemma ok_restart_children [THEN ok_conseq2, wp]:
  "good F K C L s \<Longrightarrow> cause \<in> C \<Longrightarrow> ok (restart_children E parent cause round s) (\<lambda>(r, s'). good F K C L s')"
  unfolding restart_children_def by (rule wp | assumption)+

lemma ok_stop_children_loop [THEN ok_conseq2, wp]:
  "good F K C L s \<Longrightarrow> cause \<in> C \<Longrightarrow> ok (stop_children_loop E parent cause cs round s) (\<lambda>(r, s'). good F K C L s')"
proof (induction cs arbitrary: C round s)
  case (Cons c cs)
  obtain i j where c: "c = (i, j)" by fastforce
  have IH: "ok (stop_children_loop E parent cause cs round s') (\<lambda>(r, s'). fin F K C L s')"
    if "good F K D L s'" "C \<subseteq> D" for D round s'
    using Cons.IH [OF good_weaken [OF that]] Cons.prems(2) by (simp add: fin_def)
  show ?case
    using Cons.prems unfolding c
    by (simp only: stop_children_loop.simps)
       (rule ok_fin2, (rule IH wp | assumption | rule ok_Let_plain | rule ok_case_prod | (simp; fail) | blast)+)
qed (simp add: ok_Some)

lemma ok_stop_children [THEN ok_conseq2, wp]:
  "good F K C L s \<Longrightarrow> cause \<in> C \<Longrightarrow> ok (stop_children E parent cause round s) (\<lambda>(r, s'). good F K C L s')"
  unfolding stop_children_def by (rule wp | assumption)+

section \<open>Effects\<close>

lemma ok_exec_send [THEN ok_conseq, wp]:
  "good F K C L s \<Longrightarrow> cause \<in> C \<Longrightarrow> ok (exec_send E isolate cause send s) (good F K C L)"
  unfolding exec_send_def
  by (rule ok_fin, (rule wp | assumption | (simp; fail) | blast)+)

text \<open>The event of a spawn may be named as a cause afterwards.\<close>

lemma ok_admit_child [wp]:
  assumes "good F K C L s" "cause \<in> C" "\<And>n s'. good F K (insert n C) L s' \<Longrightarrow> Q (n, s')"
  shows "ok (admit_child isolate cause outcome s) Q"
  unfolding admit_child_def
  using assms(1,2) by - (rule assms(3) wp | assumption | rule ok_Let_plain | (simp; fail))+

lemma ok_exec_spawn [THEN ok_conseq, wp]:
  "good F K C L s \<Longrightarrow> cause \<in> C \<Longrightarrow> ok (exec_spawn isolate cause spawn s) (good F K C L)"
  unfolding exec_spawn_def
  by (rule ok_fin, (rule wp | assumption | (simp; fail) | blast)+)

lemma ok_exec_spawn_observed [THEN ok_conseq, wp]:
  assumes "good F K C L s" "cause \<in> C"
  shows "ok (exec_spawn_observed index isolate cause spawn continuation restart terminal s) (good F K C L)"
proof (rule ok_fin)
  have rest: "ok (get_entry index s' \<bind> (\<lambda>entry. let generation = en_generation entry;
        (attempted, s) = push_event isolate (Some c) (SendDispatchAttempted (rt_shard s') isolate generation) s'
      in enqueue_call_continuation index message None s \<bind> (\<lambda>(r, s). Some (case continuation_result r of
           Inr _ \<Rightarrow> log_event isolate (Some attempted) (SendAccepted (rt_shard s) isolate generation) s
         | Inl reason \<Rightarrow> log_event isolate (Some attempted) (SendRejected (rt_shard s) isolate generation reason) s))))
      (fin F K C L)" if "good F K D L s'" "C \<subseteq> D" "c \<in> D" for D c s' message
    using that by - (rule wp | assumption | rule ok_Let_plain | (simp; fail) | blast)+
  show "ok (exec_spawn_observed index isolate cause spawn continuation restart terminal s) (fin F K C L)"
    unfolding exec_spawn_observed_def
    using assms by - (rule rest wp | assumption | (simp; fail) | blast)+
qed

lemma good_number [wp]: "good F K C L s \<Longrightarrow> good F K C L (s\<lparr>rt_next_call := rt_next_call s + 1\<rparr>)"
proof (rule good_step)
  have eq: "core_of L (s\<lparr>rt_next_call := rt_next_call s + 1\<rparr>)
      = (core_of L s)\<lparr>co_next_call := co_next_call (core_of L s) + 1\<rparr>"
    by (simp add: core_of_def)
  show "core_step F (core_of L s) (core_of L (s\<lparr>rt_next_call := rt_next_call s + 1\<rparr>))"
    unfolding eq by (rule CsNumber)
qed

lemma ok_exec_spawn_observed_on [THEN ok_conseq, wp]:
  assumes "good F K C L s" "cause \<in> C"
  shows "ok (exec_spawn_observed_on E index isolate cause target spawn capacity restartable continuation s) (good F K C L)"
  unfolding exec_spawn_observed_on_def Let_def
  using assms by - (rule wp | assumption | (simp; fail))+

lemma ok_exec_reply [THEN ok_conseq, wp]:
  "good F K C L s \<Longrightarrow> cause \<in> C \<Longrightarrow> ok (exec_reply E isolate cause reply cx s) (good F K C L)"
  unfolding exec_reply_def by (rule wp | assumption | (simp; fail))+

lemma ok_exec_reject [THEN ok_conseq, wp]:
  "good F K C L s \<Longrightarrow> cause \<in> C \<Longrightarrow> ok (exec_reject E isolate cause reason cx s) (good F K C L)"
  unfolding exec_reject_def by (rule wp | assumption | (simp; fail))+

lemma ok_exec_fail [THEN ok_conseq2, wp]:
  "good F K C L s \<Longrightarrow> cause \<in> C \<Longrightarrow> ok (exec_fail E index isolate cause round s) (\<lambda>(r, s'). good F K C L s')"
  unfolding exec_fail_def by (rule wp | assumption)+

lemma ok_execute_batch:
  assumes "\<And>e cx round s. e \<in> set effects \<Longrightarrow> good F K C L s
      \<Longrightarrow> ok (execute_effect E index cause e cx round s) (\<lambda>(b, r, s'). good F K C L s')"
  shows "good F K C L s \<Longrightarrow> ok (execute_batch E index cause effects cx round s) (\<lambda>(b, r, s'). good F K C L s')"
  using assms
proof (induction effects arbitrary: cx round s)
  case (Cons e effects)
  show ?case
    using Cons.prems(1)
    by (simp only: execute_batch.simps)
       (rule Cons.IH Cons.prems(2) [THEN ok_conseq3] wp | assumption | simp add: Cons.prems(2))+
qed (simp add: ok_Some)

lemma ok_execute_effect:
  assumes kinds: "backend_kinds E" and cause: "cause \<in> C"
  shows "good F K C L s \<Longrightarrow> ok (execute_effect E index cause effect cx round s) (\<lambda>(b, r, s'). good F K C L s')"
proof (induction effect arbitrary: cx round s)
  case (Batch effects)
  show ?case
    using Batch.prems
    by (subst execute_effect.simps)
       (simp only: effect.case Let_def, (rule ok_execute_batch Batch.IH wp | assumption)+)
qed (subst execute_effect.simps, simp only: effect.case Let_def,
     (rule ok_fin3 wp | assumption | rule kinds cause ok_Let_plain | (simp add: cause; fail)
      | (simp only: prod.case) | blast)+)+

lemma ok_effect [THEN ok_conseq3, wp]:
  "good F K C L s \<Longrightarrow> cause \<in> C \<Longrightarrow> backend_kinds E
     \<Longrightarrow> ok (execute_effect E index cause effect cx round s) (\<lambda>(b, r, s'). good F K C L s')"
  by (rule ok_execute_effect)

section \<open>A turn\<close>

lemma ok_run_handler [THEN ok_conseq2, wp]:
  assumes "good F K C L s"
    and live: "\<And>e. get_entry index s = Some e \<Longrightarrow> \<not> en_stopped e"
  shows "ok (run_handler E index message s) (\<lambda>(r, s'). good F K C L s')"
proof (rule okI)
  fix x assume run: "run_handler E index message s = Some x"
  then obtain e where e: "get_entry index s = Some e" by (auto simp: run_handler_def Option.bind_eq_Some_conv)
  obtain now w where now: "clock_now E s = (now, s\<lparr>rt_world := w\<rparr>)" by (simp add: clock_now_def case_prod_unfold)
  have set: "good F K C L (set_entry index (e\<lparr>en_handler := h\<rparr>) (s\<lparr>rt_world := w'\<rparr>))" for h w'
    by (rule good_set_entry [OF good_update(1) [OF assms(1)]])
       (use e live [OF e] in \<open>auto simp: get_entry_def intro: entry_evolves_live split: if_splits\<close>)
  then have "good F K C L (capture_caller c (set_entry index (e\<lparr>en_handler := h\<rparr>) (s\<lparr>rt_world := w'\<rparr>)))" for c h w'
    by (rule wp)
  with set run e now show "case x of (r, s') \<Rightarrow> good F K C L s'"
    by (auto simp: run_handler_def Let_def split: prod.splits option.splits if_splits)
qed

lemma ok_turn_panicked [THEN ok_conseq2, wp]:
  "good F K C L s \<Longrightarrow> started \<in> C
     \<Longrightarrow> ok (turn_panicked E index isolate started cx round s) (\<lambda>(r, s'). good F K C L s')"
  unfolding turn_panicked_def
  by (rule ok_fin2, (rule wp | assumption | (simp; fail) | blast)+)

lemma ok_promote_captures [wp]:
  assumes "good F K C L s" "cause \<in> C" "\<And>r s'. good F K C L s' \<Longrightarrow> ok (f r s') Q"
  shows "ok (let (r, s') = promote_captures isolate cause s in f r s') Q"
  using assms(3) [OF good_promote_captures [OF assms(1,2)]] by (simp add: case_prod_unfold Let_def)

lemma ok_turn_finished [THEN ok_conseq2, wp]:
  "good F K C L s \<Longrightarrow> started \<in> C \<Longrightarrow> backend_kinds E
     \<Longrightarrow> ok (turn_finished E index isolate started effect cx round s) (\<lambda>(r, s'). good F K C L s')"
  unfolding turn_finished_def
  by (rule ok_fin2, (rule wp | assumption | rule ok_Let_plain | (simp; fail) | blast)+)

end
