(* ===== verification/Rt_Runs.thy ===== *)
theory Rt_Runs
  imports Rt_Turns "HOL-Library.Sublist" "HOL-Library.Multiset"
begin

text \<open>
  Rounds and steps of the runtime: the ledger machine extended by the start of a handler, the
  collection of stopped isolates, and the states a runtime can reach.
\<close>

section \<open>Starting a handler\<close>

inductive start_step :: "nat set \<Rightarrow> nat \<Rightarrow> ('h, 'm) core \<Rightarrow> ('h, 'm) core \<Rightarrow> bool" for F where
  "i < length (co_entries K) \<Longrightarrow> \<not> en_stopped (co_entries K ! i) \<Longrightarrow> cause_in F (co_next_event K) cause
     \<Longrightarrow> start_step F i K (c_log (en_id (co_entries K ! i)) (Some cause) HandlerStarted K)"

inductive_cases start_stepE: "start_step F i K K'"

lemma start_kind [simp]: "attempts c [HandlerStarted] = 0" "endings c [HandlerStarted] = []"
  by (simp_all add: attempts_def endings_def)

lemma core_inv_start:
  assumes "start_step F i K K'" "core_inv F K" shows "core_inv F K'"
  using assms(1)
proof cases
  case (1 cause)
  have "log_ok F K'" using assms(2) 1 by (auto simp: core_inv_def intro: log_ok_log)
  moreover have "registry_ok F K'" "table_ok F K'"
    using assms(2) unfolding 1(1) core_inv_def registry_ok_iff table_ok_def
    by (auto elim: entries_ok_mono driver_ok_mono isolate_ok_mono)
  moreover have "fate_ok K'"
    using assms(2) unfolding 1(1) core_inv_def by (elim conjE) (rule fate_ok_frame [of K], simp_all)
  moreover have "trace_ok K'" using assms(2) unfolding 1(1) core_inv_def by simp
  ultimately show ?thesis by (simp add: core_inv_def)
qed

text \<open>A run of the machine, with the positions of the isolates whose handlers it starts.\<close>

inductive runs :: "nat set \<Rightarrow> nat list \<Rightarrow> ('h, 'm) core \<Rightarrow> ('h, 'm) core \<Rightarrow> bool" for F where
  RunRefl: "runs F [] K K"
| RunQuiet: "runs F xs K K1 \<Longrightarrow> core_step F K1 K2 \<Longrightarrow> runs F xs K K2"
| RunStart: "runs F xs K K1 \<Longrightarrow> start_step F i K1 K2 \<Longrightarrow> runs F (xs @ [i]) K K2"

lemma runs_inv: "runs F xs K K' \<Longrightarrow> core_inv F K \<Longrightarrow> core_inv F K'"
  by (induction rule: runs.induct) (auto intro: core_inv_step core_inv_start)

lemma runs_trans:
  assumes "runs F ys K1 K2" "runs F xs K K1" shows "runs F (xs @ ys) K K2"
  using assms
proof (induction rule: runs.induct)
  case (RunStart ys K1 K2 i K3)
  from runs.RunStart [OF RunStart.IH [OF RunStart.prems] RunStart.hyps(2)] show ?case by simp
qed (auto intro: runs.intros)

lemma runs_quiet: "core_steps F K K' \<Longrightarrow> runs F [] K K'"
  by (induction rule: rtranclp_induct) (auto intro: runs.intros)

lemma runs_start: "start_step F i K K' \<Longrightarrow> runs F [i] K K'"
  using RunStart [OF RunRefl] by fastforce

subsection \<open>What the log shows of the starts\<close>

definition starts :: "('h, 'm) core \<Rightarrow> nat list" where
  "starts K = map ev_isolate (filter (\<lambda>e. ev_kind e = HandlerStarted) (co_events K))"

lemma starts_log [simp]:
  "starts (c_log i c k K) = starts K @ (if k = HandlerStarted then [i] else [])"
  by (simp add: starts_def c_log_def Let_def)

lemma starts_logs: "HandlerStarted \<notin> set ks \<Longrightarrow> starts (fold (c_log i c) ks K) = starts K"
  by (induction ks arbitrary: K) auto

lemma starts_update [simp]:
  "starts (K\<lparr>co_entries := x1\<rparr>) = starts K" "starts (K\<lparr>co_indexes := x2\<rparr>) = starts K"
  "starts (K\<lparr>co_next_isolate := x3\<rparr>) = starts K" "starts (K\<lparr>co_next_call := x4\<rparr>) = starts K"
  "starts (K\<lparr>co_next_ordinal := x5\<rparr>) = starts K" "starts (K\<lparr>co_calls := x6\<rparr>) = starts K"
  "starts (K\<lparr>co_open := x7\<rparr>) = starts K"
  by (simp_all add: starts_def)

lemma settlement_not_start: "settlement c ks \<Longrightarrow> HandlerStarted \<notin> set ks"
  by (auto elim: settlement.cases)

lemma quiet_starts: "core_step F K K' \<Longrightarrow> starts K' = starts K"
  by (induction rule: core_step.induct) (auto simp: starts_logs settlement_not_start)

text \<open>An isolate keeps its position; new ones are appended.\<close>

definition ids :: "('h, 'm) core \<Rightarrow> nat list" where
  "ids K = map en_id (co_entries K)"

lemma map_id_update: "en_id e = en_id (es ! i) \<Longrightarrow> map en_id (es[i := e]) = map en_id es"
  by (metis list_update_id map_update)

lemma quiet_ids: "core_step F K K' \<Longrightarrow> prefix (ids K) (ids K')"
  by (induction rule: core_step.induct) (auto simp: ids_def entry_evolves_def map_id_update)

lemma prefix_nth: "prefix xs ys \<Longrightarrow> i < length xs \<Longrightarrow> ys ! i = xs ! i"
  by (auto simp: prefix_def nth_append)

lemma runs_starts:
  "runs F xs K K' \<Longrightarrow> prefix (ids K) (ids K') \<and> (\<forall>i \<in> set xs. i < length (ids K'))
     \<and> starts K' = starts K @ map ((!) (ids K')) xs"
proof (induction rule: runs.induct)
  case (RunQuiet xs K K1 K2)
  have pre: "prefix (ids K1) (ids K2)" using RunQuiet.hyps(2) by (rule quiet_ids)
  then have len: "length (ids K1) \<le> length (ids K2)" by (rule prefix_length_le)
  have "map ((!) (ids K2)) xs = map ((!) (ids K1)) xs" using RunQuiet.IH pre by (simp add: prefix_nth)
  with RunQuiet.IH quiet_starts [OF RunQuiet.hyps(2)] pre len show ?case
    by (auto intro: prefix_order.trans)
next
  case (RunStart xs K K1 i K2)
  from RunStart.hyps(2) show ?case
  proof cases
    case (1 cause)
    have "ids K2 = ids K1" unfolding 1(1) by (simp add: ids_def)
    with RunStart.IH 1 show ?thesis by (auto simp: ids_def)
  qed
qed simp

section \<open>Turns and rounds\<close>

lemma good_init: "core_inv F (core_of L s) \<Longrightarrow> good F (core_of L s) {} L s"
  by (simp add: good_def)

lemma good_steps: "good F K C L s \<Longrightarrow> core_steps F K (core_of L s)"
  by (simp add: good_def)

lemma run_turn_live:
  assumes kinds: "backend_kinds E" and inv: "core_inv F (core_of {} s)"
    and e: "get_entry i s = Some e" "\<not> en_stopped e"
    and run: "run_turn E i message round s = Some (did, round', s')"
  shows "did \<and> runs F [i] (core_of {} s) (core_of {} s')"
proof -
  define s1 where "s1 = log_event (en_id e) None MailboxAccepted s"
  define s2 where "s2 = log_event (en_id e) (Some (rt_next_event s)) HandlerStarted s1"
  have e2: "get_entry i s2 = Some e" using e by (simp add: s2_def s1_def)
  obtain effect s3 where did: "did" and h: "run_handler E i message s2 = Some (effect, s3)"
    and rest: "(case effect of
        None \<Rightarrow> turn_panicked E i (en_id e) (rt_next_event s1) (dv_context message) round s3
      | Some effect \<Rightarrow> turn_finished E i (en_id e) (rt_next_event s1) effect (dv_context message) round s3)
      = Some (round', s')"
    using run e unfolding run_turn_def case_prod_unfold Let_def push_event_id s1_def s2_def
    by (auto simp: Option.bind_eq_Some_conv cong: option.case_cong)
  have g1: "good F (core_of {} s) {rt_next_event s} {} s1"
    unfolding s1_def by (rule good_insert, rule wp, rule good_init [OF inv]) simp_all
  have "start_step F i (core_of {} s1) (core_of {} s2)"
    using g1 e start_step.intros [of i "core_of {} s1" F "rt_next_event s"]
    by (auto simp: s2_def core_of_log good_def get_entry_def s1_def split: if_splits)
  then have start: "runs F [i] (core_of {} s) (core_of {} s2)"
    using runs_trans [OF runs_start runs_quiet [OF good_steps [OF g1]]] by fastforce
  have "good F (core_of {} s2) {rt_next_event s1} {} s2"
    using runs_inv [OF start inv] by (simp add: good_def s2_def)
  then have g2: "ok (run_handler E i message s2) (\<lambda>(r, s'). good F (core_of {} s2) {rt_next_event s1} {} s')"
    by (rule ok_run_handler) (use e e2 in auto)
  then have g3: "good F (core_of {} s2) {rt_next_event s1} {} s3" using h by (auto simp: ok_def)
  have "ok (case effect of
        None \<Rightarrow> turn_panicked E i (en_id e) (rt_next_event s1) (dv_context message) round s3
      | Some effect \<Rightarrow> turn_finished E i (en_id e) (rt_next_event s1) effect (dv_context message) round s3)
      (\<lambda>(r, s'). good F (core_of {} s2) {rt_next_event s1} {} s')"
    using g3 kinds by - (rule wp | assumption | simp)+
  then have "good F (core_of {} s2) {rt_next_event s1} {} s'" using rest by (auto simp: ok_def)
  then have "runs F [] (core_of {} s2) (core_of {} s')" by (intro runs_quiet good_steps)
  from runs_trans [OF this start] did show ?thesis by simp
qed

lemma run_turn_stopped:
  assumes inv: "core_inv F (core_of {} s)" and e: "get_entry i s = Some e" "en_stopped e"
    and run: "run_turn E i message round s = Some (did, round', s')"
  shows "\<not> did \<and> runs F [] (core_of {} s) (core_of {} s')"
proof (cases "en_stopped_event e")
  case None
  with run e show ?thesis by (auto simp: run_turn_def intro: runs.intros)
next
  case (Some n)
  have "good F (core_of {} s) {n} {} s" using good_stopped_event [OF good_init [OF inv] e Some] .
  then have "ok (abandon_message (en_id e) n message s) (good F (core_of {} s) {n} {})" by (rule ok_abandon_message) simp_all
  moreover have "\<not> did \<and> abandon_message (en_id e) n message s = Some s'"
    using run e Some by (auto simp: run_turn_def Let_def Option.bind_eq_Some_conv)
  ultimately show ?thesis by (auto simp: ok_def intro!: runs_quiet dest: good_steps)
qed

lemma run_turn_runs:
  assumes "backend_kinds E" "core_inv F (core_of {} s)" "run_turn E i message round s = Some (did, round', s')"
  shows "runs F (if did then [i] else []) (core_of {} s) (core_of {} s')"
proof -
  obtain e where e: "get_entry i s = Some e"
    using assms(3) by (auto simp: run_turn_def Option.bind_eq_Some_conv)
  show ?thesis
    using run_turn_live [OF assms(1,2) e _ assms(3)] run_turn_stopped [OF assms(2) e _ assms(3)]
    by (cases "en_stopped e") auto
qed

lemma run_round_runs:
  assumes kinds: "backend_kinds E"
  shows "core_inv F (core_of {} s) \<Longrightarrow> run_round E is round s = Some (n, s')
    \<Longrightarrow> \<exists>xs. runs F xs (core_of {} s) (core_of {} s') \<and> length xs = n \<and> subseq xs is"
proof (induction "is" arbitrary: round s n)
  case Nil
  then show ?case by (auto intro!: exI [of _ "[]"] RunRefl)
next
  case (Cons i ids)
  obtain m round1 where t: "take_round i round = (m, round1)" by fastforce
  show ?case
  proof (cases m)
    case None
    with Cons.prems t have "run_round E ids round1 s = Some (n, s')" by simp
    from Cons.IH [OF Cons.prems(1) this] show ?thesis by (auto intro: list_emb.intros)
  next
    case (Some message)
    with Cons.prems t obtain did round2 s1 n1 where turn: "run_turn E i message round1 s = Some (did, round2, s1)"
      and rest: "run_round E ids round2 s1 = Some (n1, s')" and n: "n = (if did then n1 + 1 else n1)"
      by (auto simp: Option.bind_eq_Some_conv)
    note 1 = run_turn_runs [OF kinds Cons.prems(1) turn]
    from Cons.IH [OF runs_inv [OF 1 Cons.prems(1)] rest]
    obtain xs where xs: "runs F xs (core_of {} s1) (core_of {} s')" "length xs = n1" "subseq xs ids" by blast
    from runs_trans [OF xs(1) 1] xs(2,3) n show ?thesis
      by (intro exI [of _ "(if did then [i] else []) @ xs"]) (auto intro: list_emb.intros)
  qed
qed

lemma ok_collect_round [THEN ok_conseq2, wp]:
  "good F K C L s \<Longrightarrow> ok (collect_round is s) (\<lambda>(r, s'). good F K C L s')"
proof (induction "is" arbitrary: s)
  case (Cons i ids)
  have pending: "ok (entry_has_pending_message i s) (\<lambda>_. True)" for s :: "('h, 'm, 'd) rt" by (simp add: ok_def)
  show ?case
    using Cons.prems
    by (simp only: collect_round.simps)
       (rule Cons.IH [THEN ok_conseq2] pending [THEN ok_conseq] wp | assumption | simp only: prod.case)+
qed (simp add: ok_Some)

section \<open>Collecting stopped isolates\<close>

lemma swap_remove_length [simp]: "length (swap_remove i xs) = length xs - 1"
  by (simp add: swap_remove_def)

lemma nth_swap_remove: "j < i \<Longrightarrow> i < length xs \<Longrightarrow> swap_remove i xs ! j = xs ! j"
  by (simp add: swap_remove_def nth_butlast)

lemma gc_entries_spec:
  "gc_entries P i removed stopped es = (es', removed', stopped') \<Longrightarrow> \<forall>j < i. j < length es \<longrightarrow> \<not> P (es ! j)
     \<Longrightarrow> mset es' = filter_mset (\<lambda>e. \<not> P e) (mset es) \<and> (removed' \<longleftrightarrow> removed \<or> (\<exists>e \<in> set es. P e))
       \<and> (\<not> (\<exists>e \<in> set es. P e) \<longrightarrow> es' = es)"
proof (induction P i removed stopped es arbitrary: es' removed' stopped' rule: gc_entries.induct)
  case (1 P i removed stopped es)
  show ?case
  proof (cases "i < length es")
    case False
    with 1(4) have "\<forall>e \<in> set es. \<not> P e" by (auto simp: in_set_conv_nth)
    then have "filter_mset (\<lambda>e. \<not> P e) (mset es) = mset es"
      by (metis (mono_tags, lifting) filter_True mset_filter)
    with 1(3) False \<open>\<forall>e \<in> set es. \<not> P e\<close> show ?thesis by (auto simp: gc_entries.simps [of P i])
  next
    case True
    show ?thesis
    proof (cases "P (es ! i)")
      case True
      have "gc_entries P i True stopped (swap_remove i es) = (es', removed', stopped')"
        using 1(3) \<open>i < length es\<close> True by (simp add: gc_entries.simps [of P i removed])
      from 1(1) [OF \<open>i < length es\<close> True this] 1(4) \<open>i < length es\<close> mset_swap_remove [OF \<open>i < length es\<close>, symmetric] True
      show ?thesis by (auto simp: nth_swap_remove nth_mem)
    next
      case False
      have "gc_entries P (i + 1) removed (stopped \<or> en_stopped (es ! i)) es = (es', removed', stopped')"
        using 1(3) \<open>i < length es\<close> False by (simp add: gc_entries.simps [of P i removed])
      from 1(2) [OF \<open>i < length es\<close> False this] 1(4) False show ?thesis by (auto simp: less_Suc_eq)
    qed
  qed
qed

lemma index_list_spec:
  assumes "distinct (map en_id es)"
  shows "(\<forall>i < length es. index_list k es m (en_id (es ! i)) = Some (k + i))
    \<and> (\<forall>x. x \<notin> en_id ` set es \<longrightarrow> index_list k es m x = m x)"
  using assms
proof (induction es arbitrary: k m)
  case (Cons e es)
  then have IH: "\<forall>i < length es. index_list (k + 1) es (m(en_id e \<mapsto> k)) (en_id (es ! i)) = Some (k + 1 + i)"
    "\<forall>x. x \<notin> en_id ` set es \<longrightarrow> index_list (k + 1) es (m(en_id e \<mapsto> k)) x = (m(en_id e \<mapsto> k)) x"
    by simp_all
  with Cons.prems show ?case by (auto simp: nth_Cons split: nat.splits)
qed simp

lemma indexed_rebuild:
  assumes "distinct (map en_id es)" shows "indexed (index_list 0 es Map.empty) es"
proof -
  let ?m = "index_list 0 es Map.empty"
  have at: "?m (en_id (es ! i)) = Some i" if "i < length es" for i
    using index_list_spec [OF assms, of 0 Map.empty] that by simp
  have "?m x = None" if "x \<notin> en_id ` set es" for x
    using index_list_spec [OF assms, of 0 Map.empty] that by simp
  then have "\<exists>i < length es. en_id (es ! i) = x" if "?m x \<noteq> None" for x
    using that by (metis (no_types, lifting) image_iff in_set_conv_nth)
  then show ?thesis unfolding indexed_def using at by fastforce
qed

lemma indexed_distinct:
  assumes "indexed m es" shows "distinct (map en_id es)"
  unfolding distinct_conv_nth
proof (intro allI impI)
  fix i j assume *: "i < length (map en_id es)" "j < length (map en_id es)" "i \<noteq> j"
  have "m (en_id (es ! i)) = Some i" "m (en_id (es ! j)) = Some j"
    using assms * by (auto simp: indexed_def)
  with * show "map en_id es ! i \<noteq> map en_id es ! j" by auto
qed

lemma distinct_sub_mset:
  assumes "mset xs \<subseteq># mset ys" "distinct ys" shows "distinct xs"
proof -
  obtain zs where "mset ys = mset (xs @ zs)"
    using assms(1) by (metis ex_mset mset_append mset_subset_eq_exists_conv)
  with assms(2) have "distinct (xs @ zs)" using mset_eq_imp_distinct_iff by blast
  then show ?thesis by simp
qed

lemma gc_stopped_entries_spec:
  assumes "indexed (rt_indexes s) (rt_entries s)" and stopped: "rt_has_stopped s"
  shows "mset (rt_entries (gc_stopped_entries s)) = filter_mset (\<lambda>e. \<not> can_gc_stopped_entry s e) (mset (rt_entries s))"
    and "indexed (rt_indexes (gc_stopped_entries s)) (rt_entries (gc_stopped_entries s))"
proof -
  obtain es removed st where gc: "gc_entries (can_gc_stopped_entry s) 0 False False (rt_entries s) = (es, removed, st)"
    by (metis prod_cases3)
  note spec = gc_entries_spec [OF gc, simplified]
  have s': "gc_stopped_entries s = (if removed
      then rebuild_entry_indexes (s\<lparr>rt_entries := es, rt_has_stopped := st\<rparr>)
      else s\<lparr>rt_entries := es, rt_has_stopped := st\<rparr>)"
    using gc stopped by (simp add: gc_stopped_entries_def Let_def)
  show "mset (rt_entries (gc_stopped_entries s)) = filter_mset (\<lambda>e. \<not> can_gc_stopped_entry s e) (mset (rt_entries s))"
    using spec by (simp add: s' rebuild_entry_indexes_def) metis
  have "distinct (map en_id es)"
  proof -
    have "mset (map en_id es) \<subseteq># mset (map en_id (rt_entries s))"
      using spec by (simp add: image_mset_subseteq_mono)
    moreover have "distinct (map en_id (rt_entries s))" using assms(1) by (rule indexed_distinct)
    ultimately show ?thesis using distinct_sub_mset by blast
  qed
  then show "indexed (rt_indexes (gc_stopped_entries s)) (rt_entries (gc_stopped_entries s))"
    using spec assms(1) by (auto simp: s' rebuild_entry_indexes_def indexed_rebuild)
qed

lemma gc_core:
  "core_of L (gc_stopped_entries s) = (core_of L s)\<lparr>co_entries := rt_entries (gc_stopped_entries s),
     co_indexes := rt_indexes (gc_stopped_entries s)\<rparr>"
  by (simp add: gc_stopped_entries_def rebuild_entry_indexes_def core_of_def Let_def split: prod.split)

lemma gc_inv:
  assumes "core_inv F (core_of L s)" shows "core_inv F (core_of L (gc_stopped_entries s))"
proof (cases "rt_has_stopped s")
  case True
  have reg: "indexed (rt_indexes s) (rt_entries s)" "entries_ok F (rt_next_isolate s) (rt_next_event s) (rt_entries s)"
    using assms by (auto simp: core_inv_def registry_ok_iff)
  note gc = gc_stopped_entries_spec [OF reg(1) True]
  have "set (rt_entries (gc_stopped_entries s)) \<subseteq> set (rt_entries s)"
    using arg_cong [OF gc(1), of set_mset] by auto
  with reg(2) have "entries_ok F (rt_next_isolate s) (rt_next_event s) (rt_entries (gc_stopped_entries s))"
    by (auto simp: entries_ok_def)
  with gc(2) have "registry_ok F (core_of L (gc_stopped_entries s))"
    unfolding gc_core by (simp add: registry_ok_iff)
  moreover have "log_ok F (core_of L (gc_stopped_entries s))" "table_ok F (core_of L (gc_stopped_entries s))"
    "fate_ok (core_of L (gc_stopped_entries s))" "trace_ok (core_of L (gc_stopped_entries s))"
    using assms unfolding gc_core
    by (auto simp: core_inv_def table_ok_def intro: fate_ok_frame [of "core_of L s"])
  ultimately show ?thesis by (simp add: core_inv_def)
qed (simp add: gc_stopped_entries_def assms)

section \<open>A step\<close>

lemma sorted_wrt_subseq: "subseq xs ys \<Longrightarrow> sorted_wrt P ys \<Longrightarrow> sorted_wrt P xs"
  by (induction rule: list_emb.induct) (auto dest: list_emb_set)

text \<open>
  A step is one run of the machine, in which handlers start in the order of the registry, followed
  by the collection of stopped isolates; its result is the number of handlers started.
\<close>

lemma rt_step_runs:
  assumes kinds: "backend_kinds E" and inv: "core_inv F (core_of {} s)" and step: "rt_step E s = Some (n, s')"
  shows "\<exists>xs s1. runs F xs (core_of {} s) (core_of {} s1) \<and> length xs = n \<and> sorted_wrt (<) xs
    \<and> s' = gc_stopped_entries s1"
proof -
  define s0 where "s0 = snd (clock_now E s)"
  obtain now s2 s3 round s4 s5 s6 where
    now: "now = fst (clock_now E s)"
    and s2: "advance_driver E now s0 = Some s2" and s3: "harvest_isolate_call_timeouts now s2 = Some s3"
    and s4: "collect_round [0..<length (rt_entries s3)] s3 = Some (round, s4)"
    and s5: "run_round E [0..<length round] round s4 = Some (n, s5)"
    and s6: "sweep_dropped_deferred_slots E s5 = Some s6" and s': "s' = gc_stopped_entries s6"
    using step unfolding rt_step_def Let_def case_prod_unfold s0_def
    by (auto simp: Option.bind_eq_Some_conv)
  have "good F (core_of {} s) {} {} s0"
    unfolding s0_def using good_init [OF inv] good_same [OF core_of_clock] by blast
  then have "ok (advance_driver E now s0 \<bind> harvest_isolate_call_timeouts now \<bind>
      (\<lambda>s. collect_round [0..<length (rt_entries s)] s)) (\<lambda>(r, s'). good F (core_of {} s) {} {} s')"
    by - (rule wp | assumption)+
  then have "good F (core_of {} s) {} {} s4" using s2 s3 s4 by (auto simp: ok_def)
  then have r1: "runs F [] (core_of {} s) (core_of {} s4)" by (intro runs_quiet good_steps)
  from run_round_runs [OF kinds runs_inv [OF r1 inv] s5] obtain xs where
    r2: "runs F xs (core_of {} s4) (core_of {} s5)" and xs: "length xs = n" "subseq xs [0..<length round]" by blast
  have r12: "runs F xs (core_of {} s) (core_of {} s5)" using runs_trans [OF r2 r1] by simp
  have "good F (core_of {} s5) {} {} s6"
    using ok_sweep_dropped_deferred_slots [OF good_init [OF runs_inv [OF r12 inv]], where Q = "good F (core_of {} s5) {} {}"] s6
    by (auto simp: ok_def)
  then have "runs F [] (core_of {} s5) (core_of {} s6)" by (intro runs_quiet good_steps)
  from runs_trans [OF this r12] have "runs F xs (core_of {} s) (core_of {} s6)" by simp
  moreover have "sorted_wrt (<) xs" by (rule sorted_wrt_subseq [OF xs(2)]) (simp add: sorted_wrt_upt)
  ultimately show ?thesis using xs(1) s' by blast
qed

lemma rt_step_inv:
  "backend_kinds E \<Longrightarrow> core_inv F (core_of {} s) \<Longrightarrow> rt_step E s = Some (n, s') \<Longrightarrow> core_inv F (core_of {} s')"
  using rt_step_runs [of E F s n s'] by (auto intro: gc_inv runs_inv)

end
