(* ===== verification/Rt_Reach.thy ===== *)
theory Rt_Reach
  imports Rt_Runs
begin

text \<open>
  Refinement of the operations on envelopes from other shards and of the host's operations, and the
  states a runtime can reach.
\<close>

section \<open>Envelopes\<close>

fun env_cause :: "('h, 'm, 'd) envelope \<Rightarrow> nat" where
  "env_cause (EnvSend _ _ cause) = cause"
| "env_cause (EnvCallReply _ _ cause _) = cause"
| "env_cause (EnvSpawnRequest _ _ _ _ _ cause) = cause"
| "env_cause (EnvSpawnReply _ _ cause _) = cause"
| "env_cause (EnvSpawnCancel _ _ _ cause) = cause"
| "env_cause (EnvChildStop _ _ _ cause) = cause"
| "env_cause (EnvChildStopped _ _ _ cause) = cause"
| "env_cause (EnvChildRestart _ _ _ cause) = cause"
| "env_cause (EnvChildRestarted _ _ _ _ cause) = cause"

lemma ok_sent [wp]:
  "(\<And>a. r = Inl (SendFull a) \<Longrightarrow> ok (Some (f a)) Q) \<Longrightarrow> (\<And>a. r = Inl (SendClosed a) \<Longrightarrow> ok (Some (g a)) Q)
     \<Longrightarrow> (\<And>a. r = Inr a \<Longrightarrow> ok (Some (h a)) Q)
     \<Longrightarrow> ok (Some (case r of Inl (SendFull a) \<Rightarrow> f a | Inl (SendClosed a) \<Rightarrow> g a | Inr a \<Rightarrow> h a)) Q"
  by (auto split: sum.split try_send_error.split)

lemma ok_harvest_remote_send:
  "good F K C L s \<Longrightarrow> cause \<in> C
     \<Longrightarrow> ok (harvest_remote_send send cx cause s) (\<lambda>(r, s'). good F K C L s')"
  unfolding harvest_remote_send_def Let_def
  by (rule ok_sent wp | assumption | (simp; fail))+

lemma ok_complete_remote_isolate_call [THEN ok_conseq, wp]:
  "good F K C L s \<Longrightarrow> cause \<in> C \<Longrightarrow> ok (complete_remote_isolate_call c requester cause outcome s) (good F K C L)"
  unfolding complete_remote_isolate_call_def by (rule wp | assumption | simp)+

lemma ok_harvest_remote_call_reply:
  "good F K C L s \<Longrightarrow> cause \<in> C \<Longrightarrow> ok (harvest_remote_call_reply c requester cause outcome s) (good F K C L)"
  unfolding harvest_remote_call_reply_def
  by (cases outcome) (simp_all, (rule wp | assumption)+)

lemma ok_harvest_remote_spawn_request:
  "good F K C L s \<Longrightarrow> cause \<in> C
     \<Longrightarrow> ok (harvest_remote_spawn_request i owner ordinal spawn cause s) (\<lambda>(r, s'). good F K C L s')"
  unfolding harvest_remote_spawn_request_def by (rule wp | assumption)+

lemma good_record_remote_child [wp]:
  "good F K C L s \<Longrightarrow> good F K C L (record_remote_child_on_owner parent child ordinal capacity restartable s)"
  unfolding record_remote_child_on_owner_def by (rule wp | assumption)+

lemma ok_harvest_remote_spawn_reply:
  "good F K C L s \<Longrightarrow> cause \<in> C
     \<Longrightarrow> ok (harvest_remote_spawn_reply i cause outcome s) (\<lambda>(r, s'). good F K C L s')"
  unfolding harvest_remote_spawn_reply_def Let_def
  by (rule wp | assumption | (simp; fail) | simp only: prod.case)+

lemma good_remember_cancel [wp]:
  "good F K C L s \<Longrightarrow> cause \<in> C \<Longrightarrow> good F K C L (remember_remote_spawn_cancel i isolate cause s)"
  unfolding remember_remote_spawn_cancel_def Let_def by (rule wp | assumption | (simp; fail))+

lemma ok_stop_remote_owned_child [THEN ok_conseq2, wp]:
  "good F K C L s \<Longrightarrow> cause \<in> C
     \<Longrightarrow> ok (stop_remote_owned_child E owner child ordinal cause s) (\<lambda>(r, s'). good F K C L s')"
  unfolding stop_remote_owned_child_def Let_def by (rule wp | assumption | (simp; fail))+

lemma entry_index_get: "entry_index a s = Some i \<Longrightarrow> get_entry i s = Some (rt_entries s ! i)"
  by (auto simp: entry_index_def get_entry_def Option.bind_eq_Some_conv split: if_splits)

lemma good_create_remote:
  assumes "good F K C L s" shows "good F K C L (snd (create_remote owner recipe s))"
proof -
  have "good F K C L (set_entry i ((rt_entries s' ! i)\<lparr>en_parent := None\<rparr>) s')"
    if "good F K C L s'" "entry_index a s' = Some i" for a i s'
    by (rule good_set_entry [OF that(1) entry_index_get [OF that(2)]]) (simp add: entry_evolves_def)
  then show ?thesis
    using assms good_recipe_create [OF assms, of "ra_isolate owner" recipe]
    by (auto simp: create_remote_def split: restart_recipe.split prod.split option.split)
qed

lemma ok_create_remote [wp]:
  assumes "good F K C L s" "\<And>r s'. good F K C L s' \<Longrightarrow> ok (f r s') Q"
  shows "ok (let (r, s') = create_remote owner recipe s in f r s') Q"
  using assms(2) [OF good_create_remote [OF assms(1)]] by (simp add: case_prod_unfold Let_def)

lemma ok_restart_remote_owned_child:
  "good F K C L s \<Longrightarrow> cause \<in> C
     \<Longrightarrow> ok (restart_remote_owned_child E owner child ordinal cause s) (\<lambda>(r, s'). good F K C L s')"
  unfolding restart_remote_owned_child_def
  by (rule wp | assumption | rule ok_Let_plain | (simp; fail))+

lemma ok_harvest_remote_spawn_cancel:
  "good F K C L s \<Longrightarrow> cause \<in> C
     \<Longrightarrow> ok (harvest_remote_spawn_cancel E i owner cause s) (\<lambda>(r, s'). good F K C L s')"
  unfolding harvest_remote_spawn_cancel_def Let_def by (rule wp | assumption)+

lemma good_harvest_remote_child_stopped:
  "good F K C L s \<Longrightarrow> cause \<in> C \<Longrightarrow> good F K C L (harvest_remote_child_stopped owner child ordinal cause s)"
  unfolding harvest_remote_child_stopped_def by (rule wp | assumption | simp)+

lemma good_harvest_remote_child_restarted:
  "good F K C L s \<Longrightarrow> cause \<in> C \<Longrightarrow> good F K C L (harvest_remote_child_restarted owner ordinal old outcome cause s)"
  unfolding harvest_remote_child_restarted_def by (rule wp | assumption | (simp; fail))+

lemma harvest_envelope_good:
  assumes good: "good F K C L s" and cause: "env_cause envelope \<in> F"
    and run: "harvest_remote_envelope E envelope s = Some (r, s')"
  shows "good F K C L s'"
proof -
  have g: "good F K (insert (env_cause envelope) C) L s"
    using good cause by (auto intro: good_insert simp: cause_in_def)
  have "ok (harvest_remote_envelope E envelope s) (\<lambda>(r, s'). good F K (insert (env_cause envelope) C) L s')"
    using g
    by (cases envelope)
       (simp_all add: harvest_remote_envelope_def ok_harvest_remote_send ok_harvest_remote_spawn_request
          ok_harvest_remote_spawn_reply ok_stop_remote_owned_child ok_restart_remote_owned_child
          ok_harvest_remote_spawn_cancel good_harvest_remote_child_stopped
          good_harvest_remote_child_restarted ok_Some ok_map_option ok_harvest_remote_call_reply)
  with run show ?thesis by (auto simp: ok_def dest: good_insertD)
qed

section \<open>The host\<close>

lemma core_inv_isolate_number:
  "core_inv F K \<Longrightarrow> core_inv F (K\<lparr>co_next_isolate := co_next_isolate K + 1\<rparr>)"
  unfolding core_inv_def registry_ok_iff table_ok_def
  by (auto elim: entries_ok_mono intro: fate_ok_frame [of K])

lemma register_with_bootstrap_inv:
  assumes "core_inv F (core_of L s)"
  shows "core_inv F (core_of L (snd (register_with_bootstrap isolate capacity bootstrap s)))"
proof (cases "dm_try_send bootstrap (dm_new capacity)")
  case (Pair r mailbox)
  show ?thesis
  proof (cases r)
    case (Inl err)
    then have "core_of L (snd (register_with_bootstrap isolate capacity bootstrap s))
        = (core_of L s)\<lparr>co_next_isolate := co_next_isolate (core_of L s) + 1\<rparr>"
      by (simp add: register_with_bootstrap_def Pair core_of_def Let_def)
    then show ?thesis using core_inv_isolate_number [OF assms] by simp
  next
    case (Inr u)
    let ?e = "\<lparr>en_id = rt_next_isolate s, en_generation = 0, en_parent = None, en_stopped = False,
        en_stopped_event = None, en_mailbox = \<lparr>am_mailbox = mailbox, am_closed = False\<rparr>,
        en_contexts = [None], en_overflow = [], en_handler = isolate\<rparr>"
    have eq: "core_of L (snd (register_with_bootstrap isolate capacity bootstrap s))
        = (core_of L s)\<lparr>co_next_isolate := co_next_isolate (core_of L s) + 1,
             co_entries := co_entries (core_of L s) @ [?e],
             co_indexes := (co_indexes (core_of L s))(en_id ?e \<mapsto> length (co_entries (core_of L s)))\<rparr>"
      by (simp add: register_with_bootstrap_def Pair Inr core_of_def Let_def)
    show ?thesis unfolding eq by (rule core_inv_step [OF CsRegister assms]) simp_all
  qed
qed

lemma compact_large:
  fixes s :: "('h, 'm, 'd) rt"
  assumes "rt_trace_start s \<le> length (rt_trace s)" "1 \<le> threshold"
  defines "s' \<equiv> compact_trace_prefix_if_empty_or_large threshold s"
  shows "rt_trace_start s' \<le> length (rt_trace s')" "trace_view s' = trace_view s" "rt_trace_start s' < threshold"
    "rt_dropped s' = rt_dropped s" "rt_retention s' = rt_retention s"
    "length (rt_trace s') - rt_trace_start s' = length (rt_trace s) - rt_trace_start s"
  using assms(1,2) unfolding s'_def
  by (auto simp: compact_trace_prefix_if_empty_or_large_def compact_trace_prefix_def trace_view_def)

lemma kept_of_enforce:
  assumes "kept_ok events (kept_of (s\<lparr>rt_retention := RetainFull\<rparr>))"
  shows "kept_ok events (kept_of (enforce_trace_retention s))"
proof -
  have view: "rt_trace_start s \<le> length (rt_trace s)" "rt_dropped s \<le> length events"
    "drop (rt_trace_start s) (rt_trace s) = drop (rt_dropped s) events"
    using assms by (simp_all add: kept_of_def kept_ok_def)
  have len: "length (rt_trace s) - rt_trace_start s = length events - rt_dropped s"
    using arg_cong [OF view(3), of length] by simp
  show ?thesis
  proof (cases "rt_retention s")
    case (RetainBounded c)
    define x where "x = active_trace_len s - c"
    define s1 where "s1 = s\<lparr>rt_trace_start := rt_trace_start s + x, rt_dropped := rt_dropped s + x\<rparr>"
    have enforce: "enforce_trace_retention s = compact_trace_prefix_if_empty_or_large (max c 1) s1"
      using RetainBounded by (auto simp: enforce_trace_retention_def s1_def x_def Let_def)
    have "rt_trace_start s1 \<le> length (rt_trace s1)"
      using view(1) by (simp add: s1_def x_def active_trace_len_def)
    note cl = compact_large [OF this, of "max c 1"]
    have "trace_view s1 = drop (rt_dropped s1) events"
      using arg_cong [OF view(3), of "drop x"] by (simp add: s1_def trace_view_def add.commute)
    moreover have "rt_dropped s1 \<le> length events" "length (rt_trace s1) - rt_trace_start s1 \<le> c" "rt_retention s1 = RetainBounded c"
      using view len RetainBounded by (simp_all add: s1_def x_def active_trace_len_def trace_view_def)
    ultimately have "kept_ok events (kept_of (compact_trace_prefix_if_empty_or_large (max c 1) s1))"
      using cl by (simp add: kept_ok_def kept_of_def trace_view_def)
    then show ?thesis unfolding enforce .
  qed (use view len in \<open>auto simp: enforce_trace_retention_def compact_trace_prefix_def active_trace_len_def
         kept_of_def kept_ok_def\<close>)
qed

lemma set_trace_retention_inv:
  assumes "core_inv F (core_of L s)" shows "core_inv F (core_of L (set_trace_retention retention s))"
proof -
  have eq: "core_of L (set_trace_retention retention s) = (core_of L s)\<lparr>co_kept := kept_of (set_trace_retention retention s)\<rparr>"
    by (auto simp: set_trace_retention_def enforce_trace_retention_def core_of_def compact_trace_prefix_def
          compact_trace_prefix_if_empty_or_large_def Let_def split: trace_retention.split)
  have "kept_ok (rt_observed s) (kept_of (s\<lparr>rt_retention := RetainFull\<rparr>))"
    using assms by (auto simp: core_inv_def trace_ok_def kept_of_def kept_ok_def)
  then have "kept_ok (rt_observed s) (kept_of (set_trace_retention retention s))"
    unfolding set_trace_retention_def by (intro kept_of_enforce) simp
  with assms show ?thesis unfolding eq core_inv_def
    by (auto simp: log_ok_def registry_ok_def table_ok_def trace_ok_def intro: fate_ok_frame [of "core_of L s"] simp: kinds_of_def)
qed

section \<open>Shutdown\<close>

lemma ct_new_ok: "driver_ok F a b ct_new" "isolate_ok F a b c ct_new"
  by (simp_all add: driver_ok_def isolate_ok_def ct_new_def bt_sorted_def)

lemma ct_new_sel [simp]: "ct_driver ct_new = []" "ct_isolate ct_new = []" "ct_deadlines ct_new = []"
  by (simp_all add: ct_new_def)

lemma shutdown_drain:
  assumes "core_inv F (core_of {} s)"
  shows "core_inv F (core_of (fst ` set (ct_isolate (rt_calls s)))
    (s\<lparr>rt_world := world, rt_completions := [], rt_calls := ct_new\<rparr>))" (is "core_inv F ?K")
proof -
  let ?K' = "(core_of {} s)\<lparr>co_calls := ct_new, co_open := fst ` set (ct_isolate (rt_calls s))\<rparr>"
  have eq: "?K = ?K'" by (simp add: core_of_def kept_of_def)
  have parts: "log_ok F (core_of {} s)" "registry_ok F (core_of {} s)" "table_ok F (core_of {} s)"
    "fate_ok (core_of {} s)" "trace_ok (core_of {} s)"
    using assms by (simp_all add: core_inv_def)
  have "table_ok F ?K'" by (simp add: table_ok_def ct_new_ok)
  moreover have "fate_ok ?K'"
  proof (rule fate_ok_flow [OF parts(4)])
    show "\<forall>c \<in> co_open ?K'. c < co_next_call ?K'"
      using parts(3) by (auto simp: table_ok_def isolate_ok_def)
  qed (simp_all add: in_flight_def)
  moreover have "log_ok F ?K'" "registry_ok F ?K'" "trace_ok ?K'"
    using parts by (simp_all add: registry_ok_iff)
  ultimately show ?thesis unfolding eq core_inv_def by blast
qed

lemma fold_shutdown_driver_good:
  assumes "good F K C L s" "\<forall>d \<in> set calls. dh_cause (dc_head d) \<in> C \<and> dh_kind (dc_head d) \<noteq> KindIsolateCall"
  shows "good F K C L (fold shutdown_driver_call calls s)"
  using assms
proof (induction calls arbitrary: s)
  case (Cons d calls)
  have "good F K C L (shutdown_driver_call d s)"
    unfolding shutdown_driver_call_def Let_def using Cons.prems by (intro good_log) auto
  with Cons show ?case by simp
qed simp

lemma fold_shutdown_isolate_good:
  assumes "good F K C (pi_call_id ` set calls) s" "pi_cause ` set calls \<subseteq> C" "distinct (map pi_call_id calls)"
  shows "good F K C {} (fold shutdown_isolate_call calls s)"
  using assms
proof (induction calls arbitrary: s)
  case (Cons p calls)
  have "good F K C (pi_call_id ` set (p # calls) - {pi_call_id p}) (shutdown_isolate_call p s)"
    unfolding shutdown_isolate_call_def
    by (rule good_settle_log) (use Cons.prems in \<open>auto intro!: wp settlement.intros\<close>)
  moreover have "pi_call_id ` set (p # calls) - {pi_call_id p} = pi_call_id ` set calls"
    using Cons.prems by auto
  ultimately show ?case using Cons.IH [of "shutdown_isolate_call p s"] Cons.prems by simp
qed simp

lemma shutdown_inv:
  assumes inv: "core_inv F (core_of {} s)"
  shows "core_inv F (core_of {} (cancel_in_flight_calls_for_shutdown world s))"
proof -
  define drivers where "drivers = map snd (ct_driver (rt_calls s))"
  define isolates where "isolates = map snd (ct_isolate (rt_calls s))"
  define s0 where "s0 = s\<lparr>rt_world := world, rt_completions := [], rt_calls := ct_new\<rparr>"
  let ?C = "dh_cause ` dc_head ` set drivers \<union> pi_cause ` set isolates"
  have table: "driver_ok F (rt_next_call s) (rt_next_event s) (rt_calls s)"
    "isolate_ok F (rt_next_call s) (rt_next_event s) (rt_next_ordinal s) (rt_calls s)"
    using inv by (simp_all add: core_inv_def table_ok_def)
  have keys: "map pi_call_id isolates = map fst (ct_isolate (rt_calls s))"
    using table(2) by (auto simp: isolates_def isolate_ok_def)
  then have ids: "pi_call_id ` set isolates = fst ` set (ct_isolate (rt_calls s))"
    by (metis list.set_map)
  have causes: "cause_in F (rt_next_event s) c" if "c \<in> ?C" for c
    using that table by (auto simp: drivers_def isolates_def driver_ok_def isolate_ok_def)
  have "good F (core_of (pi_call_id ` set isolates) s0) ?C (pi_call_id ` set isolates) s0"
    unfolding good_def using shutdown_drain [OF inv, of world] causes by (simp add: s0_def ids)
  then have "good F (core_of (pi_call_id ` set isolates) s0) ?C {}
      (fold shutdown_isolate_call isolates (fold shutdown_driver_call drivers s0))"
  proof (intro fold_shutdown_isolate_good fold_shutdown_driver_good)
    show "\<forall>d \<in> set drivers. dh_cause (dc_head d) \<in> ?C \<and> dh_kind (dc_head d) \<noteq> KindIsolateCall"
      using table(1) by (auto simp: drivers_def driver_ok_def)
    show "distinct (map pi_call_id isolates)"
      unfolding keys using table(2) bt_sorted_distinct by (auto simp: isolate_ok_def)
  qed auto
  then show ?thesis
    using good_inv by (fastforce simp: cancel_in_flight_calls_for_shutdown_def Let_def drivers_def isolates_def s0_def)
qed

section \<open>Runs of a runtime\<close>

text \<open>
  What the host of a runtime may do: the public operations of \<open>Runtime\<close> and the calls of the shard
  worker. Besides, another shard may draw numbers from the shared counter of calls, and the world
  outside may change at any time.
\<close>

datatype ('h, 'm, 'd) host_op =
    OpRegister 'h nat
  | OpRegisterWith 'h nat 'm
  | OpSupervise reg_address supervisor_config
  | OpSend reg_address 'm
  | OpStep
  | OpHarvest "('h, 'm, 'd) envelope"
  | OpRetention trace_retention
  | OpDrainBudget nat
  | OpWorld 'd
  | OpOtherCall
  | OpSettleTerminals
  | OpShutdown 'd

fun host_exec ::
    "('h, 'm, 'd) rt_env \<Rightarrow> ('h, 'm, 'd) host_op \<Rightarrow> ('h, 'm, 'd) rt \<Rightarrow> ('h, 'm, 'd) rt option" where
  "host_exec E (OpRegister isolate capacity) s = Some (snd (register_entry isolate None capacity s))"
| "host_exec E (OpRegisterWith isolate capacity bootstrap) s =
     Some (snd (register_with_bootstrap isolate capacity bootstrap s))"
| "host_exec E (OpSupervise parent config) s = Some (snd (try_supervise parent config s))"
| "host_exec E (OpSend address message) s = map_option snd (rt_try_send address message s)"
| "host_exec E OpStep s = map_option snd (rt_step E s)"
| "host_exec E (OpHarvest envelope) s = map_option snd (harvest_remote_envelope E envelope s)"
| "host_exec E (OpRetention retention) s = Some (set_trace_retention retention s)"
| "host_exec E (OpDrainBudget budget) s = Some (set_driver_completion_drain_budget budget s)"
| "host_exec E (OpWorld world) s = Some (s\<lparr>rt_world := world\<rparr>)"
| "host_exec E OpOtherCall s = Some (s\<lparr>rt_next_call := rt_next_call s + 1\<rparr>)"
| "host_exec E OpSettleTerminals s = Some (dispose_all_terminal_reservations_on_shutdown s)"
| "host_exec E (OpShutdown world) s = Some (cancel_in_flight_calls_for_shutdown world s)"

definition rt_run ::
    "('h, 'm, 'd) rt_env \<Rightarrow> ('h, 'm, 'd) host_op list \<Rightarrow> ('h, 'm, 'd) rt \<Rightarrow> ('h, 'm, 'd) rt option" where
  "rt_run E ops s = foldM (host_exec E) ops s"

fun op_causes :: "('h, 'm, 'd) host_op \<Rightarrow> nat set" where
  "op_causes (OpHarvest envelope) = {env_cause envelope}"
| "op_causes _ = {}"

lemma core_inv_new: "core_inv F (core_of {} (rt_new system shard world))"
  by (simp add: core_inv_def log_ok_def registry_ok_def table_ok_def fate_ok_def trace_ok_def kept_ok_def
        kept_of_def in_flight_def kinds_of_def attempts_def endings_def rt_new_def ct_new_ok)

lemma try_supervise_core: "core_of L (snd (try_supervise parent config s)) = core_of L s"
  by (simp add: try_supervise_def Let_def split: option.split)

lemma host_exec_inv:
  assumes kinds: "backend_kinds E" and inv: "core_inv F (core_of {} s)" and causes: "op_causes op \<subseteq> F"
    and run: "host_exec E op s = Some s'"
  shows "core_inv F (core_of {} s')"
proof (cases op)
  case (OpRegister isolate capacity)
  with run good_inv [OF good_register [OF good_init [OF inv]]] show ?thesis by auto
next
  case (OpRegisterWith isolate capacity bootstrap)
  with run register_with_bootstrap_inv [OF inv] show ?thesis by auto
next
  case (OpSupervise parent config)
  with run inv show ?thesis by (auto simp: try_supervise_core)
next
  case (OpSend address message)
  with run obtain r where send: "rt_try_send address message s = Some (r, s')" by auto
  then have "s' = s \<or> (\<exists>i r. enqueue_entry_message i message None s = Some (r, s'))"
    by (auto simp: rt_try_send_def Option.bind_eq_Some_conv split: if_splits option.splits)
  then have "good F (core_of {} s) {} {} s'"
    using good_init [OF inv] by (auto intro: good_touches enqueue_entry_touches)
  then show ?thesis by (rule good_inv)
next
  case OpStep
  with run rt_step_inv [OF kinds inv] show ?thesis by auto
next
  case (OpHarvest envelope)
  with run obtain r where h: "harvest_remote_envelope E envelope s = Some (r, s')" by auto
  show ?thesis using good_inv [OF harvest_envelope_good [OF good_init [OF inv] _ h]] causes OpHarvest by simp
next
  case (OpRetention retention)
  with run set_trace_retention_inv [OF inv] show ?thesis by auto
next
  case (OpDrainBudget budget)
  then have "core_of {} s' = core_of {} s"
    using run by (auto simp: set_driver_completion_drain_budget_def core_of_def kept_of_def)
  with inv show ?thesis by simp
next
  case (OpWorld world)
  with run inv show ?thesis by auto
next
  case OpOtherCall
  with run good_inv [OF good_number [OF good_init [OF inv]]] show ?thesis by auto
next
  case OpSettleTerminals
  with run good_inv [OF good_dispose_all [OF good_init [OF inv]]] show ?thesis by auto
next
  case (OpShutdown world)
  with run shutdown_inv [OF inv] show ?thesis by auto
qed

lemma rt_run_inv:
  assumes "backend_kinds E" "\<And>op. op \<in> set ops \<Longrightarrow> op_causes op \<subseteq> F"
    and "core_inv F (core_of {} s)" "rt_run E ops s = Some s'"
  shows "core_inv F (core_of {} s')"
  using assms(2-4)
proof (induction ops arbitrary: s)
  case (Cons op ops)
  then obtain s1 where "host_exec E op s = Some s1" "rt_run E ops s1 = Some s'"
    by (auto simp: rt_run_def Option.bind_eq_Some_conv)
  with Cons host_exec_inv [OF assms(1), of F s op s1] show ?case by simp
qed (simp add: rt_run_def)

lemmas rt_run_new_inv = rt_run_inv [OF _ _ core_inv_new]

end
