(* ===== verification/Spec2Isabelle.thy ===== *)
theory Spec2Isabelle
  imports Spsc_Steps Length_Delimited Line_Framer Restart Pending_Calls Gates Wait_Queue Pool_Safety Rpc_Frame
    Chunked_Decoder Rt_Reach
begin

text \<open>
  This development verifies the runtime core and the concurrency and protocol building blocks of tina-rs, a Rust
  framework in which isolates (single-threaded state machines with bounded mailboxes) run on
  shards, return effects, and are restarted by supervisors.

  \<^bold>\<open>The parts and how they interact.\<close> A runtime shard takes a message from the mailbox of an
  isolate, runs its handler and carries out the effect the handler returns: send, reply, spawn,
  stop, sleep, or an I/O call. Mailboxes are bounded and refuse what does not fit. Around this core
  the crates give handlers reusable pieces of state: timers and backoff, sets of outstanding calls,
  admission gates, lists of parked callers, and pools of leased resources built on these lists.
  Restart policies and budgets decide what a supervisor does with a failed child. Network services
  feed bytes from sockets through incremental decoders and framers. All of these pieces are pure
  state machines that the runtime drives. The core of the runtime and these pieces are what is
  modelled here.

  \<^bold>\<open>Conventions.\<close> A struct is a record, an enum a datatype with the constructors of the source, a
  method a function that returns the updated record. \<open>u8\<close>, \<open>u32\<close> and \<open>u64\<close> values are words, so
  counters wrap where the code lets them and saturate where it says so. Lengths and capacities of
  type \<open>usize\<close> are natural numbers; where the code can reach the limit the bound \<open>usize_max\<close> is
  written out. The cursors of the ring buffer are words, because their wrap-around matters.
  Instants and durations are natural numbers of nanoseconds. A panic is \<open>None\<close>, and a
  \<open>Result\<close> is a sum with the error on the left. A deferred reply, which lives in the runtime and can
  be settled by others at any time, is read through a snapshot \<open>st\<close> of the state of each reply
  taken at the start of a call; theorems quantify over all snapshots.

  \<^bold>\<open>Theories.\<close>

  \<^item> \<open>Tina_Prelude\<close>: word types, saturating arithmetic, and lemmas on lists of optional slots.

  \<^item> \<open>Mailbox\<close>: the trait \<open>Mailbox\<close> of \<open>tina/src/isolate.rs\<close> as a table of methods with its default
    bodies, and \<open>DefaultMailbox\<close> and \<open>DefaultThreadedMailbox\<close> of \<open>tina-runtime/src/mailbox.rs\<close>. The
    locale \<open>bounded_mailbox\<close> is the contract of a bounded FIFO mailbox; it is interpreted for both
    mailboxes and, in \<open>Spsc_Ring\<close>, for the ring. Its lemmas give the FIFO behaviour of any sequence
    of calls and that a granted reservation can be used.

  \<^item> \<open>Spsc_Ring\<close> and \<open>Spsc_Steps\<close>: the lock-free ring of \<open>tina-mailbox-spsc/src/lib.rs\<close>. The first
    models each method as one atomic call on a ring with wrapping 64-bit cursors, including the
    destructor, and shows that it refines the bounded mailbox. The second is a small-step relation
    in which every atomic load, store, compare-and-swap and slot access of every thread is one
    step; its invariant gives freedom from races on slots, FIFO order and the linearisation of
    \<open>close\<close> in every interleaving, for any number of threads. Steps are sequentially consistent.

  \<^item> \<open>Sync_Codec\<close>, \<open>Bytes_Be\<close>, \<open>Length_Delimited\<close>, \<open>Line_Framer\<close>: the crate \<open>tina-codec\<close>. The locale
    \<open>sync_codec\<close> is the contract between a framer and the driver \<open>decode_chunk\<close>: the driver returns,
    and what it produces does not depend on how the stream is cut. It is interpreted for the
    length-delimited and the line framer, which are then shown equal to reference decoders of the
    whole stream, bounded in memory, and terminal after a fault.

  \<^item> \<open>Rpc_Frame\<close>: the wire frames of \<open>tina-rpc/src/frame.rs\<close>, including the UTF-8 check of the standard
    library. Decoding and encoding are inverse to each other on exactly the version 1 frames within
    the limits.

  \<^item> \<open>Chunked_Decoder\<close>: the HTTP/1.1 chunked body decoder of \<open>tina-http/src/chunked_decoder.rs\<close> with
    the read loop of its callers. Well-formed bodies decode to their data for any cut of the stream;
    memory is bounded; one malformed stream whose verdict depends on the cut is exhibited.

  \<^item> \<open>Timers\<close>: deadlines, exponential backoff and recurring ticks of \<open>tina/src/time.rs\<close>, with the
    tick methods of \<open>tina/src/context.rs\<close>: delays, token freshness, drift and catch-up.

  \<^item> \<open>Restart\<close>: \<open>RestartPolicy\<close>, \<open>RestartBudget\<close> and the sliding window of \<open>tina/src/isolate.rs\<close> and
    \<open>tina-supervisor/src/lib.rs\<close>: which children are restarted, and how many restarts a budget grants
    in a window and in any stretch of time.

  \<^item> \<open>Pending_Calls\<close>: \<open>PendingCallSet\<close> of \<open>tina/src/pending_call_set.rs\<close> refines a bounded finite map.

  \<^item> \<open>Gates\<close>: \<open>LocalPermitGate\<close>, \<open>SingleCallGate\<close> and \<open>DrainState\<close> of \<open>tina-runtime\<close>. Permits are
    counted exactly; the single call gate keeps one timer in flight and drains its backlog; the
    drain stage is monotone with exact counters. A cancelled timer is shown to strand the gate.

  \<^item> \<open>Capacity\<close>: the capacity modes, reports and validation of \<open>tina/src/capacity.rs\<close>.

  \<^item> \<open>Slab\<close>, \<open>Wait_List\<close>, \<open>Wait_Queue\<close>: the list of parked callers of \<open>tina-runtime/src/wait_list.rs\<close>
    and \<open>shared_work.rs\<close>. \<open>Slab\<close> has the lemmas on a vector of generation-tagged slots; \<open>Wait_List\<close>
    is the model; \<open>Wait_Queue\<close> shows that it refines the queue of its waiters, that no call panics,
    and that no ticket is issued twice.

  \<^item> \<open>Pool_Types\<close>, \<open>Worker_Pool\<close>, \<open>Pool_Invariant\<close>, \<open>Pool_Turns\<close>, \<open>Pool_Runs\<close>, \<open>Pool_Safety\<close>: resource
    pools. \<open>Pool_Types\<close> is \<open>tina/src/pool.rs\<close>; \<open>Worker_Pool\<close> is \<open>tina-runtime/src/pool.rs\<close> with every
    handler branch, on top of the wait list; the others prove the state invariant, that each turn is
    a step of a bounded FIFO of callers, the life cycle of resources and generations over runs, and
    the resulting properties of leases.

  \<^item> \<open>Rt_Types\<close>, \<open>Rt_State\<close>, \<open>Rt_Calls\<close>, \<open>Rt_Lifecycle\<close>, \<open>Rt_Step\<close>, \<open>Rt_Remote\<close>: one shard of the runtime,
    the crate \<open>tina-runtime\<close>. \<open>Rt_Types\<close> has the vocabularies (events, effects, outcomes, envelopes);
    \<open>Rt_State\<close> the state of \<open>Runtime\<close> in \<open>lib.rs\<close> with the registry of \<open>registration.rs\<close>, the call
    table, the trace and the deferred slots of \<open>deferred.rs\<close>; \<open>Rt_Calls\<close>, \<open>Rt_Lifecycle\<close> and \<open>Rt_Step\<close>
    the methods of \<open>dispatch.rs\<close>: settling calls and replies, stopping, spawning, restarting and
    supervising isolates, the driver, every effect, and the step; \<open>Rt_Remote\<close> what a shard does with
    the envelopes of other shards (\<open>remote.rs\<close>). The user's handlers, the driver, the clock, and the
    lanes to other shards are fields of a record \<open>rt_env\<close> of functions on a world, and theorems
    quantify over it. Identifiers and events are natural numbers. A panic that is not caught is
    \<open>None\<close>. A \<open>BTreeMap\<close> is a sorted association list.

  \<^item> \<open>Rt_Ledger\<close>, \<open>Rt_Refine\<close>, \<open>Rt_Settle\<close>, \<open>Rt_Lives\<close>, \<open>Rt_Turns\<close>, \<open>Rt_Runs\<close>, \<open>Rt_Reach\<close>: what a shard
    promises. The
    ledger is a small abstract machine: events are appended with the next number and an earlier
    cause, isolates are registered and evolve, calls are opened and settled. Its invariant gives
    the order of events, the well-formedness of registry and call table, and that a call is settled
    once. \<open>Rt_Refine\<close> has a small logic for operations that may panic; the other theories use it to
    show that every operation of a shard is a run of the ledger, up to \<open>rt_step\<close>, the harvest of
    envelopes, the operations of the host and shutdown. \<open>rt_run\<close> is any sequence of these from a new
    runtime, and keeps the invariant.

  \<^bold>\<open>Bounds.\<close> Models of loops are total functions wherever the loop ends on its own; the termination
  arguments are the length of the unread input or of the remaining slots. The driver of the framers
  and the ring destructor, which could loop for an ill-behaved codec or state, are partial functions
  with a proof that they return; so are the loop over due calls and the loop that drains the mailbox of
  a stopped isolate. The pool theorems assume fewer than \<open>2^64 - 1\<close> messages, the point
  at which a 64-bit generation counter could wrap.

  \<^bold>\<open>Not modelled.\<close> The threads, channels and parking around a shard, the I/O driver behind the runtime
  calls, and the typed wrappers that box a value for the modelled methods; the drivers, bridges and
  listeners are I/O. Weak memory orderings of the ring are not modelled. The HTTP, HTTP/2,
  gRPC, WebSocket and RPC connection isolates are modelled only in their decoders named above.
  The deterministic simulator, tracing, procedural macros, test harnesses, examples and the vendored
  I/O loop are outside the development. Formatting of values as text is left out everywhere.
\<close>

end
